(* ===== verification/Prelude.thy ===== *)
theory Prelude
  imports Main "HOL-Library.Multiset" "HOL-Library.Option_ord"
begin

text \<open>
  What every component shares: the collections of simplification rules, the textual form of numbers
  used in messages, and generic facts on lists, options and finite maps.
\<close>

section \<open>Collections of rules\<close>

named_theorems wire_simps \<open>wire names of enumerations\<close>
named_theorems table_simps \<open>transition tables and membership in them\<close>
named_theorems os_simps \<open>results of operating-system calls\<close>
named_theorems frame_intros \<open>what an operation leaves unchanged in the file tree\<close>
named_theorems run_simps \<open>steps of the plan executor\<close>

section \<open>Wire names\<close>

text \<open>
  The enumerations of the program that reach the database or a contract carry a canonical string.
  Where the parser is derived (\<open>strum::EnumString\<close>), it accepts exactly the canonical strings: the
  first variant whose name is the input.
\<close>

definition parse_by :: "('e \<Rightarrow> string) \<Rightarrow> 'e list \<Rightarrow> string \<Rightarrow> 'e option" where
  "parse_by as_str all s = find (\<lambda>v. as_str v = s) all"

lemma find_SomeD: "find P xs = Some x \<Longrightarrow> x \<in> set xs \<and> P x"
  by (induction xs) (auto split: if_splits)

lemma find_None_iff_all: "find P xs = None \<longleftrightarrow> (\<forall>x \<in> set xs. \<not> P x)"
  by (induction xs) auto

text \<open>
  The contract of a wire enumeration: a name for every variant, a list of all variants, and no two
  variants with one name. The round trip between names and variants follows.
\<close>

locale wire_enum =
  fixes as_str :: "'e \<Rightarrow> string"
    and parse_str :: "string \<Rightarrow> 'e option"
    and all_variants :: "'e list"
  assumes complete: "v \<in> set all_variants"
    and distinct_names: "distinct (map as_str all_variants)"
    and parse_spec: "parse_str s = parse_by as_str all_variants s"
begin

lemma as_str_inject: "as_str v = as_str w \<longleftrightarrow> v = w"
  using distinct_names complete by (auto simp: distinct_map inj_on_def)

lemma parse_as_str: "parse_str (as_str v) = Some v"
proof -
  obtain w where w: "find (\<lambda>u. as_str u = as_str v) all_variants = Some w"
    using complete [of v] find_None_iff_all [of "\<lambda>u. as_str u = as_str v" all_variants]
    by (cases "find (\<lambda>u. as_str u = as_str v) all_variants") auto
  then have "as_str w = as_str v" by (blast dest: find_SomeD)
  with w show ?thesis by (simp add: parse_spec parse_by_def as_str_inject)
qed

lemma parse_SomeD: "parse_str s = Some v \<Longrightarrow> as_str v = s"
  by (auto simp: parse_spec parse_by_def dest: find_SomeD)

lemma parse_iff: "parse_str s = Some v \<longleftrightarrow> s = as_str v"
  using parse_as_str parse_SomeD by auto

lemma parse_None_iff: "parse_str s = None \<longleftrightarrow> s \<notin> range as_str"
  using parse_iff [of s] by (cases "parse_str s") (auto simp: image_iff)

end

section \<open>Numbers in messages\<close>

fun show_nat :: "nat \<Rightarrow> string" where
  "show_nat n = (if n < 10 then [char_of (48 + n)] else show_nat (n div 10) @ [char_of (48 + n mod 10)])"

declare show_nat.simps [simp del]

definition show_int :: "int \<Rightarrow> string" where
  "show_int i = (if i < 0 then ''-'' @ show_nat (nat (- i)) else show_nat (nat i))"

definition quoted :: "string \<Rightarrow> string" where
  "quoted s = [CHR 0x27] @ s @ [CHR 0x27]"

section \<open>Lists\<close>

lemma map_of_rev_SomeD: "map_of (rev xs) k = Some v \<Longrightarrow> (k, v) \<in> set xs"
  by (auto dest: map_of_SomeD)

lemma successively_ConsD: "successively P (x # xs) \<Longrightarrow> successively P xs"
  by (cases xs) auto

lemma successively_mono_on:
  assumes "successively P xs" and "\<And>x y. x \<in> set xs \<Longrightarrow> y \<in> set xs \<Longrightarrow> P x y \<Longrightarrow> Q x y"
  shows "successively Q xs"
  using assms by (induction xs rule: induct_list012) auto

section \<open>Loops that stop at the first error\<close>

text \<open>\<open>for x in xs { step(x)?; }\<close> over a state.\<close>

fun try_each :: "('s \<Rightarrow> 'a \<Rightarrow> 'e + 's) \<Rightarrow> 's \<Rightarrow> 'a list \<Rightarrow> 'e + 's" where
  "try_each step s [] = Inr s"
| "try_each step s (x # xs) = (case step s x of Inl e \<Rightarrow> Inl e | Inr s' \<Rightarrow> try_each step s' xs)"

text \<open>Checks in sequence: \<open>a?; b\<close>.\<close>

definition and_then :: "'e + 'a \<Rightarrow> ('a \<Rightarrow> 'e + 'b) \<Rightarrow> 'e + 'b" where
  "and_then r f = (case r of Inl e \<Rightarrow> Inl e | Inr a \<Rightarrow> f a)"

abbreviation refuse_if :: "bool \<Rightarrow> 'e \<Rightarrow> 'e + unit" where
  "refuse_if b e \<equiv> (if b then Inl e else Inr ())"

lemma and_then_simps [simp]:
  "and_then (Inl e) f = Inl e" "and_then (Inr a) f = f a"
  by (simp_all add: and_then_def)

lemma and_then_Inr_iff: "and_then r f = Inr b \<longleftrightarrow> (\<exists>a. r = Inr a \<and> f a = Inr b)"
  by (cases r) auto

lemma refuse_if_Inr_iff [simp]: "refuse_if b e = Inr () \<longleftrightarrow> \<not> b"
  by simp

text \<open>
  What a loop accepts, by what its step accepts. \<open>keyed\<close> is the step of the validators: the keys of an
  element must be new and are inserted, the element itself must be good. Over a list, the keys of all
  elements are distinct and new.
\<close>

fun runs :: "('s \<Rightarrow> 'a \<Rightarrow> 's \<Rightarrow> bool) \<Rightarrow> 's \<Rightarrow> 'a list \<Rightarrow> 's \<Rightarrow> bool" where
  "runs R s [] s' \<longleftrightarrow> s' = s"
| "runs R s (x # xs) s' \<longleftrightarrow> (\<exists>t. R s x t \<and> runs R t xs s')"

definition keyed :: "('a \<Rightarrow> 'k list) \<Rightarrow> ('a \<Rightarrow> bool) \<Rightarrow> 'k set \<Rightarrow> 'a \<Rightarrow> 'k set \<Rightarrow> bool" where
  "keyed ks good s x s' \<longleftrightarrow> distinct (ks x) \<and> set (ks x) \<inter> s = {} \<and> good x \<and> s' = set (ks x) \<union> s"

definition both :: "('s \<Rightarrow> 'a \<Rightarrow> 's \<Rightarrow> bool) \<Rightarrow> ('t \<Rightarrow> 'a \<Rightarrow> 't \<Rightarrow> bool) \<Rightarrow> 's \<times> 't \<Rightarrow> 'a \<Rightarrow> 's \<times> 't \<Rightarrow> bool" where
  "both R Q s x s' \<longleftrightarrow> R (fst s) x (fst s') \<and> Q (snd s) x (snd s')"

lemma try_each_runs:
  assumes "\<And>s x s'. step s x = Inr s' \<longleftrightarrow> R s x s'"
  shows "try_each step s xs = Inr s' \<longleftrightarrow> runs R s xs s'"
proof (induction xs arbitrary: s)
  case (Cons x xs)
  show ?case
  proof (cases "step s x")
    case (Inl e)
    then have "\<not> R s x t" for t using assms [of s x t] by simp
    then show ?thesis using Inl by simp
  next
    case (Inr t)
    then have "R s x u \<longleftrightarrow> u = t" for u using assms [of s x u] by auto
    then show ?thesis using Inr Cons.IH [of t] by simp
  qed
qed auto

lemma runs_keyed:
  "runs (keyed ks good) s xs s' \<longleftrightarrow>
    distinct (concat (map ks xs)) \<and> set (concat (map ks xs)) \<inter> s = {} \<and> list_all good xs \<and>
    s' = set (concat (map ks xs)) \<union> s"
proof (induction xs arbitrary: s)
  case (Cons x xs)
  have "runs (keyed ks good) s (x # xs) s' \<longleftrightarrow>
      distinct (ks x) \<and> set (ks x) \<inter> s = {} \<and> good x \<and> runs (keyed ks good) (set (ks x) \<union> s) xs s'"
    by (auto simp: keyed_def)
  then show ?case unfolding Cons.IH by (simp add: Int_Un_distrib Int_commute Un_ac) blast
qed auto

lemma runs_both: "runs (both R Q) s xs s' \<longleftrightarrow> runs R (fst s) xs (fst s') \<and> runs Q (snd s) xs (snd s')"
  by (induction xs arbitrary: s) (auto simp: both_def prod_eq_iff)

lemma runs_single_keys:
  "runs (keyed (\<lambda>x. [key x]) good) {} xs s' \<longleftrightarrow>
    distinct (map key xs) \<and> list_all good xs \<and> s' = set (map key xs)"
  by (simp add: runs_keyed concat_map_singleton)

lemma try_each_all:
  assumes "\<And>x. step () x = Inr () \<longleftrightarrow> good x"
  shows "try_each step () xs = Inr () \<longleftrightarrow> list_all good xs"
proof (induction xs)
  case (Cons x xs)
  then show ?case using assms [of x] by (cases "step () x") simp_all
qed simp

end
