(* ===== verification/Lifecycle.thy ===== *)
theory Lifecycle
  imports Prelude
begin

text \<open>
  The lifecycle state machines of the domain (\<open>crates/domain/core/src/lifecycle\<close>): one enumeration
  and one edge table for filesystem plans, projects, data sources, inventory entries, prepared
  sources and projections; the table that says which project transitions need a reviewed plan; and
  the provenance trail of a value. The locale \<open>transition_table\<close> is what every edge table promises
  and is interpreted on each of them, \<open>wire_enum\<close> on each enumeration with wire names.
\<close>

section \<open>Edge tables\<close>

definition edge_in :: "('s \<times> 's) list \<Rightarrow> 's \<Rightarrow> 's \<Rightarrow> bool" where
  "edge_in table from to = list_ex (\<lambda>(f, t). f = from \<and> t = to) table"

text \<open>A history of states an entity goes through when every change of state is an edge.\<close>

definition lifecycle_walk :: "('s \<times> 's) list \<Rightarrow> 's list \<Rightarrow> bool" where
  "lifecycle_walk table ss = (ss \<noteq> [] \<and> successively (edge_in table) ss)"

lemma edge_in_iff [table_simps]: "edge_in table f t \<longleftrightarrow> (f, t) \<in> set table"
  by (auto simp: edge_in_def list_ex_iff)

lemma walk_Cons:
  "lifecycle_walk table (s # ss) \<longleftrightarrow> ss = [] \<or> (edge_in table s (hd ss) \<and> lifecycle_walk table ss)"
  by (cases ss) (auto simp: lifecycle_walk_def)

text \<open>
  Every table lists an edge once and has no edge from a state to itself, so a change of state is
  visible.
\<close>

locale transition_table =
  fixes table :: "('s \<times> 's) list"
  assumes edges_once: "distinct table"
    and no_self_edge: "list_all (\<lambda>(f, t). f \<noteq> t) table"
begin

lemma edge_neq: "edge_in table f t \<Longrightarrow> f \<noteq> t"
  using no_self_edge by (auto simp: table_simps list_all_iff)

lemma walk_stays:
  assumes "lifecycle_walk table ss" and "hd ss \<in> S"
    and closed: "\<And>f t. edge_in table f t \<Longrightarrow> f \<in> S \<Longrightarrow> t \<in> S"
  shows "set ss \<subseteq> S"
  using assms(1,2)
  by (induction ss) (use closed in \<open>auto simp: walk_Cons neq_Nil_conv\<close>)

text \<open>Where every edge out of a set of states leads into \<open>g\<close>, a walk that leaves the set visits \<open>g\<close>.\<close>

lemma walk_passes_gate:
  assumes "lifecycle_walk table ss" and "hd ss \<in> S" and "last ss \<notin> S"
    and gate: "\<And>f t. edge_in table f t \<Longrightarrow> f \<in> S \<Longrightarrow> t \<notin> S \<Longrightarrow> t = g"
  shows "g \<in> set ss"
  using assms(1,2,3)
proof (induction ss)
  case (Cons s ss)
  show ?case
  proof (cases ss)
    case (Cons t us)
    then show ?thesis using Cons.IH Cons.prems gate [of s t] by (cases "t \<in> S") (auto simp: walk_Cons)
  qed (use Cons.prems in auto)
qed (simp add: lifecycle_walk_def)

text \<open>Where a set of states is entered through \<open>g\<close> only, a walk that ends in it has stayed in it since \<open>g\<close>.\<close>

lemma walk_entered_through:
  assumes "lifecycle_walk table ss" and "hd ss \<notin> S" and "last ss \<in> S"
    and entry: "\<And>f t. edge_in table f t \<Longrightarrow> t \<in> S \<Longrightarrow> f \<in> S \<or> f = g"
  shows "\<exists>pre post. ss = pre @ g # post \<and> post \<noteq> [] \<and> set post \<subseteq> S"
  using assms(1,2,3)
proof (induction ss rule: rev_induct)
  case (snoc t us)
  then have ne: "us \<noteq> []" by auto
  then have walk: "lifecycle_walk table us" and edge: "edge_in table (last us) t"
    using snoc.prems by (auto simp: lifecycle_walk_def successively_append_iff)
  consider "last us = g" | "last us \<in> S"
    using entry [OF edge] snoc.prems by auto
  then show ?case
  proof cases
    case 1
    with append_butlast_last_id [OF ne] obtain vs where "us = vs @ [g]" by metis
    then show ?thesis using snoc.prems(3) by (intro exI [of _ vs] exI [of _ "[t]"]) simp
  next
    case 2
    then obtain pre post where "us = pre @ g # post" "post \<noteq> []" "set post \<subseteq> S"
      using snoc.IH [OF walk] snoc.prems(2) ne by auto
    then show ?thesis using snoc.prems(3)
      by (intro exI [of _ pre] exI [of _ "post @ [t]"]) simp
  qed
qed (simp add: lifecycle_walk_def)

lemma sink_ends_walk:
  assumes "lifecycle_walk table (s # ss)" and "\<And>t. \<not> edge_in table s t"
  shows "ss = []"
  using assms by (auto simp: walk_Cons)

end

section \<open>Filesystem plans\<close>

datatype plan_state =
    Plan_Draft | Plan_ReadyForReview | Plan_Approved | Plan_Applying | Plan_Paused | Plan_Applied
  | Plan_PartiallyApplied | Plan_Failed | Plan_Cancelled | Plan_Discarded

primrec plan_as_str :: "plan_state \<Rightarrow> string" where
  "plan_as_str Plan_Draft = ''draft''"
| "plan_as_str Plan_ReadyForReview = ''ready_for_review''"
| "plan_as_str Plan_Approved = ''approved''"
| "plan_as_str Plan_Applying = ''applying''"
| "plan_as_str Plan_Paused = ''paused''"
| "plan_as_str Plan_Applied = ''applied''"
| "plan_as_str Plan_PartiallyApplied = ''partially_applied''"
| "plan_as_str Plan_Failed = ''failed''"
| "plan_as_str Plan_Cancelled = ''cancelled''"
| "plan_as_str Plan_Discarded = ''discarded''"

definition plan_ALL :: "plan_state list" where
  "plan_ALL = [Plan_Draft, Plan_ReadyForReview, Plan_Approved, Plan_Applying, Plan_Paused,
     Plan_Applied, Plan_PartiallyApplied, Plan_Failed, Plan_Cancelled, Plan_Discarded]"

definition plan_parse_str :: "string \<Rightarrow> plan_state option" where
  "plan_parse_str = parse_by plan_as_str plan_ALL"

definition plan_is_terminal :: "plan_state \<Rightarrow> bool" where
  "plan_is_terminal s = (case s of
       Plan_Applied \<Rightarrow> True | Plan_PartiallyApplied \<Rightarrow> True | Plan_Failed \<Rightarrow> True
     | Plan_Cancelled \<Rightarrow> True | Plan_Discarded \<Rightarrow> True | _ \<Rightarrow> False)"

datatype plan_kind = Organize | PrepareSource | Cleanup | ArchivePlan | RegenerateArtifact

definition plan_TRANSITIONS :: "(plan_state \<times> plan_state) list" where
  "plan_TRANSITIONS =
    [(Plan_Draft, Plan_ReadyForReview),
     (Plan_Draft, Plan_Discarded),
     (Plan_ReadyForReview, Plan_Approved),
     (Plan_ReadyForReview, Plan_Draft),
     (Plan_ReadyForReview, Plan_Discarded),
     (Plan_Approved, Plan_Applying),
     (Plan_Approved, Plan_Draft),
     (Plan_Applying, Plan_Applied),
     (Plan_Applying, Plan_PartiallyApplied),
     (Plan_Applying, Plan_Failed),
     (Plan_Applying, Plan_Cancelled),
     (Plan_Applying, Plan_Paused),
     (Plan_Paused, Plan_Applying),
     (Plan_Paused, Plan_Cancelled)]"

definition plan_is_allowed :: "plan_state \<Rightarrow> plan_state \<Rightarrow> bool" where
  "plan_is_allowed from to = edge_in plan_TRANSITIONS from to"

text \<open>The derived \<open>Ord\<close> of the enumeration is the order of declaration.\<close>

primrec plan_rank :: "plan_state \<Rightarrow> nat" where
  "plan_rank Plan_Draft = 0"
| "plan_rank Plan_ReadyForReview = 1"
| "plan_rank Plan_Approved = 2"
| "plan_rank Plan_Applying = 3"
| "plan_rank Plan_Paused = 4"
| "plan_rank Plan_Applied = 5"
| "plan_rank Plan_PartiallyApplied = 6"
| "plan_rank Plan_Failed = 7"
| "plan_rank Plan_Cancelled = 8"
| "plan_rank Plan_Discarded = 9"

lemma plan_rank_inject: "plan_rank a = plan_rank b \<longleftrightarrow> a = b"
  by (cases a; cases b) simp_all

instantiation plan_state :: linorder
begin

definition less_eq_plan_state :: "plan_state \<Rightarrow> plan_state \<Rightarrow> bool" where
  "less_eq_plan_state a b = (plan_rank a \<le> plan_rank b)"

definition less_plan_state :: "plan_state \<Rightarrow> plan_state \<Rightarrow> bool" where
  "less_plan_state a b = (plan_rank a < plan_rank b)"

instance
  by standard (auto simp: less_eq_plan_state_def less_plan_state_def plan_rank_inject)

end

interpretation plan_wire: wire_enum plan_as_str plan_parse_str plan_ALL
proof
  show "v \<in> set plan_ALL" for v by (cases v) (simp_all add: plan_ALL_def)
qed (simp_all add: plan_ALL_def plan_parse_str_def)

interpretation plan_table: transition_table plan_TRANSITIONS
  by unfold_locales (simp_all add: plan_TRANSITIONS_def)

lemma plan_is_terminal_simps [simp]:
  "plan_is_terminal s \<longleftrightarrow>
     s \<in> {Plan_Applied, Plan_PartiallyApplied, Plan_Failed, Plan_Cancelled, Plan_Discarded}"
  by (cases s) (simp_all add: plan_is_terminal_def)

section \<open>Projects\<close>

datatype project_state =
    Project_SetupIncomplete | Project_Ready | Project_Prepared | Project_Processing
  | Project_Completed | Project_Archived | Project_Blocked

primrec project_as_str :: "project_state \<Rightarrow> string" where
  "project_as_str Project_SetupIncomplete = ''setup_incomplete''"
| "project_as_str Project_Ready = ''ready''"
| "project_as_str Project_Prepared = ''prepared''"
| "project_as_str Project_Processing = ''processing''"
| "project_as_str Project_Completed = ''completed''"
| "project_as_str Project_Archived = ''archived''"
| "project_as_str Project_Blocked = ''blocked''"

definition project_variants :: "project_state list" where
  "project_variants = [Project_SetupIncomplete, Project_Ready, Project_Prepared, Project_Processing,
     Project_Completed, Project_Archived, Project_Blocked]"

definition project_parse_str :: "string \<Rightarrow> project_state option" where
  "project_parse_str = parse_by project_as_str project_variants"

definition is_before_archive :: "project_state \<Rightarrow> bool" where
  "is_before_archive s = (case s of
       Project_SetupIncomplete \<Rightarrow> True | Project_Ready \<Rightarrow> True | Project_Prepared \<Rightarrow> True
     | Project_Processing \<Rightarrow> True | Project_Completed \<Rightarrow> True | _ \<Rightarrow> False)"

definition is_read_only :: "project_state \<Rightarrow> bool" where
  "is_read_only s = (case s of Project_Archived \<Rightarrow> True | _ \<Rightarrow> False)"

definition is_tool_locked :: "project_state \<Rightarrow> bool" where
  "is_tool_locked s = (case s of
       Project_Prepared \<Rightarrow> True | Project_Processing \<Rightarrow> True | Project_Completed \<Rightarrow> True
     | Project_Blocked \<Rightarrow> True | _ \<Rightarrow> False)"

definition is_source_remove_locked :: "project_state \<Rightarrow> bool" where
  "is_source_remove_locked s = (case s of
       Project_Prepared \<Rightarrow> True | Project_Processing \<Rightarrow> True | Project_Completed \<Rightarrow> True
     | Project_Archived \<Rightarrow> True | _ \<Rightarrow> False)"

definition reopens_on_new_data :: "project_state \<Rightarrow> bool" where
  "reopens_on_new_data s = (case s of Project_Completed \<Rightarrow> True | _ \<Rightarrow> False)"

definition project_TRANSITIONS :: "(project_state \<times> project_state) list" where
  "project_TRANSITIONS =
    [(Project_SetupIncomplete, Project_Ready),
     (Project_SetupIncomplete, Project_Blocked),
     (Project_Ready, Project_Prepared),
     (Project_Ready, Project_Processing),
     (Project_Ready, Project_Blocked),
     (Project_Prepared, Project_Ready),
     (Project_Prepared, Project_Processing),
     (Project_Prepared, Project_Blocked),
     (Project_Processing, Project_Completed),
     (Project_Processing, Project_Blocked),
     (Project_Completed, Project_Archived),
     (Project_Completed, Project_Processing),
     (Project_Archived, Project_Processing),
     (Project_Archived, Project_Ready),
     (Project_Blocked, Project_SetupIncomplete),
     (Project_Blocked, Project_Ready),
     (Project_Blocked, Project_Prepared),
     (Project_Blocked, Project_Processing),
     (Project_Blocked, Project_Archived)]"

definition project_is_allowed :: "project_state \<Rightarrow> project_state \<Rightarrow> bool" where
  "project_is_allowed from to = edge_in project_TRANSITIONS from to"

interpretation project_wire: wire_enum project_as_str project_parse_str project_variants
proof
  show "v \<in> set project_variants" for v by (cases v) (simp_all add: project_variants_def)
qed (simp_all add: project_variants_def project_parse_str_def)

interpretation project_table: transition_table project_TRANSITIONS
  by unfold_locales (simp_all add: project_TRANSITIONS_def)

section \<open>Data sources, inventory, prepared sources, projections\<close>

datatype data_source_state = DS_Active | DS_Missing | DS_Disabled | DS_ReconnectRequired

definition data_source_TRANSITIONS :: "(data_source_state \<times> data_source_state) list" where
  "data_source_TRANSITIONS =
    [(DS_Active, DS_Missing),
     (DS_Missing, DS_Active),
     (DS_Missing, DS_ReconnectRequired),
     (DS_ReconnectRequired, DS_Active),
     (DS_Active, DS_Disabled),
     (DS_Disabled, DS_Active)]"

definition data_source_is_allowed :: "data_source_state \<Rightarrow> data_source_state \<Rightarrow> bool" where
  "data_source_is_allowed from to = edge_in data_source_TRANSITIONS from to"

interpretation data_source_table: transition_table data_source_TRANSITIONS
  by unfold_locales (simp_all add: data_source_TRANSITIONS_def)

datatype inventory_state =
  Inv_Observed | Inv_Changed | Inv_Classified | Inv_Missing | Inv_Rejected | Inv_Protected

definition inventory_TRANSITIONS :: "(inventory_state \<times> inventory_state) list" where
  "inventory_TRANSITIONS =
    [(Inv_Observed, Inv_Classified),
     (Inv_Observed, Inv_Changed),
     (Inv_Observed, Inv_Missing),
     (Inv_Observed, Inv_Protected),
     (Inv_Classified, Inv_Rejected),
     (Inv_Classified, Inv_Changed),
     (Inv_Classified, Inv_Missing),
     (Inv_Classified, Inv_Protected),
     (Inv_Changed, Inv_Observed),
     (Inv_Changed, Inv_Missing),
     (Inv_Changed, Inv_Protected),
     (Inv_Missing, Inv_Observed),
     (Inv_Missing, Inv_Protected),
     (Inv_Rejected, Inv_Classified),
     (Inv_Rejected, Inv_Protected)]"

definition inventory_is_allowed :: "inventory_state \<Rightarrow> inventory_state \<Rightarrow> bool" where
  "inventory_is_allowed from to = edge_in inventory_TRANSITIONS from to"

interpretation inventory_table: transition_table inventory_TRANSITIONS
  by unfold_locales (simp_all add: inventory_TRANSITIONS_def)

datatype prepared_source_state = PS_NotCreated | PS_Planned | PS_Ready | PS_Stale | PS_Retired

definition prepared_source_TRANSITIONS :: "(prepared_source_state \<times> prepared_source_state) list" where
  "prepared_source_TRANSITIONS =
    [(PS_NotCreated, PS_Planned),
     (PS_Planned, PS_Ready),
     (PS_Planned, PS_Retired),
     (PS_Ready, PS_Stale),
     (PS_Ready, PS_Retired),
     (PS_Stale, PS_Planned),
     (PS_Stale, PS_Retired)]"

definition prepared_source_is_allowed :: "prepared_source_state \<Rightarrow> prepared_source_state \<Rightarrow> bool" where
  "prepared_source_is_allowed from to = edge_in prepared_source_TRANSITIONS from to"

primrec prepared_source_as_str :: "prepared_source_state \<Rightarrow> string" where
  "prepared_source_as_str PS_NotCreated = ''not_created''"
| "prepared_source_as_str PS_Planned = ''planned''"
| "prepared_source_as_str PS_Ready = ''ready''"
| "prepared_source_as_str PS_Stale = ''stale''"
| "prepared_source_as_str PS_Retired = ''retired''"

interpretation prepared_source_table: transition_table prepared_source_TRANSITIONS
  by unfold_locales (simp_all add: prepared_source_TRANSITIONS_def)

datatype projection_state = Proj_Current | Proj_Stale | Proj_Regenerating

definition projection_TRANSITIONS :: "(projection_state \<times> projection_state) list" where
  "projection_TRANSITIONS =
    [(Proj_Current, Proj_Stale),
     (Proj_Stale, Proj_Regenerating),
     (Proj_Regenerating, Proj_Current),
     (Proj_Regenerating, Proj_Stale)]"

definition projection_is_allowed :: "projection_state \<Rightarrow> projection_state \<Rightarrow> bool" where
  "projection_is_allowed from to = edge_in projection_TRANSITIONS from to"

primrec projection_as_str :: "projection_state \<Rightarrow> string" where
  "projection_as_str Proj_Current = ''current''"
| "projection_as_str Proj_Stale = ''stale''"
| "projection_as_str Proj_Regenerating = ''regenerating''"

interpretation projection_table: transition_table projection_TRANSITIONS
  by unfold_locales (simp_all add: projection_TRANSITIONS_def)

section \<open>Generated views\<close>

datatype view_kind = VK_Symlink | VK_Junction | VK_Copy | VK_Hardlink

primrec view_kind_as_str :: "view_kind \<Rightarrow> string" where
  "view_kind_as_str VK_Symlink = ''symlink''"
| "view_kind_as_str VK_Junction = ''junction''"
| "view_kind_as_str VK_Copy = ''copy''"
| "view_kind_as_str VK_Hardlink = ''hardlink''"

definition view_kind_variants :: "view_kind list" where
  "view_kind_variants = [VK_Symlink, VK_Junction, VK_Copy, VK_Hardlink]"

definition view_kind_parse_str :: "string \<Rightarrow> view_kind option" where
  "view_kind_parse_str = parse_by view_kind_as_str view_kind_variants"

definition is_v1_supported :: "view_kind \<Rightarrow> bool" where
  "is_v1_supported k = (case k of VK_Symlink \<Rightarrow> True | VK_Junction \<Rightarrow> True | VK_Copy \<Rightarrow> True | _ \<Rightarrow> False)"

datatype view_state = VS_Current | VS_Stale | VS_Missing | VS_Removed | VS_Failed | VS_KindDiverged

primrec view_state_as_str :: "view_state \<Rightarrow> string" where
  "view_state_as_str VS_Current = ''current''"
| "view_state_as_str VS_Stale = ''stale''"
| "view_state_as_str VS_Missing = ''missing''"
| "view_state_as_str VS_Removed = ''removed''"
| "view_state_as_str VS_Failed = ''failed''"
| "view_state_as_str VS_KindDiverged = ''kind_diverged''"

definition view_state_variants :: "view_state list" where
  "view_state_variants = [VS_Current, VS_Stale, VS_Missing, VS_Removed, VS_Failed, VS_KindDiverged]"

definition view_state_parse_str :: "string \<Rightarrow> view_state option" where
  "view_state_parse_str = parse_by view_state_as_str view_state_variants"

definition allows_mutation :: "view_state \<Rightarrow> bool" where
  "allows_mutation s = (case s of VS_KindDiverged \<Rightarrow> False | _ \<Rightarrow> True)"

datatype item_observed_state =
  Obs_Present | Obs_Missing | Obs_ChangedKind | Obs_Diverged | Obs_HashDiverged

primrec item_observed_as_str :: "item_observed_state \<Rightarrow> string" where
  "item_observed_as_str Obs_Present = ''present''"
| "item_observed_as_str Obs_Missing = ''missing''"
| "item_observed_as_str Obs_ChangedKind = ''changed_kind''"
| "item_observed_as_str Obs_Diverged = ''diverged''"
| "item_observed_as_str Obs_HashDiverged = ''hash_diverged''"

definition item_observed_parse_str :: "string \<Rightarrow> item_observed_state option" where
  "item_observed_parse_str s =
    (if s = ''present'' then Some Obs_Present
     else if s = ''missing'' then Some Obs_Missing
     else if s = ''changed_kind'' then Some Obs_ChangedKind
     else if s = ''diverged'' then Some Obs_Diverged
     else if s = ''hash_diverged'' then Some Obs_HashDiverged
     else None)"

record view_item =
  view_item_id :: string
  view_id :: string
  inventory_item_id :: string
  view_relative_path :: string
  materialization :: view_kind
  last_observed_state :: item_observed_state

record prepared_source_view =
  view_ident :: string
  view_project_id :: string
  view_kind_of :: view_kind
  view_state_of :: view_state
  view_items :: "view_item list"
  view_created_at :: string
  view_removed_at :: "string option"

definition has_mixed_kind :: "prepared_source_view \<Rightarrow> bool" where
  "has_mixed_kind v = list_ex (\<lambda>i. materialization i \<noteq> view_kind_of v) (view_items v)"

definition ALLOWED_PROJECT_STATES_FOR_VIEW_OPS :: "string list" where
  "ALLOWED_PROJECT_STATES_FOR_VIEW_OPS =
    [''setup_incomplete'', ''ready'', ''prepared'', ''processing'', ''blocked'', ''completed'']"

interpretation view_kind_wire: wire_enum view_kind_as_str view_kind_parse_str view_kind_variants
proof
  show "v \<in> set view_kind_variants" for v by (cases v) (simp_all add: view_kind_variants_def)
qed (simp_all add: view_kind_variants_def view_kind_parse_str_def)

interpretation view_state_wire: wire_enum view_state_as_str view_state_parse_str view_state_variants
proof
  show "v \<in> set view_state_variants" for v by (cases v) (simp_all add: view_state_variants_def)
qed (simp_all add: view_state_variants_def view_state_parse_str_def)

interpretation item_observed_wire: wire_enum item_observed_as_str item_observed_parse_str
    "[Obs_Present, Obs_Missing, Obs_ChangedKind, Obs_Diverged, Obs_HashDiverged]"
proof
  show "v \<in> set [Obs_Present, Obs_Missing, Obs_ChangedKind, Obs_Diverged, Obs_HashDiverged]" for v
    by (cases v) simp_all
qed (auto simp: item_observed_parse_str_def parse_by_def)

section \<open>Which transitions need a reviewed plan\<close>

datatype entity_type =
    ET_LibraryRoot | ET_FileRecord | ET_DataSource | ET_Project | ET_PreparedSource
  | ET_ProcessingArtifact | ET_Projection | ET_Plan | ET_FilesystemPlan | ET_Settings
  | ET_Protection | ET_Equipment | ET_Framing | ET_Calibration

primrec entity_type_as_str :: "entity_type \<Rightarrow> string" where
  "entity_type_as_str ET_LibraryRoot = ''library_root''"
| "entity_type_as_str ET_FileRecord = ''file_record''"
| "entity_type_as_str ET_DataSource = ''data_source''"
| "entity_type_as_str ET_Project = ''project''"
| "entity_type_as_str ET_PreparedSource = ''prepared_source''"
| "entity_type_as_str ET_ProcessingArtifact = ''processing_artifact''"
| "entity_type_as_str ET_Projection = ''projection''"
| "entity_type_as_str ET_Plan = ''plan''"
| "entity_type_as_str ET_FilesystemPlan = ''filesystem_plan''"
| "entity_type_as_str ET_Settings = ''settings''"
| "entity_type_as_str ET_Protection = ''protection''"
| "entity_type_as_str ET_Equipment = ''equipment''"
| "entity_type_as_str ET_Framing = ''framing''"
| "entity_type_as_str ET_Calibration = ''calibration''"

record plan_requirement_edge =
  edge_entity :: entity_type
  edge_from :: string
  edge_to :: string
  edge_requires_plan :: bool

definition plan_row :: "entity_type \<Rightarrow> string \<Rightarrow> string \<Rightarrow> plan_requirement_edge" where
  "plan_row e f t = \<lparr>edge_entity = e, edge_from = f, edge_to = t, edge_requires_plan = True\<rparr>"

definition plan_requirement_TABLE :: "plan_requirement_edge list" where
  "plan_requirement_TABLE =
    [plan_row ET_Project ''ready'' ''prepared'',
     plan_row ET_Project ''prepared'' ''ready'',
     plan_row ET_Project ''completed'' ''archived'',
     plan_row ET_Project ''blocked'' ''archived'',
     plan_row ET_Project ''archived'' ''processing'',
     plan_row ET_Project ''archived'' ''ready'',
     plan_row ET_PreparedSource ''*'' ''retired'',
     plan_row ET_ProcessingArtifact ''*'' ''regenerating'',
     plan_row ET_Projection ''*'' ''regenerating'']"

definition requires_plan :: "entity_type \<Rightarrow> string \<Rightarrow> string \<Rightarrow> bool" where
  "requires_plan entity from to =
    (list_ex (\<lambda>e. (edge_from e = from \<or> edge_from e = ''*'') \<and> (edge_to e = to \<or> edge_to e = ''*''))
       (filter (\<lambda>e. edge_entity e = entity) plan_requirement_TABLE)
     \<and> list_all edge_requires_plan
       (filter (\<lambda>e. edge_entity e = entity
                   \<and> (edge_from e = from \<or> edge_from e = ''*'')
                   \<and> (edge_to e = to \<or> edge_to e = ''*'')) plan_requirement_TABLE))"

record action_review_edge =
  review_entity :: entity_type
  review_from :: string
  review_to :: string
  critical_fields :: "string list"

definition action_review_TABLE :: "action_review_edge list" where
  "action_review_TABLE = []"

definition action_critical_fields :: "entity_type \<Rightarrow> string \<Rightarrow> string \<Rightarrow> string list" where
  "action_critical_fields entity from to =
    (case find (\<lambda>e. review_entity e = entity \<and> review_from e = from \<and> review_to e = to)
            action_review_TABLE of
       None \<Rightarrow> []
     | Some e \<Rightarrow> critical_fields e)"

section \<open>Provenance\<close>

datatype provenance_tag = Observed | Inferred | Reviewed | Generated | Planned | Applied

primrec priority :: "provenance_tag \<Rightarrow> nat" where
  "priority Observed = 2"
| "priority Inferred = 1"
| "priority Reviewed = 0"
| "priority Generated = 3"
| "priority Planned = 4"
| "priority Applied = 5"

record 'v provenance_entry =
  entry_value :: 'v
  entry_origin :: provenance_tag
  captured_at :: int
  source_id :: "string option"
  replaced_by :: "string option"

record 'v provenanced_value =
  current :: 'v
  origin :: provenance_tag
  history :: "'v provenance_entry list"
  history_truncated :: bool

definition provenanced_new :: "'v \<Rightarrow> provenance_tag \<Rightarrow> int \<Rightarrow> 'v provenanced_value" where
  "provenanced_new value tag at =
    \<lparr>current = value, origin = tag,
     history = [\<lparr>entry_value = value, entry_origin = tag, captured_at = at, source_id = None,
                 replaced_by = None\<rparr>],
     history_truncated = False\<rparr>"

definition provenanced_push :: "'v provenanced_value \<Rightarrow> 'v provenance_entry \<Rightarrow> 'v provenanced_value" where
  "provenanced_push v e =
    (let v = (if priority (entry_origin e) \<le> priority (origin v)
              then v\<lparr>current := entry_value e, origin := entry_origin e\<rparr> else v)
     in v\<lparr>history := e # history v\<rparr>)"

section \<open>Correctness\<close>

lemma plan_outgoing: "(\<forall>t. \<not> plan_is_allowed s t) \<longleftrightarrow> plan_is_terminal s"
  by (cases s) (auto simp: plan_is_allowed_def table_simps plan_TRANSITIONS_def)

lemma plan_reaches_terminal:
  "\<exists>ss. lifecycle_walk plan_TRANSITIONS ss \<and> hd ss = s \<and> plan_is_terminal (last ss)"
proof (cases s)
  case Plan_Draft
  then show ?thesis
    by (intro exI [of _ "[Plan_Draft, Plan_Discarded]"])
      (simp add: lifecycle_walk_def table_simps plan_TRANSITIONS_def)
next
  case Plan_ReadyForReview
  then show ?thesis
    by (intro exI [of _ "[Plan_ReadyForReview, Plan_Discarded]"])
      (simp add: lifecycle_walk_def table_simps plan_TRANSITIONS_def)
next
  case Plan_Approved
  then show ?thesis
    by (intro exI [of _ "[Plan_Approved, Plan_Applying, Plan_Applied]"])
      (simp add: lifecycle_walk_def table_simps plan_TRANSITIONS_def)
next
  case Plan_Applying
  then show ?thesis
    by (intro exI [of _ "[Plan_Applying, Plan_Applied]"])
      (simp add: lifecycle_walk_def table_simps plan_TRANSITIONS_def)
next
  case Plan_Paused
  then show ?thesis
    by (intro exI [of _ "[Plan_Paused, Plan_Cancelled]"])
      (simp add: lifecycle_walk_def table_simps plan_TRANSITIONS_def)
qed (auto intro!: exI [of _ "[s]"] simp: lifecycle_walk_def)

lemma requires_plan_matches:
  "requires_plan e f t \<longleftrightarrow>
     list_ex (\<lambda>r. edge_entity r = e \<and> (edge_from r = f \<or> edge_from r = ''*'')
                \<and> (edge_to r = t \<or> edge_to r = ''*'')) plan_requirement_TABLE"
proof -
  have "list_all edge_requires_plan plan_requirement_TABLE"
    by (simp add: plan_requirement_TABLE_def plan_row_def)
  then show ?thesis by (auto simp: requires_plan_def list_ex_iff list_all_iff)
qed

lemma requires_plan_iff:
  "requires_plan e f t \<longleftrightarrow>
     e = ET_Project \<and> (f, t) \<in> {(''ready'', ''prepared''), (''prepared'', ''ready''),
        (''completed'', ''archived''), (''blocked'', ''archived''), (''archived'', ''processing''),
        (''archived'', ''ready'')}
     \<or> e = ET_PreparedSource \<and> t = ''retired''
     \<or> e \<in> {ET_ProcessingArtifact, ET_Projection} \<and> t = ''regenerating''"
  by (cases e)
    (simp_all add: requires_plan_matches plan_requirement_TABLE_def plan_row_def eq_commute [of f]
      eq_commute [of t])

text \<open>
  C30. A plan that is being executed, is paused, or has ended other than by being discarded was
  approved, and since that approval it has not gone back to a draft: the history since the last
  approval consists of execution states only. No plan is applied without a review.
\<close>

theorem plan_execution_follows_approval:
  assumes "lifecycle_walk plan_TRANSITIONS ss" and "hd ss = Plan_Draft"
    and "last ss \<in> {Plan_Applying, Plan_Paused, Plan_Applied, Plan_PartiallyApplied, Plan_Failed,
                    Plan_Cancelled}"
  shows "\<exists>pre post. ss = pre @ Plan_Approved # post \<and> post \<noteq> []
           \<and> set post \<subseteq> {Plan_Applying, Plan_Paused, Plan_Applied, Plan_PartiallyApplied,
                         Plan_Failed, Plan_Cancelled}"
  using assms
  by (intro plan_table.walk_entered_through)
    (auto simp: table_simps plan_TRANSITIONS_def)

theorem plan_execution_follows_approval_witness:
  "\<exists>pre post. [Plan_Draft, Plan_ReadyForReview, Plan_Approved, Plan_Draft, Plan_ReadyForReview,
     Plan_Approved, Plan_Applying, Plan_Paused, Plan_Applying, Plan_Applied]
     = pre @ Plan_Approved # post \<and> post \<noteq> []
     \<and> set post \<subseteq> {Plan_Applying, Plan_Paused, Plan_Applied, Plan_PartiallyApplied, Plan_Failed,
                    Plan_Cancelled}"
  by (rule plan_execution_follows_approval)
    (simp_all add: lifecycle_walk_def table_simps plan_TRANSITIONS_def)

text \<open>
  The states the code calls terminal are exactly those without an outgoing edge, and from every
  state of a plan a terminal state can be reached.
\<close>

theorem plan_terminal_states:
  "plan_is_terminal s = (\<forall>t. \<not> plan_is_allowed s t)
   \<and> (\<exists>ss. lifecycle_walk plan_TRANSITIONS ss \<and> hd ss = s \<and> plan_is_terminal (last ss))"
  using plan_outgoing plan_reaches_terminal by auto

text \<open>
  On the allowed edges of a project, a reviewed plan is required exactly for those that touch
  files: entering or leaving the archive, and preparing or releasing the source view. The lookup
  is by the wire names of the states.
\<close>

theorem project_plan_requirement:
  assumes "project_is_allowed f t"
  shows "requires_plan ET_Project (project_as_str f) (project_as_str t)
    \<longleftrightarrow> f = Project_Archived \<or> t = Project_Archived
        \<or> (f, t) \<in> {(Project_Ready, Project_Prepared), (Project_Prepared, Project_Ready)}"
  using assms
  by (cases f; cases t) (simp_all add: project_is_allowed_def table_simps requires_plan_iff
      project_TRANSITIONS_def)

theorem project_plan_requirement_witness:
  "requires_plan ET_Project (project_as_str Project_Blocked) (project_as_str Project_Archived)"
  using project_plan_requirement [of Project_Blocked Project_Archived]
  by (simp add: project_is_allowed_def table_simps project_TRANSITIONS_def)

text \<open>
  Wire names round trip: each parser accepts exactly the canonical names and returns the variant
  they name.
\<close>

theorem wire_names_roundtrip:
  "(plan_parse_str s = Some p \<longleftrightarrow> s = plan_as_str p)
   \<and> (project_parse_str s = Some q \<longleftrightarrow> s = project_as_str q)
   \<and> (view_kind_parse_str s = Some k \<longleftrightarrow> s = view_kind_as_str k)
   \<and> (view_state_parse_str s = Some v \<longleftrightarrow> s = view_state_as_str v)
   \<and> (item_observed_parse_str s = Some i \<longleftrightarrow> s = item_observed_as_str i)"
  by (simp add: plan_wire.parse_iff project_wire.parse_iff view_kind_wire.parse_iff
      view_state_wire.parse_iff item_observed_wire.parse_iff)

lemma push_history: "history (provenanced_push v e) = e # history v"
  by (simp add: provenanced_push_def Let_def)

text \<open>The entry in effect: newest among those of the highest priority.\<close>

definition in_effect :: "'v provenance_entry \<Rightarrow> 'v provenanced_value \<Rightarrow> bool" where
  "in_effect e v \<longleftrightarrow> current v = entry_value e \<and> origin v = entry_origin e
     \<and> (\<exists>newer older. history v = newer @ e # older
          \<and> list_all (\<lambda>p. priority (entry_origin e) < priority (entry_origin p)) newer
          \<and> list_all (\<lambda>p. priority (entry_origin e) \<le> priority (entry_origin p)) older)"

lemma push_in_effect:
  assumes "in_effect e v"
  shows "\<exists>e'. in_effect e' (provenanced_push v n)"
proof (cases "priority (entry_origin n) \<le> priority (origin v)")
  case True
  from assms obtain newer older where h: "history v = newer @ e # older"
      "list_all (\<lambda>p. priority (entry_origin e) < priority (entry_origin p)) newer"
      "list_all (\<lambda>p. priority (entry_origin e) \<le> priority (entry_origin p)) older"
      "origin v = entry_origin e"
    by (auto simp: in_effect_def)
  then have "list_all (\<lambda>p. priority (entry_origin n) \<le> priority (entry_origin p)) (history v)"
    using True by (auto simp: list_all_iff)
  then have "in_effect n (provenanced_push v n)"
    using True unfolding in_effect_def provenanced_push_def Let_def
    by (intro conjI exI [of _ "[]"] exI [of _ "history v"]) simp_all
  then show ?thesis ..
next
  case False
  from assms obtain newer older where h: "history v = newer @ e # older"
      "list_all (\<lambda>p. priority (entry_origin e) < priority (entry_origin p)) newer"
      "list_all (\<lambda>p. priority (entry_origin e) \<le> priority (entry_origin p)) older"
      "origin v = entry_origin e" "current v = entry_value e"
    by (auto simp: in_effect_def)
  let ?w = "provenanced_push v n"
  have "history ?w = (n # newer) @ e # older" by (simp add: push_history h)
  moreover have "list_all (\<lambda>p. priority (entry_origin e) < priority (entry_origin p)) (n # newer)"
    using False h by simp
  moreover have "current ?w = entry_value e" "origin ?w = entry_origin e"
    using False h by (simp_all add: provenanced_push_def)
  ultimately have "in_effect e ?w" using h unfolding in_effect_def by blast
  then show ?thesis ..
qed

text \<open>
  A provenanced value loses nothing and shows the right entry: after any sequence of pushes the
  history is all the entries, newest first, and the current value and origin are those of the
  newest entry among the ones of the highest priority (reviewed before inferred before observed
  before generated before planned before applied).
\<close>

theorem provenance_current_is_newest_of_best:
  "history (foldl provenanced_push (provenanced_new x tag at) es)
     = rev es @ history (provenanced_new x tag at)
   \<and> (\<exists>e. in_effect e (foldl provenanced_push (provenanced_new x tag at) es))"
proof (induction es rule: rev_induct)
  case Nil
  have "in_effect (hd (history (provenanced_new x tag at))) (provenanced_new x tag at)"
    unfolding in_effect_def provenanced_new_def
    by (intro conjI exI [of _ "[]"]) simp_all
  then show ?case by auto
next
  case (snoc e es)
  then show ?case using push_in_effect [of _ _ e] by (auto simp: push_history)
qed

text \<open>
  Protection is a sticky pin: an inventory entry can be protected from every other state, and a
  protected entry never leaves that state.
\<close>

theorem protected_is_a_sticky_pin:
  "(inventory_is_allowed s Inv_Protected \<longleftrightarrow> s \<noteq> Inv_Protected)
   \<and> (lifecycle_walk inventory_TRANSITIONS (Inv_Protected # ss) \<longleftrightarrow> ss = [])"
  using inventory_table.sink_ends_walk [of Inv_Protected ss]
  by (cases s) (auto simp: inventory_is_allowed_def table_simps inventory_TRANSITIONS_def walk_Cons)

end
