(* ===== verification/SourceView.thy ===== *)
theory SourceView
  imports Prelude
begin

text \<open>
  How the kind of link of a generated source view is chosen
  (\<open>crates/domain/core/src/source_view.rs\<close>).
\<close>

datatype drive_scope = IntraDrive | CrossDrive

datatype materialization = Symlink | Hardlink | Junction | CopyFile

primrec materialization_as_str :: "materialization \<Rightarrow> string" where
  "materialization_as_str Symlink = ''symlink''"
| "materialization_as_str Hardlink = ''hardlink''"
| "materialization_as_str Junction = ''junction''"
| "materialization_as_str CopyFile = ''copy''"

definition materialization_from_str_opt :: "string \<Rightarrow> materialization option" where
  "materialization_from_str_opt s =
    (if s = ''symlink'' then Some Symlink
     else if s = ''hardlink'' then Some Hardlink
     else if s = ''junction'' then Some Junction
     else if s = ''copy'' then Some CopyFile
     else None)"

record filesystem_capability =
  symlink_available :: bool
  junction_available :: bool
  hardlink_available :: bool

record resolved_link_kind =
  link_kind :: materialization
  capability_drift :: "materialization option"

definition is_achievable :: "materialization \<Rightarrow> drive_scope \<Rightarrow> filesystem_capability \<Rightarrow> bool" where
  "is_achievable k scope cap = (case k of
       Symlink \<Rightarrow> symlink_available cap
     | Junction \<Rightarrow> junction_available cap
     | Hardlink \<Rightarrow> scope = IntraDrive \<and> hardlink_available cap
     | CopyFile \<Rightarrow> True)"

definition fallback_chain :: "drive_scope \<Rightarrow> materialization list" where
  "fallback_chain scope = (case scope of
       IntraDrive \<Rightarrow> [Hardlink, Symlink, Junction]
     | CrossDrive \<Rightarrow> [Symlink, Junction])"

definition requested_kind :: "drive_scope \<Rightarrow> materialization \<Rightarrow> materialization \<Rightarrow> materialization" where
  "requested_kind scope intra_default cross_default = (case scope of
       IntraDrive \<Rightarrow> intra_default
     | CrossDrive \<Rightarrow> (if cross_default = Hardlink then Symlink else cross_default))"

text \<open>\<open>None\<close> is the refusal \<open>NoLinkKind\<close>.\<close>

definition resolve_link_kind ::
  "drive_scope \<Rightarrow> materialization \<Rightarrow> materialization \<Rightarrow> filesystem_capability \<Rightarrow> bool
   \<Rightarrow> resolved_link_kind option" where
  "resolve_link_kind scope intra_default cross_default capability copy_opt_in =
    (let requested = requested_kind scope intra_default cross_default
     in if is_achievable requested scope capability
        then Some \<lparr>link_kind = requested, capability_drift = None\<rparr>
        else case find (\<lambda>fallback. fallback \<noteq> requested \<and> is_achievable fallback scope capability)
                    (fallback_chain scope) of
            Some fallback \<Rightarrow> Some \<lparr>link_kind = fallback, capability_drift = Some requested\<rparr>
          | None \<Rightarrow> (if copy_opt_in
                     then Some \<lparr>link_kind = CopyFile, capability_drift = Some requested\<rparr>
                     else None))"

interpretation materialization_wire: wire_enum materialization_as_str materialization_from_str_opt
    "[Symlink, Hardlink, Junction, CopyFile]"
proof
  show "v \<in> set [Symlink, Hardlink, Junction, CopyFile]" for v by (cases v) simp_all
qed (auto simp: materialization_from_str_opt_def parse_by_def)

lemmas resolve_simps =
  resolve_link_kind_def requested_kind_def is_achievable_def fallback_chain_def Let_def

lemma link_kind_cases:
  assumes "resolve_link_kind scope i c cap opt = Some r"
  obtains (asked) "link_kind r = requested_kind scope i c" "capability_drift r = None"
      "is_achievable (requested_kind scope i c) scope cap"
  | (fell_back) "link_kind r \<in> set (fallback_chain scope)" "is_achievable (link_kind r) scope cap"
      "capability_drift r = Some (requested_kind scope i c)" "link_kind r \<noteq> requested_kind scope i c"
  | (copied) "link_kind r = CopyFile" "opt" "capability_drift r = Some (requested_kind scope i c)"
      "\<not> is_achievable (requested_kind scope i c) scope cap"
  using assms
  by (auto simp: resolve_link_kind_def Let_def split: if_splits option.splits dest!: find_SomeD)

text \<open>
  The chosen kind is safe: it can be made on this volume pair, it is never a hard link across
  drives, a copy is chosen only when the setting asks for copies or the user opted in for this
  generation, and a kind other than the requested one is never chosen silently.
\<close>

theorem link_kind_is_safe:
  assumes "resolve_link_kind scope intra cross cap opt_in = Some r"
  shows "is_achievable (link_kind r) scope cap
    \<and> \<not> (scope = CrossDrive \<and> link_kind r = Hardlink)
    \<and> (link_kind r \<noteq> CopyFile \<or> opt_in \<or> requested_kind scope intra cross = CopyFile)
    \<and> capability_drift r = (if link_kind r = requested_kind scope intra cross then None
                             else Some (requested_kind scope intra cross))"
  using assms
proof (cases rule: link_kind_cases)
  case asked
  then show ?thesis by (auto simp: is_achievable_def split: drive_scope.splits)
next
  case fell_back
  then show ?thesis by (cases scope) (auto simp: is_achievable_def fallback_chain_def)
next
  case copied
  then show ?thesis by (auto simp: is_achievable_def)
qed

theorem link_kind_is_safe_witness:
  "is_achievable Symlink CrossDrive \<lparr>symlink_available = True, junction_available = False, hardlink_available = True\<rparr>"
  using link_kind_is_safe [of CrossDrive Hardlink Hardlink
      "\<lparr>symlink_available = True, junction_available = False, hardlink_available = True\<rparr>" False
      "\<lparr>link_kind = Symlink, capability_drift = None\<rparr>"]
  by (simp add: resolve_simps)

text \<open>
  A generation is refused exactly when nothing can be made: neither the requested kind nor any
  kind of the fallback chain is achievable and the user did not opt in to copies.
\<close>

theorem link_kind_refused_iff:
  "resolve_link_kind scope intra cross cap opt_in = None \<longleftrightarrow>
     \<not> opt_in \<and> \<not> is_achievable (requested_kind scope intra cross) scope cap
     \<and> list_all (\<lambda>k. \<not> is_achievable k scope cap) (fallback_chain scope)"
  unfolding resolve_link_kind_def Let_def
  by (auto simp: list_all_iff find_None_iff_all split: option.splits dest!: find_SomeD)

end
