(* ===== verification/Os.thy ===== *)
theory Os
  imports Prelude
begin

text \<open>
  The part of the operating system and of \<open>std::fs\<close> (Unix) the executor and the path layer call: a
  tree of files, directories and symbolic links, path walking with a bound on the links followed, and
  one function per call. A call may fail with any error at any time (\<open>faults\<close>), and a write may
  stop after some bytes (\<open>torn\<close>), so a statement about all states covers every failure the
  environment can produce.
\<close>

section \<open>Paths, errors, nodes\<close>

text \<open>
  A path the operating system is given is absolute and normal: the list of its components below the
  root. A relative link target is represented by the absolute path it denotes.
\<close>

type_synonym path = "string list"

definition show_path :: "path \<Rightarrow> string" where
  "show_path p = (if p = [] then ''/'' else concat (map (\<lambda>n. CHR ''/'' # n) p))"

definition path_parent :: "path \<Rightarrow> path option" where
  "path_parent p = (if p = [] then None else Some (butlast p))"

datatype error_kind =
    EK_NotFound | EK_PermissionDenied | EK_AlreadyExists | EK_WouldBlock | EK_StorageFull
  | EK_InvalidFilename | EK_InvalidInput | EK_InvalidData | EK_NotADirectory | EK_IsADirectory
  | EK_DirectoryNotEmpty | EK_CrossesDevices | EK_FilesystemLoop | EK_Other

record io_error =
  kind :: error_kind
  raw_os_error :: "int option"
  error_text :: string

definition os_error :: "error_kind \<Rightarrow> int \<Rightarrow> string \<Rightarrow> io_error" where
  "os_error k n txt = \<lparr>kind = k, raw_os_error = Some n, error_text = txt\<rparr>"

definition ENOENT :: io_error where "ENOENT = os_error EK_NotFound 2 ''No such file or directory''"
definition EEXIST :: io_error where "EEXIST = os_error EK_AlreadyExists 17 ''File exists''"
definition ENOTDIR :: io_error where "ENOTDIR = os_error EK_NotADirectory 20 ''Not a directory''"
definition EISDIR :: io_error where "EISDIR = os_error EK_IsADirectory 21 ''Is a directory''"
definition EXDEV :: io_error where "EXDEV = os_error EK_CrossesDevices 18 ''Invalid cross-device link''"
definition ENOTEMPTY :: io_error where "ENOTEMPTY = os_error EK_DirectoryNotEmpty 39 ''Directory not empty''"
definition EINVAL :: io_error where "EINVAL = os_error EK_InvalidInput 22 ''Invalid argument''"
definition EBUSY :: io_error where "EBUSY = os_error EK_Other 16 ''Device or resource busy''"
definition EPERM :: io_error where "EPERM = os_error EK_PermissionDenied 1 ''Operation not permitted''"
definition ELOOP :: io_error where "ELOOP = os_error EK_FilesystemLoop 40 ''Too many levels of symbolic links''"
definition NOT_A_FILE :: io_error where
  "NOT_A_FILE = \<lparr>kind = EK_InvalidInput, raw_os_error = None,
     error_text = ''the source path is neither a regular file nor a symlink to a regular file''\<rparr>"

lemmas errno_defs =
  ENOENT_def EEXIST_def ENOTDIR_def EISDIR_def EXDEV_def ENOTEMPTY_def EINVAL_def EBUSY_def EPERM_def
  ELOOP_def NOT_A_FILE_def os_error_def

record fs_file =
  content :: string
  mtime :: int

datatype node = File fs_file | Dir | Link path

type_synonym tree = "path \<Rightarrow> node option"

section \<open>Walking a path\<close>

text \<open>
  \<open>Found q\<close>: the walk ends at the existing entry \<open>q\<close>; \<open>Vacant q\<close>: only the last component is missing,
  and would be created at \<open>q\<close>. The flag says whether a link in last position is followed; the bound
  is the kernel's 40 links.
\<close>

datatype lookup = Found path | Vacant path | Broken io_error

fun walk :: "bool \<Rightarrow> nat \<Rightarrow> tree \<Rightarrow> path \<Rightarrow> path \<Rightarrow> lookup" where
  "walk follow links t cur [] = Found cur"
| "walk follow links t cur (n # ns) =
    (case t cur of
       Some Dir \<Rightarrow>
         (case t (cur @ [n]) of
            None \<Rightarrow> (if ns = [] then Vacant (cur @ [n]) else Broken ENOENT)
          | Some (Link target) \<Rightarrow>
              (if ns = [] \<and> \<not> follow then Found (cur @ [n])
               else if links = 0 then Broken ELOOP
               else walk follow (links - 1) t [] (target @ ns))
          | Some _ \<Rightarrow> walk follow links t (cur @ [n]) ns)
     | Some (File _) \<Rightarrow> Broken ENOTDIR
     | _ \<Rightarrow> Broken ENOENT)"

definition MAX_LINKS :: nat where "MAX_LINKS = 40"

definition locate :: "tree \<Rightarrow> path \<Rightarrow> lookup" where
  "locate t p = walk False MAX_LINKS t [] p"

definition follow :: "tree \<Rightarrow> path \<Rightarrow> lookup" where
  "follow t p = walk True MAX_LINKS t [] p"

definition entry_at :: "tree \<Rightarrow> lookup \<Rightarrow> io_error + path \<times> node" where
  "entry_at t l = (case l of
       Found q \<Rightarrow> (case t q of None \<Rightarrow> Inl ENOENT | Some nd \<Rightarrow> Inr (q, nd))
     | Vacant q \<Rightarrow> Inl ENOENT
     | Broken e \<Rightarrow> Inl e)"

section \<open>Effects on the tree\<close>

definition moved :: "path \<Rightarrow> path \<Rightarrow> tree \<Rightarrow> tree" where
  "moved a b t = (\<lambda>q. if take (length b) q = b then t (a @ drop (length b) q)
                       else if take (length a) q = a then None
                       else t q)"

definition dir_empty :: "tree \<Rightarrow> path \<Rightarrow> bool" where
  "dir_empty t p \<longleftrightarrow> (\<forall>n. t (p @ [n]) = None)"

text \<open>A tree is a function, so this test is not evaluated: only renaming a directory onto another asks it.\<close>

declare dir_empty_def [code abort: dir_empty]

definition below :: "path \<Rightarrow> path \<Rightarrow> bool" where
  "below a q \<longleftrightarrow> take (length a) q = a"

definition rename_entry :: "tree \<Rightarrow> path \<Rightarrow> node \<Rightarrow> path \<Rightarrow> io_error + tree" where
  "rename_entry t a nd b =
    (if a = b then Inr t
     else case nd of
       Dir \<Rightarrow> (if below a b then Inl EINVAL
               else case t b of
                 None \<Rightarrow> Inr (moved a b t)
               | Some Dir \<Rightarrow> (if below b a \<or> \<not> dir_empty t b then Inl ENOTEMPTY else Inr (moved a b t))
               | Some _ \<Rightarrow> Inl ENOTDIR)
     | _ \<Rightarrow> (case t b of Some Dir \<Rightarrow> Inl EISDIR | _ \<Rightarrow> Inr (moved a b t)))"

definition rename_tree :: "(path \<Rightarrow> nat) \<Rightarrow> tree \<Rightarrow> path \<Rightarrow> path \<Rightarrow> io_error + tree" where
  "rename_tree vol t src dst =
    (case entry_at t (locate t src) of
       Inl e \<Rightarrow> Inl e
     | Inr (a, nd) \<Rightarrow>
        (case locate t dst of
           Broken e \<Rightarrow> Inl e
         | Found b \<Rightarrow> (if a = [] \<or> b = [] then Inl EBUSY
                       else if vol (butlast a) \<noteq> vol (butlast b) then Inl EXDEV
                       else rename_entry t a nd b)
         | Vacant b \<Rightarrow> (if a = [] then Inl EBUSY
                       else if vol (butlast a) \<noteq> vol (butlast b) then Inl EXDEV
                       else rename_entry t a nd b)))"

definition unlink_tree :: "tree \<Rightarrow> path \<Rightarrow> io_error + tree" where
  "unlink_tree t p =
    (case entry_at t (locate t p) of
       Inl e \<Rightarrow> Inl e
     | Inr (q, Dir) \<Rightarrow> Inl EISDIR
     | Inr (q, _) \<Rightarrow> Inr (t(q := None)))"

definition create_entry :: "tree \<Rightarrow> path \<Rightarrow> node \<Rightarrow> io_error + tree" where
  "create_entry t p nd =
    (case locate t p of Found q \<Rightarrow> Inl EEXIST | Vacant q \<Rightarrow> Inr (t(q \<mapsto> nd)) | Broken e \<Rightarrow> Inl e)"

text \<open>Opening for writing with \<open>O_CREAT | O_TRUNC\<close>: a link in last position is followed.\<close>

definition open_truncate :: "tree \<Rightarrow> path \<Rightarrow> io_error + path" where
  "open_truncate t p =
    (case follow t p of
       Found q \<Rightarrow> (case t q of Some (File _) \<Rightarrow> Inr q | Some Dir \<Rightarrow> Inl EISDIR | _ \<Rightarrow> Inl ENOENT)
     | Vacant q \<Rightarrow> Inr q
     | Broken e \<Rightarrow> Inl e)"

section \<open>State and calls\<close>

datatype call_class = Probe | Read | Mutate

record os =
  tree :: tree
  volume :: "path \<Rightarrow> nat"
  clock :: int
  ticks :: nat
  faults :: "call_class \<Rightarrow> nat \<Rightarrow> io_error option"
  torn :: "nat \<Rightarrow> (nat \<times> io_error) option"

type_synonym 'a io = "os \<Rightarrow> (io_error + 'a) \<times> os"

definition tick :: "os \<Rightarrow> os" where
  "tick s = s\<lparr>ticks := Suc (ticks s)\<rparr>"

definition query :: "call_class \<Rightarrow> (os \<Rightarrow> io_error + 'a) \<Rightarrow> 'a io" where
  "query c f s = (case faults s c (ticks s) of Some e \<Rightarrow> (Inl e, tick s) | None \<Rightarrow> (f s, tick s))"

definition mutate :: "(os \<Rightarrow> io_error + tree) \<Rightarrow> unit io" where
  "mutate f s =
    (case faults s Mutate (ticks s) of
       Some e \<Rightarrow> (Inl e, tick s)
     | None \<Rightarrow> (case f s of Inl e \<Rightarrow> (Inl e, tick s) | Inr t \<Rightarrow> (Inr (), (tick s)\<lparr>tree := t\<rparr>)))"

text \<open>\<open>std::fs\<close> and \<open>std::path::Path\<close>.\<close>

definition fs_metadata :: "path \<Rightarrow> (path \<times> node) io" where
  "fs_metadata p = query Probe (\<lambda>s. entry_at (tree s) (follow (tree s) p))"

definition fs_symlink_metadata :: "path \<Rightarrow> (path \<times> node) io" where
  "fs_symlink_metadata p = query Probe (\<lambda>s. entry_at (tree s) (locate (tree s) p))"

definition path_exists :: "path \<Rightarrow> os \<Rightarrow> bool \<times> os" where
  "path_exists p s = (case fs_metadata p s of (Inr _, s) \<Rightarrow> (True, s) | (Inl _, s) \<Rightarrow> (False, s))"

definition path_is_dir :: "path \<Rightarrow> os \<Rightarrow> bool \<times> os" where
  "path_is_dir p s = (case fs_metadata p s of (Inr (_, Dir), s) \<Rightarrow> (True, s) | (_, s) \<Rightarrow> (False, s))"

definition path_is_file :: "path \<Rightarrow> os \<Rightarrow> bool \<times> os" where
  "path_is_file p s = (case fs_metadata p s of (Inr (_, File _), s) \<Rightarrow> (True, s) | (_, s) \<Rightarrow> (False, s))"

definition fs_rename :: "path \<Rightarrow> path \<Rightarrow> unit io" where
  "fs_rename src dst = mutate (\<lambda>s. rename_tree (volume s) (tree s) src dst)"

definition fs_remove_file :: "path \<Rightarrow> unit io" where
  "fs_remove_file p = mutate (\<lambda>s. unlink_tree (tree s) p)"

definition fs_mkdir :: "path \<Rightarrow> unit io" where
  "fs_mkdir p = mutate (\<lambda>s. create_entry (tree s) p Dir)"

definition fs_symlink :: "path \<Rightarrow> path \<Rightarrow> unit io" where
  "fs_symlink target p = mutate (\<lambda>s. create_entry (tree s) p (Link target))"

definition fs_hard_link :: "path \<Rightarrow> path \<Rightarrow> unit io" where
  "fs_hard_link src dst = mutate (\<lambda>s.
     case entry_at (tree s) (locate (tree s) src) of
       Inl e \<Rightarrow> Inl e
     | Inr (a, Dir) \<Rightarrow> Inl EPERM
     | Inr (a, nd) \<Rightarrow>
         (case locate (tree s) dst of
            Vacant b \<Rightarrow> (if volume s (butlast a) \<noteq> volume s (butlast b) then Inl EXDEV
                         else Inr ((tree s)(b \<mapsto> nd)))
          | Found b \<Rightarrow> Inl EEXIST
          | Broken e \<Rightarrow> Inl e))"

text \<open>Writing \<open>bytes\<close> to the opened file \<open>q\<close>: all of them, or some and an error.\<close>

definition write_opened :: "path \<Rightarrow> string \<Rightarrow> unit io" where
  "write_opened q bytes s =
    (case torn s (ticks s) of
       None \<Rightarrow> (Inr (), (tick s)\<lparr>tree := (tree s)(q \<mapsto> File \<lparr>content = bytes, mtime = clock s\<rparr>)\<rparr>)
     | Some (k, e) \<Rightarrow>
        (Inl e, (tick s)\<lparr>tree := (tree s)(q \<mapsto> File \<lparr>content = take k bytes, mtime = clock s\<rparr>)\<rparr>))"

definition fs_write :: "path \<Rightarrow> string \<Rightarrow> unit io" where
  "fs_write p bytes s =
    (case faults s Mutate (ticks s) of
       Some e \<Rightarrow> (Inl e, tick s)
     | None \<Rightarrow> (case open_truncate (tree s) p of
                 Inl e \<Rightarrow> (Inl e, tick s)
               | Inr q \<Rightarrow> write_opened q bytes s))"

definition fs_copy :: "path \<Rightarrow> path \<Rightarrow> unit io" where
  "fs_copy src dst s =
    (case faults s Mutate (ticks s) of
       Some e \<Rightarrow> (Inl e, tick s)
     | None \<Rightarrow>
        (case entry_at (tree s) (follow (tree s) src) of
           Inl e \<Rightarrow> (Inl e, tick s)
         | Inr (a, File f) \<Rightarrow>
            (case open_truncate (tree s) dst of
               Inl e \<Rightarrow> (Inl e, tick s)
             | Inr b \<Rightarrow> write_opened b (if a = b then [] else content f) s)
         | Inr (a, _) \<Rightarrow> (Inl NOT_A_FILE, tick s)))"

definition fs_read_to_string :: "path \<Rightarrow> string io" where
  "fs_read_to_string p = query Read (\<lambda>s.
     case entry_at (tree s) (follow (tree s) p) of
       Inl e \<Rightarrow> Inl e
     | Inr (q, File f) \<Rightarrow> Inr (content f)
     | Inr (q, _) \<Rightarrow> Inl EISDIR)"

text \<open>\<open>std::fs::create_dir_all\<close>.\<close>

function fs_create_dir_all :: "path \<Rightarrow> unit io" where
  "fs_create_dir_all p s =
    (case fs_mkdir p s of
       (Inr _, s) \<Rightarrow> (Inr (), s)
     | (Inl e, s) \<Rightarrow>
        (if kind e \<noteq> EK_NotFound then
           (case path_is_dir p s of (True, s) \<Rightarrow> (Inr (), s) | (False, s) \<Rightarrow> (Inl e, s))
         else if p = [] then (Inl ENOENT, s)
         else case fs_create_dir_all (butlast p) s of
             (Inl e, s) \<Rightarrow> (Inl e, s)
           | (Inr _, s) \<Rightarrow>
              (case fs_mkdir p s of
                 (Inr _, s) \<Rightarrow> (Inr (), s)
               | (Inl e, s) \<Rightarrow>
                  (case path_is_dir p s of (True, s) \<Rightarrow> (Inr (), s) | (False, s) \<Rightarrow> (Inl e, s)))))"
  by pat_completeness auto
termination by (relation "measure (\<lambda>(p, s). length p)") auto

declare fs_create_dir_all.simps [simp del]

end
