(* ===== verification/Failure.thy ===== *)
theory Failure
  imports Os
begin

text \<open>
  The failure taxonomy of plan items (\<open>crates/fs/executor/src/failure.rs\<close>): codes with their wire
  names, whether a retry can help, whether the run pauses, and how an \<open>io::Error\<close> is classified.
\<close>

datatype failure_code =
    PermissionDenied | ConflictDestinationExists | SourceMissing | SourceLocked | VolumeUnavailable
  | DiskFull | PathInvalid | RootEscape | SymlinkComponent | DestructiveUnconfirmed | ProtectedSource
  | TrashUnavailable | CopySucceededDeleteFailed | CopySucceededDeleteFailedRollbackFailed | ItemStale
  | OsTrashUnavailable | OsTrashFull | OsTrashPermissionDenied | MaterializationUnsupported | UnknownCode

primrec failure_code_as_str :: "failure_code \<Rightarrow> string" where
  "failure_code_as_str PermissionDenied = ''permission.denied''"
| "failure_code_as_str ConflictDestinationExists = ''conflict.destination_exists''"
| "failure_code_as_str SourceMissing = ''source.missing''"
| "failure_code_as_str SourceLocked = ''source.locked''"
| "failure_code_as_str VolumeUnavailable = ''volume.unavailable''"
| "failure_code_as_str DiskFull = ''disk.full''"
| "failure_code_as_str PathInvalid = ''path.invalid''"
| "failure_code_as_str RootEscape = ''root_escape''"
| "failure_code_as_str SymlinkComponent = ''symlink''"
| "failure_code_as_str DestructiveUnconfirmed = ''destructive_unconfirmed''"
| "failure_code_as_str ProtectedSource = ''protected.source''"
| "failure_code_as_str TrashUnavailable = ''trash.unavailable''"
| "failure_code_as_str CopySucceededDeleteFailed = ''copy.succeeded.delete.failed''"
| "failure_code_as_str CopySucceededDeleteFailedRollbackFailed =
     ''copy.succeeded.delete.failed.rollback.failed''"
| "failure_code_as_str ItemStale = ''item.stale''"
| "failure_code_as_str OsTrashUnavailable = ''os_trash.unavailable''"
| "failure_code_as_str OsTrashFull = ''os_trash.full''"
| "failure_code_as_str OsTrashPermissionDenied = ''os_trash.permission.denied''"
| "failure_code_as_str MaterializationUnsupported = ''materialization.unsupported''"
| "failure_code_as_str UnknownCode = ''unknown''"

definition is_recoverable :: "failure_code \<Rightarrow> bool" where
  "is_recoverable c = (case c of
       PermissionDenied \<Rightarrow> True
     | SourceLocked \<Rightarrow> True
     | VolumeUnavailable \<Rightarrow> True
     | DiskFull \<Rightarrow> True
     | ItemStale \<Rightarrow> True
     | OsTrashUnavailable \<Rightarrow> True
     | OsTrashFull \<Rightarrow> True
     | OsTrashPermissionDenied \<Rightarrow> True
     | CopySucceededDeleteFailed \<Rightarrow> True
     | _ \<Rightarrow> False)"

definition triggers_pause :: "failure_code \<Rightarrow> bool" where
  "triggers_pause c = (case c of VolumeUnavailable \<Rightarrow> True | DiskFull \<Rightarrow> True | ItemStale \<Rightarrow> True | _ \<Rightarrow> False)"

record plan_item_failure =
  code :: failure_code
  message :: string
  recoverable :: bool

definition classify_io_error :: "io_error \<Rightarrow> failure_code \<times> bool" where
  "classify_io_error err = (case kind err of
       EK_PermissionDenied \<Rightarrow> (PermissionDenied, True)
     | EK_AlreadyExists \<Rightarrow> (ConflictDestinationExists, False)
     | EK_NotFound \<Rightarrow> (SourceMissing, False)
     | EK_WouldBlock \<Rightarrow> (SourceLocked, True)
     | EK_StorageFull \<Rightarrow> (DiskFull, True)
     | EK_InvalidFilename \<Rightarrow> (PathInvalid, False)
     | _ \<Rightarrow> (case raw_os_error err of
           Some raw \<Rightarrow> (if raw = 6 \<or> raw = 19 then (VolumeUnavailable, True) else (UnknownCode, False))
         | None \<Rightarrow> (UnknownCode, False)))"

definition from_io :: "io_error \<Rightarrow> string \<Rightarrow> plan_item_failure" where
  "from_io err context =
    (let (c, r) = classify_io_error err
     in \<lparr>code = c, message = context @ '': '' @ error_text err, recoverable = r\<rparr>)"

definition with_code :: "failure_code \<Rightarrow> string \<Rightarrow> plan_item_failure" where
  "with_code c msg = \<lparr>code = c, message = msg, recoverable = is_recoverable c\<rparr>"

definition show_failure :: "plan_item_failure \<Rightarrow> string" where
  "show_failure f = failure_code_as_str (code f) @ '': '' @ message f"

datatype rollback_outcome = Succeeded | RollbackFailed | NotApplicable

primrec rollback_outcome_as_str :: "rollback_outcome \<Rightarrow> string" where
  "rollback_outcome_as_str Succeeded = ''succeeded''"
| "rollback_outcome_as_str RollbackFailed = ''failed''"
| "rollback_outcome_as_str NotApplicable = ''not_applicable''"

definition failure_code_variants :: "failure_code list" where
  "failure_code_variants =
    [PermissionDenied, ConflictDestinationExists, SourceMissing, SourceLocked, VolumeUnavailable,
     DiskFull, PathInvalid, RootEscape, SymlinkComponent, DestructiveUnconfirmed, ProtectedSource,
     TrashUnavailable, CopySucceededDeleteFailed, CopySucceededDeleteFailedRollbackFailed, ItemStale,
     OsTrashUnavailable, OsTrashFull, OsTrashPermissionDenied, MaterializationUnsupported, UnknownCode]"

text \<open>The codes have no parser in this module; their names are told apart all the same.\<close>

interpretation failure_code_wire:
  wire_enum failure_code_as_str "parse_by failure_code_as_str failure_code_variants" failure_code_variants
proof
  show "v \<in> set failure_code_variants" for v by (cases v) (simp_all add: failure_code_variants_def)
qed (simp_all add: failure_code_variants_def)

lemma with_code_simps [simp]:
  "code (with_code c m) = c" "message (with_code c m) = m" "recoverable (with_code c m) = is_recoverable c"
  by (simp_all add: with_code_def)

lemma from_io_simps [simp]:
  "code (from_io e c) = fst (classify_io_error e)" "recoverable (from_io e c) = snd (classify_io_error e)"
  by (simp_all add: from_io_def case_prod_beta)

text \<open>
  The two ways to build a failure agree: classifying an I/O error sets the retry flag exactly as
  the code's own taxonomy does, so the flag of a stored failure never contradicts its code.
\<close>

theorem io_failure_flag_agrees_with_code:
  "recoverable (from_io e context) = is_recoverable (code (from_io e context))
   \<and> recoverable (with_code c msg) = is_recoverable (code (with_code c msg))"
  by (simp add: classify_io_error_def is_recoverable_def split: error_kind.splits option.splits)

lemma triggers_pause_recoverable: "triggers_pause c \<Longrightarrow> is_recoverable c"
  by (cases c) (simp_all add: triggers_pause_def is_recoverable_def)

end
