(* ===== verification/OsLaws.thy ===== *)
theory OsLaws
  imports Os "HOL-Library.Sublist"
begin

text \<open>
  Laws of the file system model: well-formed trees, what a walk finds, what each call preserves, and
  the two relations between trees the executor's theorems are about: \<open>in_place\<close> (no file content
  changed where it was) and \<open>kept\<close> (every file content still has a place of its own).
\<close>

section \<open>Well-formed trees\<close>

definition wf_tree :: "tree \<Rightarrow> bool" where
  "wf_tree t \<longleftrightarrow> t [] = Some Dir \<and> (\<forall>p n. t (p @ [n]) \<noteq> None \<longrightarrow> t p = Some Dir)"

lemma wf_root [simp]: "wf_tree t \<Longrightarrow> t [] = Some Dir"
  by (simp add: wf_tree_def)

lemma wf_parent: "wf_tree t \<Longrightarrow> t (p @ [n]) \<noteq> None \<Longrightarrow> t p = Some Dir"
  by (auto simp: wf_tree_def)

lemma wf_parent_butlast: "wf_tree t \<Longrightarrow> t q \<noteq> None \<Longrightarrow> q \<noteq> [] \<Longrightarrow> t (butlast q) = Some Dir"
  using wf_parent [of t "butlast q" "last q"] by simp

lemma wf_ancestor: "wf_tree t \<Longrightarrow> t (p @ r) \<noteq> None \<Longrightarrow> r \<noteq> [] \<Longrightarrow> t p = Some Dir"
proof (induction r rule: rev_induct)
  case (snoc n r)
  then have "t (p @ r) = Some Dir" using wf_parent [of t "p @ r" n] by simp
  then show ?case using snoc by (cases r) auto
qed simp

lemma wf_leaf: "wf_tree t \<Longrightarrow> t p \<noteq> Some Dir \<Longrightarrow> r \<noteq> [] \<Longrightarrow> t (p @ r) = None"
  using wf_ancestor by blast

lemma below_refl [simp]: "below a a"
  by (simp add: below_def)

lemma below_append [simp]: "below a (a @ r)"
  by (simp add: below_def)

lemma below_iff: "below a q \<longleftrightarrow> (\<exists>r. q = a @ r)"
  unfolding below_def by (metis append_take_drop_id append_eq_conv_conj)

lemma below_trans: "below a b \<Longrightarrow> below b c \<Longrightarrow> below a c"
  by (auto simp: below_iff)

lemma below_snocD: "below a (p @ [n]) \<Longrightarrow> below a p \<or> a = p @ [n]"
  unfolding below_iff by (metis append_butlast_last_id append_assoc butlast_append butlast_snoc self_append_conv)

lemma below_snoc: "below a p \<Longrightarrow> below a (p @ [n])"
  by (auto simp: below_iff)

lemma moved_eq:
  "moved a b t q = (if below b q then t (a @ drop (length b) q) else if below a q then None else t q)"
  by (simp add: moved_def below_def)

section \<open>What a walk finds\<close>

lemma walk_Found_exists:
  "wf_tree t \<Longrightarrow> t cur \<noteq> None \<Longrightarrow> walk fl k t cur ns = Found q \<Longrightarrow> t q \<noteq> None"
  by (induction fl k t cur ns rule: walk.induct) (auto split: option.splits node.splits if_splits)

lemma walk_Vacant:
  "walk fl k t cur ns = Vacant q \<Longrightarrow> q \<noteq> [] \<and> t q = None \<and> t (butlast q) = Some Dir"
  by (induction fl k t cur ns rule: walk.induct) (auto split: option.splits node.splits if_splits)

lemma walk_follow_no_link:
  "wf_tree t \<Longrightarrow> \<forall>l. t cur \<noteq> Some (Link l) \<Longrightarrow> walk True k t cur ns = Found q \<Longrightarrow> t q \<noteq> Some (Link l)"
proof (induction True k t cur ns rule: walk.induct)
  case (2 links t cur n ns)
  then show ?case by (auto split: option.splits node.splits if_splits)
qed simp

lemma locate_Found: "wf_tree t \<Longrightarrow> locate t p = Found q \<Longrightarrow> t q \<noteq> None"
  unfolding locate_def by (rule walk_Found_exists) simp_all

lemma follow_Found: "wf_tree t \<Longrightarrow> follow t p = Found q \<Longrightarrow> \<exists>nd. t q = Some nd \<and> (\<forall>l. nd \<noteq> Link l)"
  unfolding follow_def
  using walk_Found_exists [of t "[]" True MAX_LINKS p q] walk_follow_no_link [of t "[]" MAX_LINKS p q]
  by (cases "t q") auto

lemma locate_Vacant: "locate t p = Vacant q \<Longrightarrow> q \<noteq> [] \<and> t q = None \<and> t (butlast q) = Some Dir"
  unfolding locate_def by (rule walk_Vacant)

lemma follow_Vacant: "follow t p = Vacant q \<Longrightarrow> q \<noteq> [] \<and> t q = None \<and> t (butlast q) = Some Dir"
  unfolding follow_def by (rule walk_Vacant)

lemma entry_at_Inr: "entry_at t l = Inr (q, nd) \<longleftrightarrow> l = Found q \<and> t q = Some nd"
  by (auto simp: entry_at_def split: lookup.splits option.splits)

text \<open>Where \<open>lstat\<close> finds a file or a directory, \<open>stat\<close> finds the same.\<close>

lemma walk_found_same:
  "walk False k t cur ns = Found q \<Longrightarrow> \<forall>l. t q \<noteq> Some (Link l) \<Longrightarrow> walk True k t cur ns = Found q"
proof (induction False k t cur ns rule: walk.induct)
  case (2 links t cur n ns)
  then show ?case by (auto split: option.splits node.splits if_splits)
qed simp

lemma follow_of_locate:
  "locate t p = Found q \<Longrightarrow> \<forall>l. t q \<noteq> Some (Link l) \<Longrightarrow> follow t p = Found q"
  unfolding locate_def follow_def by (rule walk_found_same)

lemma walk_follow_located:
  "walk True k t cur ns = Found q \<Longrightarrow> \<exists>b. walk False k t cur ns = Found b"
proof (induction True k t cur ns rule: walk.induct)
  case (2 links t cur n ns)
  then show ?case by (cases "ns = []") (auto split: option.splits node.splits if_splits)
qed simp

lemma follow_found_located: "follow t p = Found q \<Longrightarrow> \<exists>b. locate t p = Found b"
  unfolding locate_def follow_def by (rule walk_follow_located)

text \<open>Adding directories in vacant places makes no file reachable that was not.\<close>

definition dirs_added :: "tree \<Rightarrow> tree \<Rightarrow> bool" where
  "dirs_added t t' \<longleftrightarrow> (\<forall>p. t' p = t p \<or> t p = None \<and> t' p = Some Dir)"

lemma dirs_added_refl [simp, intro]: "dirs_added t t"
  by (simp add: dirs_added_def)

lemma dirs_added_trans: "dirs_added t u \<Longrightarrow> dirs_added u v \<Longrightarrow> dirs_added t v"
  unfolding dirs_added_def by metis

lemma dirs_added_keeps: "dirs_added t t' \<Longrightarrow> t p = Some x \<Longrightarrow> t' p = Some x"
  unfolding dirs_added_def by (metis option.distinct(1))

lemma dirs_added_new: "dirs_added t t' \<Longrightarrow> t' p = Some x \<Longrightarrow> x \<noteq> Dir \<Longrightarrow> t p = Some x"
  unfolding dirs_added_def by (metis option.inject)

lemma walk_in_new_dir:
  assumes "dirs_added t t'" and "wf_tree t"
  shows "t cur = None \<Longrightarrow> t' cur = Some Dir \<Longrightarrow> walk fl k t' cur ns = Found q \<Longrightarrow> t' q = Some Dir"
proof (induction ns arbitrary: cur)
  case (Cons n ns)
  have none: "t (cur @ [n]) = None" using Cons.prems(1) wf_parent [OF assms(2)] by (metis option.distinct(1))
  then consider "t' (cur @ [n]) = None" | "t' (cur @ [n]) = Some Dir"
    using assms(1) unfolding dirs_added_def by metis
  then show ?case
    by cases (use Cons none in \<open>auto split: if_splits\<close>)
qed simp

lemma walk_Cons_Found:
  "walk fl k t cur (n # ns) = Found q \<Longrightarrow> t cur = Some Dir \<and> t (cur @ [n]) \<noteq> None"
  by (auto split: option.splits node.splits if_splits)

lemma walk_dirs_added:
  "dirs_added t t' \<Longrightarrow> wf_tree t \<Longrightarrow> t cur \<noteq> None \<Longrightarrow> walk fl k t' cur ns = Found q
   \<Longrightarrow> t' q \<noteq> Some Dir \<Longrightarrow> walk fl k t cur ns = Found q"
proof (induction fl k t' cur ns rule: walk.induct)
  case (2 fl links t' cur n ns)
  note prems = "2.prems"
  let ?next = "cur @ [n]"
  have cur: "t' cur = t cur" "t cur = Some Dir" "t' ?next \<noteq> None"
    using walk_Cons_Found [OF prems(4)] prems(1,3) unfolding dirs_added_def by metis+
  consider (link) l where "t' ?next = Some (Link l)" | (other) "t' ?next = Some Dir" "t ?next = None"
    | (same) nd where "t' ?next = Some nd" "\<forall>l. nd \<noteq> Link l" "t ?next \<noteq> None"
    using cur(3) prems(1) unfolding dirs_added_def by (cases "t' ?next"; metis option.distinct(1) node.exhaust)
  then show ?case
  proof cases
    case link
    then have "t ?next = Some (Link l)" using dirs_added_new [OF prems(1)] by blast
    then show ?thesis using 2 cur link by (auto split: if_splits)
  next
    case other
    then have "t' q = Some Dir"
      using walk_in_new_dir [OF prems(1,2), of ?next fl links ns q] prems(4) cur by simp
    then show ?thesis using prems(5) by simp
  next
    case same
    then have "t ?next = Some nd" using prems(1) unfolding dirs_added_def by metis
    then show ?thesis using 2 cur same by (cases nd) auto
  qed
qed simp

lemma walk_dirs_added_Found:
  "dirs_added t t' \<Longrightarrow> walk fl k t cur ns = Found q \<Longrightarrow> walk fl k t' cur ns = Found q"
proof (induction fl k t cur ns rule: walk.induct)
  case (2 fl links t cur n ns)
  have "t' cur = t cur" "t' (cur @ [n]) = t (cur @ [n])"
    using walk_Cons_Found [OF "2.prems"(2)] "2.prems"(1) unfolding dirs_added_def by metis+
  then show ?case using 2 by (auto split: option.splits node.splits if_splits)
qed simp

lemma locate_dirs_added_Found: "dirs_added t t' \<Longrightarrow> locate t p = Found q \<Longrightarrow> locate t' p = Found q"
  unfolding locate_def by (rule walk_dirs_added_Found)

section \<open>Well-formedness is preserved\<close>

lemma wf_update_leaf:
  assumes "wf_tree t" and "q \<noteq> []" and "t (butlast q) = Some Dir" and "t q \<noteq> Some Dir"
  shows "wf_tree (t(q := x))"
proof -
  have kids: "t (q @ [n]) = None" for n using wf_leaf [OF assms(1,4), of "[n]"] by simp
  have "(t(q := x)) p = Some Dir" if "(t(q := x)) (p @ [n]) \<noteq> None" for p n
  proof (cases "p @ [n] = q")
    case True
    then show ?thesis using assms(3) by auto
  next
    case False
    then have "t (p @ [n]) \<noteq> None" using that by simp
    moreover have "p \<noteq> q" using calculation kids by metis
    ultimately show ?thesis using wf_parent [OF assms(1)] by simp
  qed
  then show ?thesis using assms(1,2) unfolding wf_tree_def by simp
qed

lemma wf_remove_leaf: "wf_tree t \<Longrightarrow> t q \<noteq> Some Dir \<Longrightarrow> wf_tree (t(q := None))"
proof (cases "t q = None")
  case False
  moreover assume "wf_tree t" "t q \<noteq> Some Dir"
  ultimately show ?thesis by (metis wf_update_leaf wf_parent_butlast wf_root)
qed (simp add: fun_upd_idem)

lemma wf_remove_below:
  assumes "wf_tree t" and "a \<noteq> []"
  shows "wf_tree (\<lambda>q. if below a q then None else t q)"
  using assms unfolding wf_tree_def by (auto simp: below_def dest: below_snoc [unfolded below_def])

lemma wf_moved:
  assumes t: "wf_tree t" and a: "t a = Some nd" "a \<noteq> []" and b: "b \<noteq> []" "t (butlast b) = Some Dir"
    and free: "\<And>r. r \<noteq> [] \<Longrightarrow> t (b @ r) = None" and apart: "\<not> below a b \<or> nd \<noteq> Dir"
  shows "wf_tree (moved a b t)"
proof -
  have nb: "\<not> below a (butlast b)"
  proof
    assume "below a (butlast b)"
    then obtain r where r: "butlast b = a @ r" by (auto simp: below_iff)
    then have "t a = Some Dir" using b wf_ancestor [OF t, of a r] by (cases "r = []") auto
    moreover have "below a b" using r b by (metis append_butlast_last_id append_assoc below_append)
    ultimately show False using apart a by simp
  qed
  have bb: "\<not> below b (butlast b)"
    using b(1) unfolding below_iff by (metis append_butlast_last_id append_eq_append_conv2 append_self_conv
      append_assoc not_Cons_self2 same_append_eq append_is_Nil_conv)
  show ?thesis
    unfolding wf_tree_def
  proof (intro conjI allI impI)
    show "moved a b t [] = Some Dir" using a b t by (simp add: moved_eq below_def)
  next
    fix p n
    assume ne: "moved a b t (p @ [n]) \<noteq> None"
    show "moved a b t p = Some Dir"
    proof (cases "below b (p @ [n])")
      case True
      show ?thesis
      proof (cases "b = p @ [n]")
        case True
        then show ?thesis using nb bb b by (simp add: moved_eq)
      next
        case False
        then obtain r where r: "p = b @ r" using True below_snocD by (metis below_iff)
        then have "t (a @ r @ [n]) \<noteq> None" using ne by (simp add: moved_eq)
        then have "t (a @ r) = Some Dir" using wf_parent [OF t, of "a @ r" n] by simp
        then show ?thesis using r by (simp add: moved_eq)
      qed
    next
      case False
      then have nbp: "\<not> below b p" using below_snoc by blast
      have "\<not> below a (p @ [n])" "t (p @ [n]) \<noteq> None" using ne False by (auto simp: moved_eq split: if_splits)
      moreover have "\<not> below a p" using calculation below_snoc by blast
      ultimately show ?thesis using nbp wf_parent [OF t] by (simp add: moved_eq)
    qed
  qed
qed

section \<open>File contents\<close>

definition content_at :: "tree \<Rightarrow> path \<Rightarrow> string option" where
  "content_at t p = (case t p of Some (File f) \<Rightarrow> Some (content f) | _ \<Rightarrow> None)"

text \<open>No file changed its content where it was.\<close>

definition in_place :: "tree \<Rightarrow> tree \<Rightarrow> bool" where
  "in_place t t' \<longleftrightarrow> content_at t \<subseteq>\<^sub>m content_at t'"

text \<open>Every file of \<open>t\<close> has a place of its own in \<open>t'\<close> with its content: nothing is lost, nor merged.\<close>

definition kept :: "tree \<Rightarrow> tree \<Rightarrow> bool" where
  "kept t t' \<longleftrightarrow> (\<exists>place. inj_on place (dom (content_at t))
     \<and> (\<forall>p \<in> dom (content_at t). content_at t' (place p) = content_at t p))"

text \<open>What the relations between trees have in common: calls compose.\<close>

locale tree_preorder =
  fixes R :: "tree \<Rightarrow> tree \<Rightarrow> bool"
  assumes R_refl [simp]: "R t t"
    and R_trans: "R t u \<Longrightarrow> R u v \<Longrightarrow> R t v"
begin

lemma R_chain: "successively R ts \<Longrightarrow> ts \<noteq> [] \<Longrightarrow> R (hd ts) (last ts)"
proof (induction ts rule: induct_list012)
  case (3 t u ts)
  then show ?case by (auto intro: R_trans)
qed simp_all

lemma R_foldl:
  assumes "\<And>s x. R (tr s) (tr (step s x))"
  shows "R (tr s) (tr (foldl step s xs))"
  by (induction xs arbitrary: s) (auto intro: R_trans assms)

end

lemma in_place_refl [simp]: "in_place t t"
  by (simp add: in_place_def)

lemma in_place_trans: "in_place t u \<Longrightarrow> in_place u v \<Longrightarrow> in_place t v"
  unfolding in_place_def by (rule map_le_trans)

lemma kept_place: "in_place t t' \<Longrightarrow> kept t t'"
  unfolding in_place_def kept_def map_le_def by (intro exI [of _ id]) auto

lemma kept_refl [simp]: "kept t t"
  by (simp add: kept_place)

lemma kept_trans:
  assumes "kept t u" and "kept u v"
  shows "kept t v"
proof -
  obtain f where f: "inj_on f (dom (content_at t))" "\<forall>p \<in> dom (content_at t). content_at u (f p) = content_at t p"
    using assms(1) by (auto simp: kept_def)
  obtain g where g: "inj_on g (dom (content_at u))" "\<forall>p \<in> dom (content_at u). content_at v (g p) = content_at u p"
    using assms(2) by (auto simp: kept_def)
  have "f ` dom (content_at t) \<subseteq> dom (content_at u)"
  proof (rule image_subsetI)
    fix p
    assume "p \<in> dom (content_at t)"
    then show "f p \<in> dom (content_at u)" using f(2) by (metis domIff)
  qed
  then have "inj_on (g \<circ> f) (dom (content_at t))"
    by (intro comp_inj_on [OF f(1)] inj_on_subset [OF g(1)])
  moreover have "\<forall>p \<in> dom (content_at t). content_at v ((g \<circ> f) p) = content_at t p"
  proof
    fix p
    assume p: "p \<in> dom (content_at t)"
    then have "content_at u (f p) = content_at t p" using f(2) by blast
    moreover have "f p \<in> dom (content_at u)" using calculation p by (simp add: domIff)
    ultimately show "content_at v ((g \<circ> f) p) = content_at t p" using g(2) by simp
  qed
  ultimately show ?thesis unfolding kept_def by (intro exI conjI)
qed

interpretation in_place: tree_preorder in_place
  by unfold_locales (auto intro: in_place_trans)

interpretation kept: tree_preorder kept
  by unfold_locales (auto intro: kept_trans)

lemma dirs_added_in_place: "dirs_added t t' \<Longrightarrow> in_place t t'"
  unfolding in_place_def map_le_def content_at_def
  by (auto simp: dirs_added_keeps split: option.splits node.splits dest: dirs_added_keeps)

lemma content_at_upd:
  "content_at (t(q := x)) = (content_at t)(q := (case x of Some (File f) \<Rightarrow> Some (content f) | _ \<Rightarrow> None))"
  by (auto simp: content_at_def fun_eq_iff)

lemma in_place_update: "content_at t q = None \<Longrightarrow> in_place t (t(q := x))"
  by (auto simp: in_place_def map_le_def content_at_upd)

lemma in_place_touch: "t q = Some (File f) \<Longrightarrow> in_place t (t(q \<mapsto> File (f\<lparr>mtime := m\<rparr>)))"
  by (auto simp: in_place_def map_le_def content_at_upd content_at_def)

text \<open>A file removed after its content was put in a place that held none.\<close>

lemma kept_copied:
  assumes place: "in_place t u" and copy: "content_at u b = content_at t a" and fresh: "content_at t b = None"
  shows "kept t (u(a := None))"
proof (cases "content_at t a = None")
  case True
  then have "in_place t (u(a := None))"
    using place by (auto simp: in_place_def map_le_def content_at_upd)
  then show ?thesis by (rule kept_place)
next
  case False
  then have "a \<noteq> b" using fresh by auto
  have "inj_on (id(a := b)) (dom (content_at t))"
    using fresh by (auto simp: inj_on_def)
  moreover have "content_at (u(a := None)) ((id(a := b)) p) = content_at t p" if "p \<in> dom (content_at t)" for p
    using that place copy \<open>a \<noteq> b\<close> fresh by (auto simp: in_place_def map_le_def content_at_upd)
  ultimately show ?thesis unfolding kept_def by blast
qed

lemma kept_moved:
  assumes "\<And>r. content_at t (b @ r) = None" and "\<not> below a b \<or> (\<forall>r. r \<noteq> [] \<longrightarrow> t (a @ r) = None)"
  shows "kept t (moved a b t)"
proof -
  let ?f = "\<lambda>p. if below a p then b @ drop (length a) p else p"
  have away: "p \<in> dom (content_at t) \<Longrightarrow> \<not> below b p" for p
    using assms(1) by (auto simp: below_iff)
  have "inj_on ?f (dom (content_at t))"
    using away by (auto simp: inj_on_def below_iff)
  moreover have "content_at (moved a b t) (?f p) = content_at t p" if "p \<in> dom (content_at t)" for p
    using that away [OF that] by (auto simp: content_at_def moved_eq below_iff)
  ultimately show ?thesis unfolding kept_def by blast
qed

section \<open>What each tree effect does\<close>

lemma create_entry_Inr:
  "create_entry t p nd = Inr t' \<longleftrightarrow> (\<exists>q. locate t p = Vacant q \<and> t' = t(q \<mapsto> nd))"
  by (auto simp: create_entry_def split: lookup.splits)

lemma unlink_tree_Inr:
  "unlink_tree t p = Inr t' \<longleftrightarrow> (\<exists>q nd. locate t p = Found q \<and> t q = Some nd \<and> nd \<noteq> Dir \<and> t' = t(q := None))"
  by (auto simp: unlink_tree_def entry_at_def split: lookup.splits option.splits node.splits)

lemma open_truncate_Inr:
  "open_truncate t p = Inr q \<longleftrightarrow> follow t p = Vacant q \<or> follow t p = Found q \<and> (\<exists>f. t q = Some (File f))"
  by (auto simp: open_truncate_def split: lookup.splits option.splits node.splits)

text \<open>A rename that succeeds either finds both names at one entry or moves the entry to a place that is free or
  holds something of its own sort that may be replaced.\<close>

definition rename_moves :: "tree \<Rightarrow> path \<Rightarrow> node \<Rightarrow> path \<Rightarrow> bool" where
  "rename_moves t a nd b \<longleftrightarrow> t a = Some nd \<and> a \<noteq> b \<and> a \<noteq> [] \<and> b \<noteq> [] \<and> t (butlast b) = Some Dir
     \<and> (nd = Dir \<longrightarrow> \<not> below a b \<and> (t b = None \<or> t b = Some Dir))
     \<and> (nd \<noteq> Dir \<longrightarrow> t b \<noteq> Some Dir) \<and> (\<forall>r. r \<noteq> [] \<longrightarrow> t (b @ r) = None)"

lemma dir_empty_below:
  assumes "wf_tree t" and "dir_empty t b" and "r \<noteq> []"
  shows "t (b @ r) = None"
proof (rule ccontr)
  assume ne: "t (b @ r) \<noteq> None"
  obtain n r' where r: "r = n # r'" using assms(3) by (cases r) auto
  have "t (b @ [n]) \<noteq> None"
    using ne r wf_ancestor [OF assms(1), of "b @ [n]" r'] by (cases "r' = []") auto
  then show False using assms(2) by (simp add: dir_empty_def)
qed

lemma rename_entry_Inr:
  assumes t: "wf_tree t" and a: "t a = Some nd" "a \<noteq> []" and b: "b \<noteq> []" "t (butlast b) = Some Dir"
    and r: "rename_entry t a nd b = Inr t'"
  shows "t' = t \<and> a = b \<or> t' = moved a b t \<and> rename_moves t a nd b"
proof (cases "a = b")
  case True
  then show ?thesis using r by (simp add: rename_entry_def)
next
  case False
  have free: "\<forall>r. r \<noteq> [] \<longrightarrow> t (b @ r) = None" if "t b \<noteq> Some Dir"
    using wf_leaf [OF t that] by blast
  show ?thesis
  proof (cases "nd = Dir")
    case True
    then have na: "\<not> below a b" using r False by (auto simp: rename_entry_def)
    consider "t b = None" | "t b = Some Dir" "dir_empty t b"
      using r False True na by (auto simp: rename_entry_def split: option.splits node.splits if_splits)
    then show ?thesis
    proof cases
      case 1
      then show ?thesis using r False True na a b free by (simp add: rename_entry_def rename_moves_def)
    next
      case 2
      then show ?thesis using r False True na a b dir_empty_below [OF t 2(2)]
        by (auto simp: rename_entry_def rename_moves_def split: if_splits)
    qed
  next
    case nd: False
    then have "t b \<noteq> Some Dir" using r False
      by (cases nd) (auto simp: rename_entry_def)
    then show ?thesis using r False nd a b free
      by (cases nd) (auto simp: rename_entry_def rename_moves_def split: option.splits node.splits)
  qed
qed

lemma rename_tree_Inr:
  assumes t: "wf_tree t" and r: "rename_tree vol t src dst = Inr t'"
  obtains a nd b where "locate t src = Found a" "t a = Some nd"
    "locate t dst = Found b \<or> locate t dst = Vacant b" "b \<noteq> []"
    "vol (butlast a) = vol (butlast b)"
    "t' = t \<and> a = b \<or> t' = moved a b t \<and> rename_moves t a nd b"
proof -
  obtain a nd where a: "locate t src = Found a" "t a = Some nd"
    using r by (auto simp: rename_tree_def entry_at_Inr split: sum.splits prod.splits)
  then have at: "entry_at t (locate t src) = Inr (a, nd)" by (simp add: entry_at_Inr)
  obtain b where b: "locate t dst = Found b \<or> locate t dst = Vacant b"
    using r at by (cases "locate t dst") (auto simp: rename_tree_def)
  have facts: "a \<noteq> []" "b \<noteq> []" "vol (butlast a) = vol (butlast b)" "rename_entry t a nd b = Inr t'"
    using r at b locate_Vacant [of t dst b] by (auto simp: rename_tree_def split: if_splits)
  have "t (butlast b) = Some Dir"
    using b locate_Found [OF t, of dst b] wf_parent_butlast [OF t _ facts(2)] locate_Vacant [of t dst b] by auto
  then show ?thesis
    using that a b facts rename_entry_Inr [OF t a(2) facts(1,2) _ facts(4)] by blast
qed

lemma wf_rename_moves: "wf_tree t \<Longrightarrow> rename_moves t a nd b \<Longrightarrow> wf_tree (moved a b t)"
  by (rule wf_moved) (auto simp: rename_moves_def)

lemma wf_rename_tree:
  assumes "wf_tree t" and "rename_tree vol t src dst = Inr t'"
  shows "wf_tree t'"
  using assms by (rule rename_tree_Inr) (use assms(1) wf_rename_moves in auto)

lemma wf_create_entry: "wf_tree t \<Longrightarrow> create_entry t p nd = Inr t' \<Longrightarrow> wf_tree t'"
  by (auto simp: create_entry_Inr dest: locate_Vacant intro!: wf_update_leaf)

lemma wf_unlink_tree: "wf_tree t \<Longrightarrow> unlink_tree t p = Inr t' \<Longrightarrow> wf_tree t'"
  by (auto simp: unlink_tree_Inr intro!: wf_remove_leaf)

lemma create_entry_in_place: "create_entry t p nd = Inr t' \<Longrightarrow> in_place t t'"
  by (auto simp: create_entry_Inr content_at_def dest: locate_Vacant intro!: in_place_update)

lemma kept_rename_moves:
  assumes t: "wf_tree t" and "rename_moves t a nd b" and free: "content_at t b = None"
  shows "kept t (moved a b t)"
proof (rule kept_moved)
  show "content_at t (b @ r) = None" for r
    using assms(2) free by (cases "r = []") (auto simp: rename_moves_def content_at_def)
  show "\<not> below a b \<or> (\<forall>r. r \<noteq> [] \<longrightarrow> t (a @ r) = None)"
    using assms(2) wf_leaf [OF t] by (cases "nd = Dir") (auto simp: rename_moves_def)
qed

section \<open>What each call does\<close>

definition same_env :: "os \<Rightarrow> os \<Rightarrow> bool" where
  "same_env s s' \<longleftrightarrow> volume s' = volume s \<and> clock s' = clock s \<and> faults s' = faults s \<and> torn s' = torn s"

lemma same_env_refl [simp]: "same_env s s"
  by (simp add: same_env_def)

lemma same_env_trans: "same_env s u \<Longrightarrow> same_env u v \<Longrightarrow> same_env s v"
  by (simp add: same_env_def)

text \<open>Probes (\<open>stat\<close> and \<open>lstat\<close>) answer truthfully; every other call may still fail.\<close>

definition probes_reliable :: "os \<Rightarrow> bool" where
  "probes_reliable s \<longleftrightarrow> (\<forall>n. faults s Probe n = None)"

text \<open>The next call answers truthfully, if it is a probe.\<close>

definition next_probe_answers :: "os \<Rightarrow> bool" where
  "next_probe_answers s \<longleftrightarrow> faults s Probe (ticks s) = None"

lemma probes_reliable_next: "probes_reliable s \<Longrightarrow> next_probe_answers s"
  by (simp add: probes_reliable_def next_probe_answers_def)

lemma probes_reliable_env: "same_env s s' \<Longrightarrow> probes_reliable s' = probes_reliable s"
  by (simp add: same_env_def probes_reliable_def)

lemma tick_simps [simp]:
  "tree (tick s) = tree s" "volume (tick s) = volume s" "clock (tick s) = clock s" "faults (tick s) = faults s"
  "torn (tick s) = torn s" "ticks (tick s) = Suc (ticks s)" "same_env s (tick s)"
  by (simp_all add: tick_def same_env_def)

lemma same_env_tree [simp]: "same_env s (s\<lparr>tree := t\<rparr>)" "same_env s ((tick s)\<lparr>tree := t\<rparr>)"
  by (simp_all add: same_env_def)

lemma query_state: "query c f s = (r, s') \<Longrightarrow> s' = tick s"
  by (auto simp: query_def split: option.splits)

lemma mutate_cases:
  assumes "mutate f s = (r, s')"
  obtains (fail) e where "r = Inl e" "s' = tick s"
  | (applied) t where "r = Inr ()" "f s = Inr t" "s' = (tick s)\<lparr>tree := t\<rparr>"
  using assms by (auto simp: mutate_def split: option.splits sum.splits)

lemma fs_metadata_state: "fs_metadata p s = (r, s') \<Longrightarrow> s' = tick s"
  unfolding fs_metadata_def by (rule query_state)

lemma fs_metadata_reliable:
  "probes_reliable s \<Longrightarrow> fs_metadata p s = (entry_at (tree s) (follow (tree s) p), tick s)"
  by (simp add: fs_metadata_def query_def probes_reliable_def)

lemma fs_symlink_metadata_reliable:
  "probes_reliable s \<Longrightarrow> fs_symlink_metadata p s = (entry_at (tree s) (locate (tree s) p), tick s)"
  by (simp add: fs_symlink_metadata_def query_def probes_reliable_def)

lemma fs_symlink_metadata_state: "fs_symlink_metadata p s = (r, s') \<Longrightarrow> s' = tick s"
  unfolding fs_symlink_metadata_def by (rule query_state)

lemma fs_read_state: "fs_read_to_string p s = (r, s') \<Longrightarrow> s' = tick s"
  unfolding fs_read_to_string_def by (rule query_state)

lemma path_exists_state: "path_exists p s = (b, s') \<Longrightarrow> s' = tick s"
  by (auto simp: path_exists_def dest!: fs_metadata_state split: prod.splits sum.splits)

lemma path_is_dir_state: "path_is_dir p s = (b, s') \<Longrightarrow> s' = tick s"
  by (auto simp: path_is_dir_def dest!: fs_metadata_state split: prod.splits sum.splits node.splits)

lemma path_is_file_state: "path_is_file p s = (b, s') \<Longrightarrow> s' = tick s"
  by (auto simp: path_is_file_def dest!: fs_metadata_state split: prod.splits sum.splits node.splits)

lemma path_exists_reliable:
  "probes_reliable s \<Longrightarrow> path_exists p s = (b, s')
   \<Longrightarrow> b \<longleftrightarrow> (\<exists>q nd. entry_at (tree s) (follow (tree s) p) = Inr (q, nd))"
  by (auto simp: path_exists_def fs_metadata_reliable split: prod.splits sum.splits)

lemma path_exists_answers:
  "next_probe_answers s \<Longrightarrow> path_exists p s = (b, s')
   \<Longrightarrow> b \<longleftrightarrow> (\<exists>q nd. entry_at (tree s) (follow (tree s) p) = Inr (q, nd))"
  by (auto simp: path_exists_def fs_metadata_def query_def next_probe_answers_def split: prod.splits sum.splits)

lemmas probe_states =
  fs_metadata_state fs_symlink_metadata_state fs_read_state path_exists_state path_is_dir_state
  path_is_file_state

text \<open>Every call keeps the tree well-formed and the environment fixed.\<close>

definition sound_step :: "os \<Rightarrow> os \<Rightarrow> bool" where
  "sound_step s s' \<longleftrightarrow> same_env s s' \<and> (wf_tree (tree s) \<longrightarrow> wf_tree (tree s'))"

lemma sound_step_refl [simp]: "sound_step s s"
  by (simp add: sound_step_def)

lemma sound_step_tick [simp]: "sound_step s (tick s)"
  by (simp add: sound_step_def)

lemma sound_step_trans [trans]: "sound_step s u \<Longrightarrow> sound_step u v \<Longrightarrow> sound_step s v"
  by (auto simp: sound_step_def intro: same_env_trans)

lemma sound_step_env: "sound_step s s' \<Longrightarrow> same_env s s'"
  by (simp add: sound_step_def)

lemma sound_step_wf: "sound_step s s' \<Longrightarrow> wf_tree (tree s) \<Longrightarrow> wf_tree (tree s')"
  by (simp add: sound_step_def)

lemma sound_mutate:
  assumes "mutate f s = (r, s')" and "\<And>t. wf_tree (tree s) \<Longrightarrow> f s = Inr t \<Longrightarrow> wf_tree t"
  shows "sound_step s s'"
  using assms(1) by (rule mutate_cases) (use assms(2) in \<open>auto simp: sound_step_def\<close>)

lemma fs_mkdir_sound: "fs_mkdir p s = (r, s') \<Longrightarrow> sound_step s s'"
  unfolding fs_mkdir_def by (erule sound_mutate) (rule wf_create_entry)

lemma fs_symlink_sound: "fs_symlink l p s = (r, s') \<Longrightarrow> sound_step s s'"
  unfolding fs_symlink_def by (erule sound_mutate) (rule wf_create_entry)

lemma fs_rename_sound: "fs_rename a b s = (r, s') \<Longrightarrow> sound_step s s'"
  unfolding fs_rename_def by (erule sound_mutate) (rule wf_rename_tree)

lemma fs_remove_file_sound: "fs_remove_file p s = (r, s') \<Longrightarrow> sound_step s s'"
  unfolding fs_remove_file_def by (erule sound_mutate) (rule wf_unlink_tree)

lemma hard_link_cases:
  assumes "fs_hard_link src dst s = (r, s')"
  obtains (fail) e where "r = Inl e" "s' = tick s"
  | (linked) a nd b where "r = Inr ()" "locate (tree s) src = Found a" "tree s a = Some nd" "nd \<noteq> Dir"
      "locate (tree s) dst = Vacant b" "s' = (tick s)\<lparr>tree := (tree s)(b \<mapsto> nd)\<rparr>"
  using assms unfolding fs_hard_link_def
proof (rule mutate_cases)
  fix t
  assume r: "r = Inr ()" "s' = (tick s)\<lparr>tree := t\<rparr>"
    and t: "(case entry_at (tree s) (locate (tree s) src) of Inl e \<Rightarrow> Inl e | Inr (a, Dir) \<Rightarrow> Inl EPERM
       | Inr (a, nd) \<Rightarrow> (case locate (tree s) dst of
            Vacant b \<Rightarrow> (if volume s (butlast a) \<noteq> volume s (butlast b) then Inl EXDEV
                         else Inr ((tree s)(b \<mapsto> nd)))
          | Found b \<Rightarrow> Inl EEXIST | Broken e \<Rightarrow> Inl e)) = Inr t"
  obtain a nd where a: "entry_at (tree s) (locate (tree s) src) = Inr (a, nd)"
    using t by (cases "entry_at (tree s) (locate (tree s) src)") auto
  then have "nd \<noteq> Dir" using t by auto
  moreover obtain b where b: "locate (tree s) dst = Vacant b" "t = (tree s)(b \<mapsto> nd)"
    using t a \<open>nd \<noteq> Dir\<close> by (cases nd) (auto split: lookup.splits if_splits)
  ultimately show ?thesis using linked r a by (simp add: entry_at_Inr)
qed (use fail in simp)

lemma fs_hard_link_sound: "fs_hard_link a b s = (r, s') \<Longrightarrow> sound_step s s'"
  by (erule hard_link_cases) (auto simp: sound_step_def dest: locate_Vacant intro!: wf_update_leaf)

lemma write_opened_cases:
  assumes "write_opened q bytes s = (r, s')"
  obtains f where "s' = (tick s)\<lparr>tree := (tree s)(q \<mapsto> File f)\<rparr>" "mtime f = clock s"
    "r = Inr () \<longrightarrow> content f = bytes"
  using assms by (auto simp: write_opened_def split: option.splits prod.splits)

lemma wf_open_truncate:
  assumes t: "wf_tree t" and q: "open_truncate t p = Inr q"
  shows "wf_tree (t(q \<mapsto> File f))"
proof -
  have "q \<noteq> [] \<and> t (butlast q) = Some Dir \<and> t q \<noteq> Some Dir"
  proof (cases "follow t p = Vacant q")
    case False
    then obtain g where "t q = Some (File g)" using q by (auto simp: open_truncate_Inr)
    then show ?thesis using t wf_parent_butlast [OF t, of q] by (cases q) auto
  qed (auto dest: follow_Vacant)
  then show ?thesis using wf_update_leaf [OF t] by blast
qed

lemma write_cases:
  assumes "fs_write p bytes s = (r, s')"
  obtains (fail) e where "r = Inl e" "s' = tick s"
  | (written) q f where "open_truncate (tree s) p = Inr q" "s' = (tick s)\<lparr>tree := (tree s)(q \<mapsto> File f)\<rparr>"
      "r = Inr () \<longrightarrow> content f = bytes"
  using assms unfolding fs_write_def
  by (auto split: option.splits sum.splits elim!: write_opened_cases)

lemma copy_cases:
  assumes "fs_copy src dst s = (r, s')"
  obtains (fail) e where "r = Inl e" "s' = tick s"
  | (written) a g q f where "follow (tree s) src = Found a" "tree s a = Some (File g)"
      "open_truncate (tree s) dst = Inr q" "s' = (tick s)\<lparr>tree := (tree s)(q \<mapsto> File f)\<rparr>"
      "r = Inr () \<longrightarrow> content f = (if a = q then [] else content g)"
proof (cases "s' = tick s \<and> (\<exists>e. r = Inl e)")
  case True
  then show ?thesis using fail by blast
next
  case False
  then obtain a g b where ag: "entry_at (tree s) (follow (tree s) src) = Inr (a, File g)"
      "open_truncate (tree s) dst = Inr b"
      "write_opened b (if a = b then [] else content g) s = (r, s')"
    using assms unfolding fs_copy_def by (auto split: option.splits sum.splits prod.splits node.splits)
  from ag(3) obtain f where "s' = (tick s)\<lparr>tree := (tree s)(b \<mapsto> File f)\<rparr>"
      "r = Inr () \<longrightarrow> content f = (if a = b then [] else content g)"
    by (rule write_opened_cases)
  then show ?thesis using written ag by (simp add: entry_at_Inr)
qed

lemma fs_write_sound: "fs_write p bytes s = (r, s') \<Longrightarrow> sound_step s s'"
  by (erule write_cases) (auto simp: sound_step_def intro: wf_open_truncate)

lemma fs_copy_sound: "fs_copy a b s = (r, s') \<Longrightarrow> sound_step s s'"
  by (erule copy_cases) (auto simp: sound_step_def intro: wf_open_truncate)

lemmas call_sound =
  fs_mkdir_sound fs_symlink_sound fs_rename_sound fs_remove_file_sound fs_hard_link_sound fs_write_sound
  fs_copy_sound

lemma dirs_added_update: "t q = None \<Longrightarrow> dirs_added t (t(q \<mapsto> Dir))"
  by (simp add: dirs_added_def)

lemma fs_mkdir_dirs_added: "fs_mkdir p s = (r, s') \<Longrightarrow> dirs_added (tree s) (tree s')"
  unfolding fs_mkdir_def
  by (erule mutate_cases) (auto simp: create_entry_Inr dest: locate_Vacant intro: dirs_added_update)

definition dir_step :: "os \<Rightarrow> os \<Rightarrow> bool" where
  "dir_step s s' \<longleftrightarrow> sound_step s s' \<and> dirs_added (tree s) (tree s')"

lemma dir_step_trans [trans]: "dir_step s u \<Longrightarrow> dir_step u v \<Longrightarrow> dir_step s v"
  by (auto simp: dir_step_def intro: sound_step_trans dirs_added_trans)

lemma dir_step_mkdir: "fs_mkdir p s = (r, s') \<Longrightarrow> dir_step s s'"
  by (simp add: dir_step_def fs_mkdir_sound fs_mkdir_dirs_added)

lemma dir_step_tick [simp]: "dir_step s (tick s)"
  by (simp add: dir_step_def)

lemma dir_step_is_dir: "path_is_dir p s = (b, s') \<Longrightarrow> dir_step s s'"
  by (auto dest: path_is_dir_state)

text \<open>The last two calls of \<open>create_dir_all\<close>: make the directory, or accept one that is there.\<close>

lemma dir_step_mkdir_or_dir:
  assumes "fs_mkdir p s = (m, u)" and "path_is_dir p u = (b, v)"
  shows "dir_step s u" and "dir_step s v"
  using dir_step_mkdir [OF assms(1)] dir_step_is_dir [OF assms(2)] dir_step_trans by blast+

lemma fs_create_dir_all_dir_step: "fs_create_dir_all p s = (r, s') \<Longrightarrow> dir_step s s'"
proof (induction p s arbitrary: r s' rule: fs_create_dir_all.induct)
  case (1 p s)
  obtain m u where m: "fs_mkdir p s = (m, u)" by fastforce
  obtain b v where b: "path_is_dir p u = (b, v)" by fastforce
  note first = dir_step_mkdir_or_dir [OF m b]
  show ?case
  proof (cases m)
    case (Inr z)
    then have "s' = u" using "1.prems" m by (simp add: fs_create_dir_all.simps [of p s])
    then show ?thesis using first by simp
  next
    case (Inl e)
    show ?thesis
    proof (cases "kind e = EK_NotFound \<and> p \<noteq> []")
      case False
      then have "s' = u \<or> s' = v"
        using "1.prems" m b Inl
        by (auto simp: fs_create_dir_all.simps [of p s] split: bool.splits if_splits)
      then show ?thesis using first by auto
    next
      case True
      obtain x w where x: "fs_create_dir_all (butlast p) u = (x, w)" by fastforce
      have "dir_step u w" using "1.IH" [OF m [symmetric] Inl _ _ x] True by simp
      then have w: "dir_step s w" using first(1) dir_step_trans by blast
      obtain m2 u2 where m2: "fs_mkdir p w = (m2, u2)" by fastforce
      obtain b2 v2 where b2: "path_is_dir p u2 = (b2, v2)" by fastforce
      have "s' = w \<or> s' = u2 \<or> s' = v2"
        using "1.prems" m Inl True x m2 b2
        by (cases x; cases m2) (auto simp: fs_create_dir_all.simps [of p s] split: bool.splits)
      then show ?thesis using w dir_step_mkdir_or_dir [OF m2 b2] dir_step_trans by blast
    qed
  qed
qed

section \<open>Walks in an updated tree\<close>

text \<open>What a walk looks at of an entry: the target of a link, not the bytes of a file.\<close>

definition shape :: "node option \<Rightarrow> node option" where
  "shape x = (case x of Some (File f) \<Rightarrow> Some (File \<lparr>content = [], mtime = 0\<rparr>) | _ \<Rightarrow> x)"

definition same_shape :: "tree \<Rightarrow> tree \<Rightarrow> bool" where
  "same_shape t t' \<longleftrightarrow> (\<forall>p. shape (t' p) = shape (t p))"

lemma shape_eq_cases:
  assumes "shape y = shape x"
  obtains "x = y" | f g where "x = Some (File f)" "y = Some (File g)"
  using assms by (auto simp: shape_def split: option.splits node.splits)

lemma walk_same_shape: "same_shape t t' \<Longrightarrow> walk fl k t' cur ns = walk fl k t cur ns"
proof (induction fl k t cur ns rule: walk.induct)
  case (2 fl links t cur n ns)
  have eq: "shape (t' p) = shape (t p)" for p using "2.prems" by (simp add: same_shape_def)
  show ?case
  proof (rule shape_eq_cases [OF eq [of cur]])
    assume cur: "t cur = t' cur"
    show ?thesis
      by (rule shape_eq_cases [OF eq [of "cur @ [n]"]])
        (use 2 cur in \<open>auto split: option.splits node.splits\<close>)
  qed simp
qed simp

lemma same_shape_touch: "t q = Some (File f) \<Longrightarrow> same_shape t (t(q \<mapsto> File g))"
  by (simp add: same_shape_def shape_def)

lemma locate_same_shape: "same_shape t t' \<Longrightarrow> locate t' p = locate t p"
  by (simp add: locate_def walk_same_shape)

lemma follow_same_shape: "same_shape t t' \<Longrightarrow> follow t' p = follow t p"
  by (simp add: follow_def walk_same_shape)

text \<open>A file put anywhere hides what was there and shows nothing else that is new.\<close>

lemma walk_put_file_Found:
  "walk fl k (t(b \<mapsto> File f)) cur ns = Found q \<Longrightarrow> q = b \<or> walk fl k t cur ns = Found q"
proof (induction fl k "t(b \<mapsto> File f)" cur ns rule: walk.induct)
  case (2 fl links cur n ns)
  have "cur \<noteq> b" using walk_Cons_Found [OF "2.prems"] by auto
  show ?case
  proof (cases "cur @ [n] = b")
    case True
    then show ?thesis using 2 \<open>cur \<noteq> b\<close> by (cases ns) (auto split: option.splits node.splits)
  next
    case False
    then show ?thesis using 2 \<open>cur \<noteq> b\<close> by (auto split: option.splits node.splits if_splits)
  qed
qed simp

lemma walk_Cons_Vacant:
  "walk fl k t cur (n # ns) = Vacant q \<Longrightarrow> t cur = Some Dir"
  by (auto split: option.splits node.splits if_splits)

lemma walk_put_file_Vacant:
  "walk fl k (t(b \<mapsto> File f)) cur ns = Vacant q \<Longrightarrow> walk fl k t cur ns = Vacant q"
proof (induction fl k "t(b \<mapsto> File f)" cur ns rule: walk.induct)
  case (2 fl links cur n ns)
  have "cur \<noteq> b" using walk_Cons_Vacant [OF "2.prems"] by auto
  show ?case
  proof (cases "cur @ [n] = b")
    case True
    then show ?thesis using 2 \<open>cur \<noteq> b\<close> by (cases ns) (auto split: option.splits node.splits)
  next
    case False
    then show ?thesis using 2 \<open>cur \<noteq> b\<close> by (auto split: option.splits node.splits if_splits)
  qed
qed simp

text \<open>An entry put in a vacant place is found there, and hides nothing.\<close>

lemma walk_fill_Found:
  "t b = None \<Longrightarrow> walk fl k t cur ns = Found q \<Longrightarrow> walk fl k (t(b \<mapsto> x)) cur ns = Found q"
proof (induction fl k t cur ns rule: walk.induct)
  case (2 fl links t cur n ns)
  have "cur \<noteq> b" "cur @ [n] \<noteq> b" using walk_Cons_Found [OF "2.prems"(2)] "2.prems"(1) by auto
  then show ?case using 2 by (auto split: option.splits node.splits if_splits)
qed simp

lemma walk_fill_Vacant:
  "walk False k t cur ns = Vacant b \<Longrightarrow> walk False k (t(b \<mapsto> x)) cur ns = Found b"
proof (induction False k t cur ns rule: walk.induct)
  case (2 links t cur n ns)
  have b: "t b = None" using walk_Vacant [OF "2.prems"] by simp
  have "cur \<noteq> b" using walk_Cons_Vacant [OF "2.prems"] b by auto
  show ?case
  proof (cases "cur @ [n] = b")
    case True
    then show ?thesis using 2 b \<open>cur \<noteq> b\<close>
      by (cases x) (auto split: option.splits node.splits if_splits)
  next
    case False
    then show ?thesis using 2 b \<open>cur \<noteq> b\<close> by (auto split: option.splits node.splits if_splits)
  qed
qed simp

lemma walk_fill_back:
  "t b = None \<Longrightarrow> b \<noteq> [] \<Longrightarrow> walk fl k (t(b \<mapsto> File f)) cur ns = Found b \<Longrightarrow> cur \<noteq> b
   \<Longrightarrow> walk fl k t cur ns = Vacant b"
proof (induction fl k "t(b \<mapsto> File f)" cur ns rule: walk.induct)
  case (2 fl links cur n ns)
  show ?case
  proof (cases "cur @ [n] = b")
    case True
    then show ?thesis using 2 by (cases ns) (auto split: option.splits node.splits)
  next
    case False
    then show ?thesis using 2 by (auto split: option.splits node.splits if_splits)
  qed
qed simp

text \<open>Removing a file hides that file only.\<close>

lemma walk_remove_file:
  "t a = Some (File f) \<Longrightarrow> walk fl k t cur ns = Found q \<Longrightarrow> q \<noteq> a \<Longrightarrow> walk fl k (t(a := None)) cur ns = Found q"
proof (induction fl k t cur ns rule: walk.induct)
  case (2 fl links t cur n ns)
  have "cur \<noteq> a" using walk_Cons_Found [OF "2.prems"(2)] "2.prems"(1) by auto
  show ?case
  proof (cases "cur @ [n] = a")
    case True
    then show ?thesis using 2 \<open>cur \<noteq> a\<close> by (cases ns) (auto split: option.splits node.splits)
  next
    case False
    then show ?thesis using 2 \<open>cur \<noteq> a\<close> by (auto split: option.splits node.splits if_splits)
  qed
qed simp

text \<open>After removals that took away the entry a walk ended at, the walk finds nothing.\<close>

lemma walk_gone:
  "\<forall>p. t' p = t p \<or> t' p = None \<Longrightarrow> t' [] \<noteq> None \<Longrightarrow> t' q = None \<Longrightarrow> t' cur \<noteq> None \<Longrightarrow>
     walk fl k t cur ns = Found q \<Longrightarrow> walk fl k t' cur ns \<noteq> Found r"
proof (induction fl k t cur ns rule: walk.induct)
  case (2 fl links t cur n ns)
  have cur: "t' cur = t cur" using "2.prems"(1,4) by metis
  show ?case
  proof (cases "t' (cur @ [n]) = None")
    case True
    then show ?thesis using walk_Cons_Found [of fl links t' cur n ns r] by blast
  next
    case False
    then have "t' (cur @ [n]) = t (cur @ [n])" using "2.prems"(1) by metis
    then show ?thesis using 2 cur False by (auto split: option.splits node.splits if_splits)
  qed
qed simp

lemma locate_gone:
  assumes "wf_tree t'" and "\<forall>p. t' p = t p \<or> t' p = None" and "t' q = None" and "locate t p = Found q"
  shows "locate t' p \<noteq> Found r"
  using walk_gone [OF assms(2) _ assms(3), of "[]" False MAX_LINKS p r] assms(1,4) by (simp add: locate_def)

lemmas locate_put_file_Found = walk_put_file_Found [of False MAX_LINKS _ _ _ "[]", folded locate_def]
lemmas follow_put_file_Found = walk_put_file_Found [of True MAX_LINKS _ _ _ "[]", folded follow_def]
lemmas locate_put_file_Vacant = walk_put_file_Vacant [of False MAX_LINKS _ _ _ "[]", folded locate_def]
lemmas locate_fill_Found = walk_fill_Found [of _ _ False MAX_LINKS "[]", folded locate_def]
lemmas follow_fill_Found = walk_fill_Found [of _ _ True MAX_LINKS "[]", folded follow_def]
lemmas locate_fill_Vacant = walk_fill_Vacant [of MAX_LINKS _ "[]", folded locate_def]
lemmas locate_fill_back = walk_fill_back [of _ _ False MAX_LINKS _ "[]", folded locate_def]
lemmas locate_remove_file = walk_remove_file [of _ _ _ False MAX_LINKS "[]", folded locate_def]

section \<open>Where no file is\<close>

text \<open>The name \<open>p\<close> does not denote a file (it may denote nothing, a directory or a link).\<close>

definition no_file_at :: "tree \<Rightarrow> path \<Rightarrow> bool" where
  "no_file_at t p \<longleftrightarrow> (\<forall>q. locate t p = Found q \<longrightarrow> content_at t q = None)"

lemma content_at_SomeD: "content_at t q = Some c \<Longrightarrow> \<exists>f. t q = Some (File f) \<and> content f = c"
  by (auto simp: content_at_def split: option.splits node.splits)

lemma content_at_None [simp]: "t q = None \<Longrightarrow> content_at t q = None"
  by (simp add: content_at_def)

lemma no_file_where_stat_fails:
  assumes t: "wf_tree t" and none: "\<And>q. follow t p \<noteq> Found q" and more: "dirs_added t t'"
  shows "no_file_at t' p"
  unfolding no_file_at_def
proof (intro allI impI)
  fix q
  assume q: "locate t' p = Found q"
  show "content_at t' q = None"
  proof (rule ccontr)
    assume "content_at t' q \<noteq> None"
    then obtain f where f: "t' q = Some (File f)" using content_at_SomeD by blast
    then have "t q = Some (File f)" using dirs_added_new [OF more] by blast
    moreover have "locate t p = Found q"
      using walk_dirs_added [OF more t, of "[]" False MAX_LINKS p q] q f t by (simp add: locate_def)
    ultimately have "follow t p = Found q" using follow_of_locate by simp
    then show False using none by blast
  qed
qed

lemma entry_at_fails: "wf_tree t \<Longrightarrow> \<forall>q nd. entry_at t (follow t p) \<noteq> Inr (q, nd) \<Longrightarrow> follow t p \<noteq> Found q"
  using follow_Found [of t p q] by (auto simp: entry_at_Inr)

end
