(* ===== verification/Contain.thy ===== *)
theory Contain
  imports OsLaws
begin

text \<open>
  Root containment (\<open>crates/fs/pathsafe/src/contain.rs\<close>): the one rule that resolves a stored path
  against a root. A path is the text the program holds; its components are those of
  \<open>std::path::Path::components\<close> on Unix. Lexical cleaning is the \<open>path_clean\<close> crate, a parameter of
  the model whose documented behaviour is \<open>clean_ok\<close>.
\<close>

section \<open>Textual paths\<close>

datatype component = RootDir | CurDir | ParentDir | Normal string

fun split_slash :: "string \<Rightarrow> string list" where
  "split_slash [] = [[]]"
| "split_slash (c # cs) =
    (if c = CHR ''/'' then [] # split_slash cs
     else case split_slash cs of w # ws \<Rightarrow> (c # w) # ws | [] \<Rightarrow> [[c]])"

definition pieces :: "string \<Rightarrow> string list" where
  "pieces s = filter (\<lambda>w. w \<noteq> []) (split_slash s)"

definition to_component :: "string \<Rightarrow> component" where
  "to_component w = (if w = ''..'' then ParentDir else if w = ''.'' then CurDir else Normal w)"

definition is_absolute :: "string \<Rightarrow> bool" where
  "is_absolute s = (case s of [] \<Rightarrow> False | c # _ \<Rightarrow> c = CHR ''/'')"

definition components :: "string \<Rightarrow> component list" where
  "components s =
    (if is_absolute s then RootDir # map to_component (filter (\<lambda>w. w \<noteq> ''.'') (pieces s))
     else case pieces s of
       [] \<Rightarrow> []
     | w # ws \<Rightarrow> to_component w # map to_component (filter (\<lambda>w. w \<noteq> ''.'') ws))"

definition path_join :: "string \<Rightarrow> string \<Rightarrow> string" where
  "path_join a b =
    (if is_absolute b then b
     else if a = [] \<or> last a = CHR ''/'' then a @ b
     else a @ ''/'' @ b)"

definition path_starts_with :: "string \<Rightarrow> string \<Rightarrow> bool" where
  "path_starts_with p base = prefix (components base) (components p)"

text \<open>\<open>Path\<close> equality compares components: \<open>/a/./b\<close>, \<open>/a//b\<close> and \<open>/a/b/\<close> equal \<open>/a/b\<close>.\<close>

definition path_eq :: "string \<Rightarrow> string \<Rightarrow> bool" where
  "path_eq p q \<longleftrightarrow> components p = components q"

definition normal_names :: "component list \<Rightarrow> string list" where
  "normal_names cs = concat (map (\<lambda>c. case c of Normal n \<Rightarrow> [n] | _ \<Rightarrow> []) cs)"

text \<open>The absolute, normal path the operating system is handed.\<close>

definition os_path :: "string \<Rightarrow> path" where
  "os_path s = normal_names (components s)"

section \<open>Containment\<close>

datatype containment_error =
    RootMissing string
  | RootNotAbsolute string
  | Escapes string string
  | NotAbsolute string
  | NotNormalized string string

fun show_containment_error :: "containment_error \<Rightarrow> string" where
  "show_containment_error (RootMissing p) =
     ''path '' @ quoted p @ '' is root-relative but no root was resolved''"
| "show_containment_error (RootNotAbsolute r) =
     ''root '' @ quoted r @ '' is not absolute; it would resolve against the process working directory''"
| "show_containment_error (Escapes r p) =
     ''path escapes root '' @ quoted r @ '' after normalization; resolved to '' @ quoted p"
| "show_containment_error (NotAbsolute p) =
     ''path '' @ quoted p @ '' has no root and is not absolute; it would resolve against the process working directory''"
| "show_containment_error (NotNormalized p n) =
     ''unrooted path '' @ quoted p @ '' carries '' @ quoted ''.'' @ '' or '' @ quoted ''..''
       @ '' components; normalizes to '' @ quoted n"

definition resolve_in_root :: "(string \<Rightarrow> string) \<Rightarrow> string \<Rightarrow> string \<Rightarrow> containment_error + string" where
  "resolve_in_root clean root p =
    (if \<not> is_absolute root then Inl (RootNotAbsolute root)
     else let root = clean root; resolved = clean (path_join root p)
       in if path_starts_with resolved root then Inr resolved else Inl (Escapes root resolved))"

definition resolve_unrooted :: "(string \<Rightarrow> string) \<Rightarrow> string \<Rightarrow> containment_error + string" where
  "resolve_unrooted clean p =
    (if \<not> is_absolute p then Inl (NotAbsolute p)
     else let normalized = clean p
       in if path_eq normalized p then Inr normalized else Inl (NotNormalized p normalized))"

definition contained_in_any :: "(string \<Rightarrow> string) \<Rightarrow> string \<Rightarrow> string list \<Rightarrow> bool" where
  "contained_in_any clean p roots =
    list_ex (\<lambda>root. case resolve_in_root clean root p of Inl _ \<Rightarrow> False | Inr _ \<Rightarrow> True) roots"

section \<open>The documented behaviour of lexical cleaning\<close>

text \<open>
  Cleaning an absolute path drops every \<open>.\<close>, lets every \<open>..\<close> remove the name before it, and drops
  a \<open>..\<close> at the root; it makes no file system call.
\<close>

fun collapse :: "string list \<Rightarrow> component list \<Rightarrow> string list" where
  "collapse st [] = rev st"
| "collapse st (Normal n # cs) = collapse (n # st) cs"
| "collapse st (ParentDir # cs) = collapse (tl st) cs"
| "collapse st (_ # cs) = collapse st cs"

definition clean_ok :: "(string \<Rightarrow> string) \<Rightarrow> bool" where
  "clean_ok clean \<longleftrightarrow>
    (\<forall>p. is_absolute p \<longrightarrow> components (clean p) = RootDir # map Normal (collapse [] (components p)))"

text \<open>A concrete cleaner with this behaviour.\<close>

definition show_names :: "string list \<Rightarrow> string" where
  "show_names ns = (if ns = [] then ''/'' else concat (map (\<lambda>n. CHR ''/'' # n) ns))"

definition lexical_clean :: "string \<Rightarrow> string" where
  "lexical_clean p = (if is_absolute p then show_names (collapse [] (components p)) else p)"

section \<open>Lemmas on textual paths\<close>

lemma split_slash_ne [simp]: "split_slash s \<noteq> []"
  by (induction s rule: split_slash.induct) (auto split: list.splits)

lemma split_slash_append: "split_slash (a @ CHR ''/'' # b) = split_slash a @ split_slash b"
proof (induction a)
  case (Cons c a)
  then show ?case by (cases "split_slash a") (auto simp: Cons_eq_append_conv)
qed simp

lemma pieces_append: "pieces (a @ CHR ''/'' # b) = pieces a @ pieces b"
  by (simp add: pieces_def split_slash_append)

lemma pieces_Nil [simp]: "pieces [] = []"
  by (simp add: pieces_def)

lemma split_slash_no_slash: "w \<in> set (split_slash s) \<Longrightarrow> CHR ''/'' \<notin> set w"
  by (induction s arbitrary: w rule: split_slash.induct) (auto split: list.splits if_splits)

lemma split_slash_word: "CHR ''/'' \<notin> set w \<Longrightarrow> split_slash w = [w]"
  by (induction w) auto

lemma pieces_word: "CHR ''/'' \<notin> set w \<Longrightarrow> w \<noteq> [] \<Longrightarrow> pieces w = [w]"
  by (simp add: pieces_def split_slash_word)

lemma pieces_join: "a \<noteq> [] \<Longrightarrow> \<not> is_absolute b \<Longrightarrow> pieces (path_join a b) = pieces a @ pieces b"
proof (cases "last a = CHR ''/''")
  case True
  assume "a \<noteq> []" "\<not> is_absolute b"
  moreover obtain a' where "a = a' @ [CHR ''/'']" using True \<open>a \<noteq> []\<close> by (metis append_butlast_last_id)
  ultimately show ?thesis
    using pieces_append [of a' b] pieces_append [of a' "[]"] by (simp add: path_join_def)
qed (simp add: path_join_def pieces_append)

text \<open>A name of a normal component: not empty, without separator, neither \<open>.\<close> nor \<open>..\<close>.\<close>

definition is_name :: "string \<Rightarrow> bool" where
  "is_name n \<longleftrightarrow> n \<noteq> [] \<and> CHR ''/'' \<notin> set n \<and> n \<noteq> ''.'' \<and> n \<noteq> ''..''"

lemma pieces_names: "w \<in> set (pieces s) \<Longrightarrow> w \<noteq> [] \<and> CHR ''/'' \<notin> set w"
  by (auto simp: pieces_def split_slash_no_slash)

lemma components_names: "Normal n \<in> set (components s) \<Longrightarrow> is_name n"
proof -
  assume "Normal n \<in> set (components s)"
  then have "n \<in> set (pieces s) \<and> n \<noteq> ''.'' \<and> n \<noteq> ''..''"
    by (cases "pieces s") (auto simp: components_def to_component_def split: if_splits)
  then show ?thesis using pieces_names [of n s] by (simp add: is_name_def)
qed

lemma collapse_names:
  "list_all is_name st \<Longrightarrow> \<forall>n. Normal n \<in> set cs \<longrightarrow> is_name n \<Longrightarrow> list_all is_name (collapse st cs)"
proof (induction st cs rule: collapse.induct)
  case (3 st cs)
  then show ?case by (cases st) auto
qed auto

lemma pieces_show_names:
  "list_all is_name ns \<Longrightarrow> pieces (concat (map (\<lambda>n. CHR ''/'' # n) ns)) = ns"
proof (induction ns rule: rev_induct)
  case (snoc n ns)
  then show ?case
    using pieces_append [of "concat (map (\<lambda>n. CHR ''/'' # n) ns)" n]
    by (auto simp: is_name_def pieces_word)
qed simp

lemma components_show_names:
  assumes "list_all is_name ns"
  shows "components (show_names ns) = RootDir # map Normal ns"
proof (cases "ns = []")
  case True
  then show ?thesis by (simp add: show_names_def components_def is_absolute_def pieces_def)
next
  case False
  then have abs: "is_absolute (show_names ns)"
    by (cases ns) (simp_all add: show_names_def is_absolute_def)
  have "filter (\<lambda>w. w \<noteq> ''.'') ns = ns"
    using assms by (induction ns) (simp_all add: is_name_def)
  moreover have "map to_component ns = map Normal ns"
    using assms by (induction ns) (simp_all add: is_name_def to_component_def)
  ultimately show ?thesis
    using False abs pieces_show_names [OF assms] by (simp add: show_names_def components_def)
qed

text \<open>The hypothesis on the cleaner can hold.\<close>

lemma lexical_clean_ok: "clean_ok lexical_clean"
  unfolding clean_ok_def
proof (intro allI impI)
  fix p
  assume "is_absolute p"
  moreover have "list_all is_name (collapse [] (components p))"
    by (rule collapse_names) (auto intro: components_names)
  ultimately show "components (lexical_clean p) = RootDir # map Normal (collapse [] (components p))"
    by (simp add: lexical_clean_def components_show_names)
qed

lemma normal_names_simps [simp]:
  "normal_names [] = []" "normal_names (Normal n # cs) = n # normal_names cs"
  "normal_names (RootDir # cs) = normal_names cs" "normal_names (cs @ ds) = normal_names cs @ normal_names ds"
  "normal_names (map Normal ns) = ns"
  by (simp_all add: normal_names_def) (induction ns, simp_all add: normal_names_def)

lemma is_absolute_join [simp]: "is_absolute a \<Longrightarrow> is_absolute (path_join a b)"
  by (cases a) (auto simp: path_join_def is_absolute_def)

lemma collapse_no_parent:
  "ParentDir \<notin> set cs \<Longrightarrow> collapse st cs = rev st @ normal_names cs"
  by (induction st cs rule: collapse.induct) (auto simp: normal_names_def)

lemma collapse_append: "collapse st (cs @ ds) = collapse (rev (collapse st cs)) ds"
  by (induction st cs rule: collapse.induct) auto

lemma prefix_map_Normal: "prefix (map Normal rs) (map Normal qs) \<longleftrightarrow> prefix rs qs"
  by (induction rs arbitrary: qs) (case_tac qs, auto)+

lemma is_absolute_components: "is_absolute s \<longleftrightarrow> (\<exists>cs. components s = RootDir # cs)"
  by (auto simp: components_def to_component_def split: list.splits)

lemma is_absolute_clean: "clean_ok clean \<Longrightarrow> is_absolute p \<Longrightarrow> is_absolute (clean p)"
  by (auto simp: clean_ok_def is_absolute_components)

section \<open>Correctness of containment\<close>

lemma resolve_in_root_Inr:
  assumes "clean_ok clean" and "resolve_in_root clean root p = Inr r"
  obtains rs ns where "is_absolute root" "components (clean root) = RootDir # map Normal rs"
    "components r = RootDir # map Normal (rs @ ns)" "r = clean (path_join (clean root) p)"
proof -
  have abs: "is_absolute root" using assms(2) by (auto simp: resolve_in_root_def split: if_splits)
  have r: "r = clean (path_join (clean root) p)" and pre: "prefix (components (clean root)) (components r)"
    using assms(2) abs by (auto simp: resolve_in_root_def path_starts_with_def Let_def split: if_splits)
  obtain rs qs where root: "components (clean root) = RootDir # map Normal rs"
      and res: "components r = RootDir # map Normal qs"
    using assms(1) abs r is_absolute_clean [OF assms(1)] by (auto simp: clean_ok_def)
  then have "prefix (map Normal rs) (map Normal qs)" using pre by simp
  then obtain ns where "qs = rs @ ns"
    using prefix_map_Normal by (auto simp: prefix_def)
  then show ?thesis using that abs root res r by simp
qed

lemma os_path_clean:
  "clean_ok clean \<Longrightarrow> is_absolute p \<Longrightarrow> os_path (clean p) = collapse [] (components p)"
  by (simp add: clean_ok_def os_path_def)

lemma collapse_relative:
  "\<not> is_absolute p \<Longrightarrow> collapse st (components p) = collapse st (map to_component (filter (\<lambda>w. w \<noteq> ''.'') (pieces p)))"
  by (cases "pieces p") (simp_all add: components_def to_component_def)

lemma components_join:
  assumes "is_absolute a" and "\<not> is_absolute p"
  shows "components (path_join a p) = components a @ map to_component (filter (\<lambda>w. w \<noteq> ''.'') (pieces p))"
proof -
  have "a \<noteq> []" using assms(1) by (auto simp: is_absolute_def)
  then show ?thesis using assms pieces_join [of a p] by (simp add: components_def)
qed

lemma collapse_Normals: "collapse st (map Normal ns @ cs) = collapse (rev ns @ st) cs"
  by (induction ns arbitrary: st) simp_all

lemma os_path_join_clean:
  assumes "clean_ok clean" and "is_absolute root" and "\<not> is_absolute p"
  shows "os_path (clean (path_join (clean root) p)) = collapse (rev (os_path (clean root))) (components p)"
proof -
  have abs: "is_absolute (clean root)" using assms is_absolute_clean by blast
  then obtain rs where rs: "components (clean root) = RootDir # map Normal rs"
    using assms(1,2) by (auto simp: clean_ok_def)
  then have "os_path (clean root) = rs" by (simp add: os_path_def)
  then show ?thesis
    using os_path_clean [OF assms(1), of "path_join (clean root) p"] abs rs assms(3)
    by (simp add: components_join collapse_Normals collapse_relative)
qed

lemma components_clean:
  "clean_ok clean \<Longrightarrow> is_absolute p \<Longrightarrow> components (clean p) = RootDir # map Normal (os_path (clean p))"
  by (auto simp: clean_ok_def os_path_def)

lemma contained_components:
  assumes "clean_ok clean" and "resolve_in_root clean root p = Inr r"
  shows "\<exists>ns. components r = RootDir # map Normal (os_path (clean root) @ ns) \<and> os_path r = os_path (clean root) @ ns"
  using assms
proof (rule resolve_in_root_Inr)
  fix rs ns
  assume "components (clean root) = RootDir # map Normal rs" "components r = RootDir # map Normal (rs @ ns)"
  then show ?thesis by (intro exI [of _ ns]) (simp add: os_path_def flip: map_append)
qed

text \<open>
  C22. A path that containment accepts is absolute and normal and lies inside its root: its components
  are those of the cleaned root followed by plain names, with no \<open>.\<close> and no \<open>..\<close> left anywhere.
\<close>

theorem contained_path_is_inside:
  assumes "clean_ok clean" and "resolve_in_root clean root p = Inr r"
  shows "\<exists>ns. components r = RootDir # map Normal (os_path (clean root) @ ns) \<and> os_path r = os_path (clean root) @ ns"
  using assms by (rule contained_components)

theorem contained_path_is_inside_witness:
  "\<exists>ns. components ''/lib/x'' = RootDir # map Normal (os_path (lexical_clean ''/lib'') @ ns)
      \<and> os_path ''/lib/x'' = os_path (lexical_clean ''/lib'') @ ns"
  by (rule contained_path_is_inside [OF lexical_clean_ok, of "''/lib''" "''a/../x''"]) code_simp

text \<open>
  C31. Containment decides exactly escape: a relative path is accepted if and only if following its
  components from the root, with every \<open>..\<close> going one level up, ends inside the root; the path
  returned is where that walk ends.
\<close>

theorem containment_decides_escape:
  assumes "clean_ok clean" and "is_absolute root" and "\<not> is_absolute p"
  shows "resolve_in_root clean root p =
    (if prefix (os_path (clean root)) (collapse (rev (os_path (clean root))) (components p))
     then Inr (clean (path_join (clean root) p))
     else Inl (Escapes (clean root) (clean (path_join (clean root) p))))
   \<and> os_path (clean (path_join (clean root) p)) = collapse (rev (os_path (clean root))) (components p)"
proof -
  have abs: "is_absolute (path_join (clean root) p)" using assms is_absolute_clean by simp
  show ?thesis
    using os_path_join_clean [OF assms] components_clean [OF assms(1,2)] components_clean [OF assms(1) abs] assms(2)
    by (simp add: resolve_in_root_def Let_def path_starts_with_def prefix_map_Normal)
qed

theorem containment_decides_escape_witness:
  "resolve_in_root lexical_clean ''/lib'' ''a/../../etc'' = Inl (Escapes ''/lib'' ''/etc'')
   \<and> os_path ''/etc'' = [''etc'']"
  using containment_decides_escape [OF lexical_clean_ok, of "''/lib''" "''a/../../etc''"]
  by (simp add: is_absolute_def) code_simp

text \<open>
  C37. A path without a root is accepted exactly when it is absolute and has no \<open>..\<close> component, and is
  returned with its components unchanged. Components carry no \<open>.\<close> (equality of paths ignores it), so
  an unrooted path written with \<open>.\<close> is accepted as well.
\<close>

theorem unrooted_accepts_absolute_without_parent:
  assumes "clean_ok clean"
  shows "(resolve_unrooted clean p = Inr (clean p)) = (is_absolute p \<and> ParentDir \<notin> set (components p))
    \<and> (resolve_unrooted clean p = Inr r \<longrightarrow> components r = components p)"
proof (cases "is_absolute p")
  case True
  have cs: "components (clean p) = RootDir # map Normal (collapse [] (components p))"
    using assms True by (simp add: clean_ok_def)
  have "components (clean p) = components p \<longleftrightarrow> ParentDir \<notin> set (components p)"
  proof
    assume eq: "components (clean p) = components p"
    have "set (components (clean p)) \<subseteq> insert RootDir (range Normal)" unfolding cs by auto
    then show "ParentDir \<notin> set (components p)" unfolding eq by blast
  next
    assume no_parent: "ParentDir \<notin> set (components p)"
    have "set (map to_component ws) \<subseteq> range Normal \<Longrightarrow> map Normal (normal_names (map to_component ws)) = map to_component ws" for ws
      by (induction ws) (auto simp: normal_names_def)
    moreover have "set (map to_component (filter (\<lambda>w. w \<noteq> ''.'') (pieces p))) \<subseteq> range Normal"
    proof -
      have "ParentDir \<notin> to_component ` set (filter (\<lambda>w. w \<noteq> ''.'') (pieces p))"
        using no_parent True by (simp add: components_def)
      then show ?thesis by (force simp: to_component_def split: if_splits)
    qed
    ultimately show "components (clean p) = components p"
      using cs True collapse_no_parent [OF no_parent, of "[]"] by (simp add: components_def)
  qed
  then show ?thesis using True by (auto simp: resolve_unrooted_def path_eq_def Let_def)
qed (simp add: resolve_unrooted_def)

theorem unrooted_accepts_absolute_without_parent_witness:
  "resolve_unrooted lexical_clean ''/a/./b'' = Inr (lexical_clean ''/a/./b'')"
  using unrooted_accepts_absolute_without_parent [OF lexical_clean_ok, of "''/a/./b''"]
  by (simp add: is_absolute_def) code_simp

end
