(* ===== verification/PathGate.thy ===== *)
theory PathGate
  imports Contain Failure
begin

text \<open>
  The path gate of the executor (\<open>crates/fs/executor/src/ops/path_gate.rs\<close>): containment, then an
  \<open>lstat\<close> of every component below the root that refuses links. \<open>lib.rs\<close> of the path layer
  classifies what is a link.
\<close>

section \<open>Model\<close>

definition is_link_or_junction_metadata :: "node \<Rightarrow> bool" where
  "is_link_or_junction_metadata nd = (case nd of Link _ \<Rightarrow> True | _ \<Rightarrow> False)"

definition is_link_or_junction :: "path \<Rightarrow> os \<Rightarrow> bool \<times> os" where
  "is_link_or_junction p s =
    (case fs_symlink_metadata p s of
       (Inr (_, nd), s) \<Rightarrow> (is_link_or_junction_metadata nd, s)
     | (Inl e, s) \<Rightarrow> (kind e \<noteq> EK_NotFound, s))"

definition containment_failure :: "containment_error \<Rightarrow> plan_item_failure" where
  "containment_failure e =
    with_code (case e of
         Escapes _ _ \<Rightarrow> RootEscape
       | RootMissing _ \<Rightarrow> PathInvalid
       | RootNotAbsolute _ \<Rightarrow> PathInvalid
       | NotAbsolute _ \<Rightarrow> PathInvalid
       | NotNormalized _ _ \<Rightarrow> PathInvalid) (show_containment_error e)"

fun refuse_links :: "path \<Rightarrow> string list \<Rightarrow> os \<Rightarrow> (plan_item_failure + unit) \<times> os" where
  "refuse_links current [] s = (Inr (), s)"
| "refuse_links current (n # ns) s =
    (let current = current @ [n]
     in case fs_symlink_metadata current s of
         (Inr (_, nd), s) \<Rightarrow>
           (if is_link_or_junction_metadata nd
            then (Inl (with_code SymlinkComponent
                    (''path component '' @ quoted (show_path current) @ '' is a symlink or junction; '' @
                     ''refusing to traverse (link-following is disabled for this root)'')), s)
            else refuse_links current ns s)
       | (Inl e, s) \<Rightarrow>
           (if kind e = EK_NotFound then (Inr (), s)
            else (Inl (with_code PathInvalid
                    (''cannot lstat path component '' @ quoted (show_path current) @ '': '' @ error_text e)), s)))"

definition resolve_and_validate ::
  "(string \<Rightarrow> string) \<Rightarrow> string \<Rightarrow> string \<Rightarrow> os \<Rightarrow> (plan_item_failure + string) \<times> os" where
  "resolve_and_validate clean root relative s =
    (case resolve_in_root clean root relative of
       Inl e \<Rightarrow> (Inl (containment_failure e), s)
     | Inr normalized \<Rightarrow>
        (let root = os_path (clean root);
             below_root = drop (length root) (os_path normalized)
         in case refuse_links root below_root s of
             (Inl f, s) \<Rightarrow> (Inl f, s)
           | (Inr _, s) \<Rightarrow> (Inr normalized, s)))"

section \<open>Walking below a root without links\<close>

text \<open>No entry strictly below \<open>q\<close> along \<open>ns\<close> is a link.\<close>

fun link_free :: "tree \<Rightarrow> path \<Rightarrow> string list \<Rightarrow> bool" where
  "link_free t q [] = True"
| "link_free t q (n # ns) = ((\<forall>l. t (q @ [n]) \<noteq> Some (Link l)) \<and> link_free t (q @ [n]) ns)"

lemma walk_link_free:
  "link_free t q ns \<Longrightarrow> walk fl k t q ns = Found r \<or> walk fl k t q ns = Vacant r \<Longrightarrow> r = q @ ns"
proof (induction ns arbitrary: q)
  case (Cons n ns)
  have "ns = [] \<and> r = q @ [n] \<or> walk fl k t (q @ [n]) ns = Found r \<or> walk fl k t (q @ [n]) ns = Vacant r"
    using Cons.prems by (auto split: option.splits node.splits if_splits)
  then show ?case using Cons.IH [of "q @ [n]"] Cons.prems(1) by auto
qed auto

lemma walk_append:
  "walk True k t cur p = Found q \<Longrightarrow> ns \<noteq> [] \<Longrightarrow> \<exists>k'. walk fl k t cur (p @ ns) = walk fl k' t q ns"
proof (induction True k t cur p rule: walk.induct)
  case (2 links t cur n p)
  then show ?case by (auto split: option.splits node.splits if_splits)
qed auto

lemma walk_append_Broken:
  "walk True k t cur p = Vacant q \<or> walk True k t cur p = Broken e \<Longrightarrow> ns \<noteq> []
   \<Longrightarrow> \<exists>e. walk fl k t cur (p @ ns) = Broken e"
proof (induction True k t cur p rule: walk.induct)
  case (2 links t cur n p)
  then show ?case by (auto split: option.splits node.splits if_splits)
qed auto

text \<open>Below a root that exists, a link-free path denotes the entry at the corresponding place.\<close>

lemma locate_link_free:
  assumes "follow t root = Found q" and "link_free t q ns" and "ns \<noteq> []"
    and "locate t (root @ ns) = Found r \<or> locate t (root @ ns) = Vacant r"
  shows "r = q @ ns"
proof -
  obtain k where "locate t (root @ ns) = walk False k t q ns"
    using walk_append assms(1,3) unfolding follow_def locate_def by blast
  then show ?thesis using walk_link_free assms(2,4) by metis
qed

lemma follow_link_free:
  assumes "follow t root = Found q" and "link_free t q ns"
    and "follow t (root @ ns) = Found r \<or> follow t (root @ ns) = Vacant r"
  shows "r = q @ ns"
proof (cases "ns = []")
  case False
  then obtain k where "follow t (root @ ns) = walk True k t q ns"
    using walk_append assms(1) unfolding follow_def by blast
  then show ?thesis using walk_link_free assms(2,3) by metis
qed (use assms in simp)

lemma link_free_none: "wf_tree t \<Longrightarrow> t q = None \<Longrightarrow> link_free t q ns"
proof (induction ns arbitrary: q)
  case (Cons n ns)
  then have "t (q @ [n]) = None" using wf_parent [of t q n] by (metis option.distinct(1))
  then show ?case using Cons by simp
qed simp

lemma refuse_links_step:
  assumes "probes_reliable s" and "refuse_links cur (n # ns) s = (Inr (), s')"
  obtains (entry) r nd where "locate (tree s) (cur @ [n]) = Found r" "tree s r = Some nd"
      "\<forall>l. nd \<noteq> Link l" "refuse_links (cur @ [n]) ns (tick s) = (Inr (), s')"
  | (missing) e where "entry_at (tree s) (locate (tree s) (cur @ [n])) = Inl e" "kind e = EK_NotFound"
proof (cases "entry_at (tree s) (locate (tree s) (cur @ [n]))")
  case (Inl e)
  then show ?thesis using assms missing
    by (auto simp: fs_symlink_metadata_reliable Let_def split: if_splits)
next
  case (Inr x)
  then obtain r nd where x: "x = (r, nd)" by (cases x)
  then show ?thesis using assms Inr entry
    by (auto simp: fs_symlink_metadata_reliable Let_def entry_at_Inr is_link_or_junction_metadata_def
        split: if_splits node.splits)
qed

lemma errno_not_found [simp]: "kind ENOENT = EK_NotFound" "kind ENOTDIR \<noteq> EK_NotFound" "kind ELOOP \<noteq> EK_NotFound"
  by (simp_all add: errno_defs)

text \<open>What \<open>lstat\<close> of a path below an existing directory says about the entry there.\<close>

lemma locate_child:
  assumes "wf_tree t" and "follow t cur = Found q" and "t q = Some Dir"
  shows "locate t (cur @ [n]) = (if t (q @ [n]) = None then Vacant (q @ [n]) else Found (q @ [n]))"
proof -
  obtain k where "locate t (cur @ [n]) = walk False k t q [n]"
    using walk_append assms(2) unfolding follow_def locate_def by blast
  then show ?thesis using assms(3) by (auto split: option.splits node.splits)
qed

lemma follow_child:
  assumes "wf_tree t" and "follow t cur = Found q" and "t (q @ [n]) = Some nd" and "\<forall>l. nd \<noteq> Link l"
  shows "follow t (cur @ [n]) = Found (q @ [n])"
proof -
  obtain k where "follow t (cur @ [n]) = walk True k t q [n]"
    using walk_append assms(2) unfolding follow_def by blast
  moreover have "t q = Some Dir" using wf_parent [OF assms(1), of q n] assms(3) by simp
  ultimately show ?thesis using assms(3,4) by (cases nd) auto
qed

lemma refuse_links_link_free:
  assumes "wf_tree (tree s)" and "probes_reliable s" and "follow (tree s) cur = Found q"
    and "refuse_links cur ns s = (Inr (), s')"
  shows "link_free (tree s) q ns"
  using assms
proof (induction ns arbitrary: cur q s)
  case (Cons n ns)
  let ?t = "tree s"
  show ?case
  proof (cases "?t q = Some Dir")
    case False
    then have "?t (q @ [n]) = None" using wf_parent [OF Cons.prems(1)] by blast
    then show ?thesis using link_free_none [OF Cons.prems(1)] by simp
  next
    case True
    note child = locate_child [OF Cons.prems(1,3) True, of n]
    from Cons.prems(2,4) show ?thesis
    proof (cases rule: refuse_links_step)
      case (entry r nd)
      then have r: "r = q @ [n]" "?t (q @ [n]) = Some nd" using child by (auto split: if_splits)
      then have "follow ?t (cur @ [n]) = Found (q @ [n])"
        using follow_child Cons.prems(1,3) entry(3) by blast
      moreover have "probes_reliable (tick s)" using Cons.prems(2) by (simp add: probes_reliable_def)
      ultimately have "link_free ?t (q @ [n]) ns"
        using Cons.IH [of "tick s" "cur @ [n]" "q @ [n]"] Cons.prems(1) entry(4) by simp
      then show ?thesis using r entry(3) by simp
    next
      case missing
      then have "?t (q @ [n]) = None" using child by (auto simp: entry_at_def split: if_splits option.splits)
      then show ?thesis using link_free_none [OF Cons.prems(1)] by simp
    qed
  qed
qed simp

lemma refuse_links_state: "refuse_links cur ns s = (r, s') \<Longrightarrow> tree s' = tree s \<and> same_env s s'"
proof (induction cur ns s arbitrary: r rule: refuse_links.induct)
  case (2 cur n ns s)
  obtain m u where m: "fs_symlink_metadata (cur @ [n]) s = (m, u)" by fastforce
  have u: "u = tick s" using fs_symlink_metadata_state [OF m] .
  show ?case
  proof (cases m)
    case (Inl e)
    then show ?thesis using 2 m u by (auto simp: Let_def split: if_splits)
  next
    case (Inr x)
    then show ?thesis using "2.prems" "2.IH" [OF refl m [symmetric], of x "fst x" "snd x"] m u same_env_trans [of s "tick s" s']
      by (cases x) (auto simp: Let_def split: if_splits)
  qed
qed simp

lemma resolve_and_validate_state:
  "resolve_and_validate clean root p s = (r, s') \<Longrightarrow> tree s' = tree s \<and> same_env s s'"
  by (auto simp: resolve_and_validate_def Let_def split: sum.splits prod.splits dest: refuse_links_state)

section \<open>Correctness of the gate\<close>

lemma resolve_and_validate_Inr:
  assumes "clean_ok clean" and "resolve_and_validate clean root p s = (Inr r, s')"
  obtains ns where "os_path r = os_path (clean root) @ ns"
    "refuse_links (os_path (clean root)) ns s = (Inr (), s')"
proof -
  have "resolve_in_root clean root p = Inr r"
    and walk: "refuse_links (os_path (clean root)) (drop (length (os_path (clean root))) (os_path r)) s = (Inr (), s')"
    using assms(2) by (auto simp: resolve_and_validate_def Let_def split: sum.splits prod.splits)
  then obtain ns where "os_path r = os_path (clean root) @ ns"
    using contained_components [OF assms(1)] by blast
  then show ?thesis using that walk by simp
qed

lemma refuse_links_codes:
  "refuse_links cur ns s = (Inl f, s') \<Longrightarrow> code f \<in> {SymlinkComponent, PathInvalid}"
proof (induction cur ns s rule: refuse_links.induct)
  case (2 cur n ns s)
  obtain m u where m: "fs_symlink_metadata (cur @ [n]) s = (m, u)" by fastforce
  then show ?case
    using "2.prems" "2.IH" [OF refl m [symmetric], of "projr m" "fst (projr m)" "snd (projr m)"]
    by (cases m) (auto simp: Let_def split: if_splits prod.splits)
qed simp

lemma containment_failure_codes: "code (containment_failure e) \<in> {RootEscape, PathInvalid}"
  by (simp add: containment_failure_def split: containment_error.splits)

lemma resolve_and_validate_codes:
  "resolve_and_validate clean root p s = (Inl f, s') \<Longrightarrow> code f \<in> {RootEscape, SymlinkComponent, PathInvalid}"
  using containment_failure_codes
  by (auto simp: resolve_and_validate_def Let_def split: sum.splits prod.splits dest: refuse_links_codes)

text \<open>
  C23. What passes the gate stays under its root on disk: the path is the root followed by names, no
  component below the root is a link, and the entry the path denotes, whether the last component is
  followed or not, lies at the corresponding place below the directory the root denotes.
\<close>

theorem gated_path_denotes_entry_below_root:
  assumes "clean_ok clean" and "wf_tree (tree s)" and "probes_reliable s"
    and "resolve_and_validate clean root p s = (Inr r, s')"
    and "follow (tree s) (os_path (clean root)) = Found q"
  shows "\<exists>ns. os_path r = os_path (clean root) @ ns \<and> link_free (tree s) q ns
    \<and> (follow (tree s) (os_path r) = Found e \<longrightarrow> e = q @ ns)
    \<and> (ns \<noteq> [] \<longrightarrow> locate (tree s) (os_path r) = Found e \<or> locate (tree s) (os_path r) = Vacant e
         \<longrightarrow> e = q @ ns)"
proof -
  obtain ns where ns: "os_path r = os_path (clean root) @ ns"
      "refuse_links (os_path (clean root)) ns s = (Inr (), s')"
    using resolve_and_validate_Inr assms(1,4) by blast
  have free: "link_free (tree s) q ns"
    using refuse_links_link_free assms(2,3,5) ns(2) by blast
  show ?thesis
    using ns(1) free follow_link_free [OF assms(5) free] locate_link_free [OF assms(5) free] by auto
qed

definition gate_example :: os where
  "gate_example =
    \<lparr>tree = [[] \<mapsto> Dir, [''lib''] \<mapsto> Dir, [''lib'', ''raw''] \<mapsto> Dir,
            [''lib'', ''out''] \<mapsto> Link [''etc''], [''etc''] \<mapsto> Dir],
     volume = (\<lambda>_. 0), clock = 0, ticks = 0, faults = (\<lambda>_ _. None), torn = (\<lambda>_. None)\<rparr>"

lemma gate_example_wf: "wf_tree (tree gate_example)"
  unfolding wf_tree_def gate_example_def by (auto split: if_splits)

theorem gated_path_denotes_entry_below_root_witness:
  "\<exists>ns. os_path ''/lib/raw/m31'' = os_path (lexical_clean ''/lib'') @ ns
    \<and> link_free (tree gate_example) [''lib''] ns
    \<and> (follow (tree gate_example) (os_path ''/lib/raw/m31'') = Found [''lib'', ''raw'', ''m31'']
        \<longrightarrow> [''lib'', ''raw'', ''m31''] = [''lib''] @ ns)
    \<and> (ns \<noteq> [] \<longrightarrow> locate (tree gate_example) (os_path ''/lib/raw/m31'') = Found [''lib'', ''raw'', ''m31'']
         \<or> locate (tree gate_example) (os_path ''/lib/raw/m31'') = Vacant [''lib'', ''raw'', ''m31'']
         \<longrightarrow> [''lib'', ''raw'', ''m31''] = [''lib''] @ ns)"
  apply (rule gated_path_denotes_entry_below_root
      [OF lexical_clean_ok gate_example_wf, where p = "''./raw//m31''"
        and s' = "snd (resolve_and_validate lexical_clean ''/lib'' ''./raw//m31'' gate_example)"])
    apply (simp add: probes_reliable_def gate_example_def)
   apply (rule prod_eqI)
    apply code_simp
   apply simp
  apply code_simp
  done

text \<open>
  The gate refuses with one of three codes, none of which pauses a run, and touches nothing: it
  only reads the tree, whatever the verdict.
\<close>

theorem gate_refusal_codes:
  assumes "resolve_and_validate clean root p s = (res, s')"
  shows "tree s' = tree s
    \<and> (\<forall>f. res = Inl f \<longrightarrow> code f \<in> {RootEscape, SymlinkComponent, PathInvalid} \<and> \<not> triggers_pause (code f))"
  using assms resolve_and_validate_state [OF assms] resolve_and_validate_codes [of clean root p s _ s']
  by (auto simp: triggers_pause_def)

theorem gate_refusal_codes_witness:
  "code (projl (fst (resolve_and_validate lexical_clean ''/lib'' ''out/x'' gate_example))) \<in> {RootEscape, SymlinkComponent, PathInvalid}"
proof -
  have "isl (fst (resolve_and_validate lexical_clean ''/lib'' ''out/x'' gate_example))"
    by code_simp
  then have "\<exists>f. fst (resolve_and_validate lexical_clean ''/lib'' ''out/x'' gate_example) = Inl f"
    by (simp add: isl_def)
  then show ?thesis
    using gate_refusal_codes [of lexical_clean "''/lib''" "''out/x''" gate_example
        "fst (resolve_and_validate lexical_clean ''/lib'' ''out/x'' gate_example)"
        "snd (resolve_and_validate lexical_clean ''/lib'' ''out/x'' gate_example)"]
    by auto
qed

end
