(* ===== verification/FileOps.thy ===== *)
theory FileOps
  imports PathGate SourceView
begin

text \<open>
  The file primitives of the executor (\<open>crates/fs/executor/src/ops\<close>): move with its cross-volume
  fallback, archive, trash with archive fallback, permanent delete, directory creation, links and
  copies, the project marker, the freshness check and the volume probes. Third-party code is a
  parameter: the record \<open>extern\<close> holds what the primitives call, \<open>extern_ok\<close> what its documentation
  promises.
\<close>

section \<open>Third-party calls\<close>

text \<open>
  \<open>tempfile\<close>: a named temporary file is created in a directory, can be persisted under a name, and is
  removed when it is dropped before that. \<open>filetime\<close>: sets a modification time. \<open>trash\<close>: moves an
  entry to the desktop's trash, which is outside the tree. \<open>fs4\<close>: free space. \<open>time\<close>: RFC 3339 text
  to nanoseconds since the Unix epoch, where it parses, and back. \<open>serde_json\<close>: the text of the
  project marker. \<open>to_lowercase\<close> is Unicode lower-casing; \<open>dir_len\<close> and \<open>dir_mtime\<close> are what \<open>stat\<close>
  says of a directory, which the tree does not record. Modification times are nanoseconds since the
  epoch.
\<close>

record extern =
  tempfile_in :: "string \<Rightarrow> path \<Rightarrow> path io"
  persist :: "path \<Rightarrow> path \<Rightarrow> unit io"
  drop_temp :: "path \<Rightarrow> os \<Rightarrow> os"
  set_file_mtime :: "path \<Rightarrow> int \<Rightarrow> unit io"
  trash_delete :: "path \<Rightarrow> os \<Rightarrow> (string + unit) \<times> os"
  available_space :: "path \<Rightarrow> nat io"
  rfc3339_to_nanos :: "string \<Rightarrow> int option"
  nanos_to_rfc3339 :: "int \<Rightarrow> string option"
  dir_len :: "path \<Rightarrow> nat"
  dir_mtime :: "path \<Rightarrow> int"
  to_lowercase :: "string \<Rightarrow> string"
  marker_json :: "string \<Rightarrow> string"

definition empty_file :: "os \<Rightarrow> node" where
  "empty_file s = File \<lparr>content = [], mtime = clock s\<rparr>"

text \<open>What each call's documentation promises of the tree.\<close>

definition tempfile_ok :: "extern \<Rightarrow> bool" where
  "tempfile_ok x \<longleftrightarrow>
    (\<forall>pre dir s r s'. tempfile_in x pre dir s = (r, s') \<longrightarrow> same_env s s' \<and>
       (case r of
          Inl _ \<Rightarrow> tree s' = tree s
        | Inr p \<Rightarrow> \<exists>n. p = dir @ [n] \<and> create_entry (tree s) p (empty_file s) = Inr (tree s')))
    \<and> (\<forall>a b s r s'. persist x a b s = (r, s') \<longrightarrow> same_env s s' \<and>
       (case r of
          Inl _ \<Rightarrow> tree s' = tree s
        | Inr _ \<Rightarrow> rename_tree (volume s) (tree s) a b = Inr (tree s')))
    \<and> (\<forall>a s. same_env s (drop_temp x a s) \<and>
       (tree (drop_temp x a s) = tree s \<or> unlink_tree (tree s) a = Inr (tree (drop_temp x a s))))"

definition filetime_ok :: "extern \<Rightarrow> bool" where
  "filetime_ok x \<longleftrightarrow>
    (\<forall>p m s r s'. set_file_mtime x p m s = (r, s') \<longrightarrow> same_env s s' \<and>
       (tree s' = tree s \<or>
        (\<exists>q f. follow (tree s) p = Found q \<and> tree s q = Some (File f)
             \<and> tree s' = (tree s)(q \<mapsto> File (f\<lparr>mtime := m\<rparr>)))))"

definition trash_ok :: "extern \<Rightarrow> bool" where
  "trash_ok x \<longleftrightarrow>
    (\<forall>p s r s'. trash_delete x p s = (r, s') \<longrightarrow> same_env s s' \<and>
       (case r of
          Inl _ \<Rightarrow> tree s' = tree s
        | Inr _ \<Rightarrow> \<exists>q. locate (tree s) p = Found q \<and> q \<noteq> [] \<and>
                     tree s' = (\<lambda>e. if below q e then None else tree s e)))"

definition space_ok :: "extern \<Rightarrow> bool" where
  "space_ok x \<longleftrightarrow> (\<forall>p s. tree (snd (available_space x p s)) = tree s \<and> same_env s (snd (available_space x p s)))"

definition extern_ok :: "extern \<Rightarrow> bool" where
  "extern_ok x \<longleftrightarrow> tempfile_ok x \<and> filetime_ok x \<and> trash_ok x \<and> space_ok x"

section \<open>Move\<close>

record move_result =
  rollback_attempted :: bool
  rollback_outcome :: rollback_outcome
  rollback_message :: "string option"

definition no_rollback :: move_result where
  "no_rollback = \<lparr>rollback_attempted = False, rollback_outcome = NotApplicable, rollback_message = None\<rparr>"

definition cross_device_error :: int where
  "cross_device_error = 18"

definition dest_dir_of :: "path \<Rightarrow> path" where
  "dest_dir_of destination = (case path_parent destination of Some p \<Rightarrow> p | None \<Rightarrow> [''.''])"

definition atomic_copy :: "extern \<Rightarrow> path \<Rightarrow> path \<Rightarrow> unit io" where
  "atomic_copy x source destination s =
    (case tempfile_in x ''.astroplan-copy-'' (dest_dir_of destination) s of
       (Inl e, s) \<Rightarrow> (Inl e, s)
     | (Inr tmp, s) \<Rightarrow>
        (case fs_copy source tmp s of
           (Inl e, s) \<Rightarrow> (Inl e, drop_temp x tmp s)
         | (Inr _, s) \<Rightarrow>
            (case persist x tmp destination s of
               (Inl e, s) \<Rightarrow> (Inl e, drop_temp x tmp s)
             | (Inr _, s) \<Rightarrow> (Inr (), s))))"

definition restore_mtime :: "extern \<Rightarrow> path \<Rightarrow> int option \<Rightarrow> os \<Rightarrow> os" where
  "restore_mtime x destination m s =
    (case m of None \<Rightarrow> s | Some t \<Rightarrow> snd (set_file_mtime x destination t s))"

definition source_mtime :: "path \<Rightarrow> os \<Rightarrow> int option \<times> os" where
  "source_mtime source s =
    (case fs_metadata source s of
       (Inr (_, File f), s) \<Rightarrow> (Some (mtime f), s)
     | (_, s) \<Rightarrow> (None, s))"

definition ensure_parent :: "path \<Rightarrow> os \<Rightarrow> (plan_item_failure + unit) \<times> os" where
  "ensure_parent destination s =
    (case path_parent destination of
       None \<Rightarrow> (Inr (), s)
     | Some parent \<Rightarrow>
        (case path_exists parent s of
           (True, s) \<Rightarrow> (Inr (), s)
         | (False, s) \<Rightarrow>
            (case fs_create_dir_all parent s of
               (Inr _, s) \<Rightarrow> (Inr (), s)
             | (Inl e, s) \<Rightarrow> (Inl (from_io e (''create destination parent '' @ show_path parent)), s))))"

definition copy_then_delete ::
  "extern \<Rightarrow> (path \<Rightarrow> path \<Rightarrow> unit io) \<Rightarrow> (path \<Rightarrow> unit io) \<Rightarrow> path \<Rightarrow> path \<Rightarrow> os
   \<Rightarrow> (plan_item_failure \<times> move_result + unit) \<times> os" where
  "copy_then_delete x copy remove_file source destination s =
    (case source_mtime source s of (m, s) \<Rightarrow>
     case copy source destination s of
       (Inl e, s) \<Rightarrow>
         (Inl (from_io e (''copy '' @ show_path source @ '' to '' @ show_path destination), no_rollback), s)
     | (Inr _, s) \<Rightarrow>
        (let s = restore_mtime x destination m s
         in case remove_file source s of
             (Inr _, s) \<Rightarrow> (Inr (), s)
           | (Inl del_err, s) \<Rightarrow>
              (let msg = ''copy succeeded but delete source '' @ show_path source @ '' failed: '' @ error_text del_err
               in case remove_file destination s of
                   (Inr _, s) \<Rightarrow>
                     (Inl (with_code CopySucceededDeleteFailed msg,
                           \<lparr>rollback_attempted = True, rollback_outcome = Succeeded, rollback_message = None\<rparr>), s)
                 | (Inl rb_err, s) \<Rightarrow>
                     (Inl (with_code CopySucceededDeleteFailedRollbackFailed msg,
                           \<lparr>rollback_attempted = True, rollback_outcome = RollbackFailed,
                            rollback_message = Some (''rollback remove '' @ show_path destination
                              @ '' failed: '' @ error_text rb_err)\<rparr>), s))))"

definition move_file_with_ops ::
  "extern \<Rightarrow> (path \<Rightarrow> path \<Rightarrow> unit io) \<Rightarrow> (path \<Rightarrow> path \<Rightarrow> unit io) \<Rightarrow> (path \<Rightarrow> unit io)
   \<Rightarrow> path \<Rightarrow> path \<Rightarrow> os \<Rightarrow> (plan_item_failure \<times> move_result + unit) \<times> os" where
  "move_file_with_ops x rename copy remove_file source destination s =
    (case path_exists destination s of
       (True, s) \<Rightarrow>
         (Inl (with_code ConflictDestinationExists
            (''destination already exists; cannot overwrite: '' @ show_path destination), no_rollback), s)
     | (False, s) \<Rightarrow>
        (case ensure_parent destination s of
           (Inl f, s) \<Rightarrow> (Inl (f, no_rollback), s)
         | (Inr _, s) \<Rightarrow>
            (case rename source destination s of
               (Inr _, s) \<Rightarrow> (Inr (), s)
             | (Inl e, s) \<Rightarrow>
                (if raw_os_error e \<noteq> Some cross_device_error
                 then (Inl (from_io e (''rename '' @ show_path source @ '' to '' @ show_path destination), no_rollback), s)
                 else copy_then_delete x copy remove_file source destination s))))"

definition move_file :: "extern \<Rightarrow> path \<Rightarrow> path \<Rightarrow> os \<Rightarrow> (plan_item_failure \<times> move_result + unit) \<times> os" where
  "move_file x source destination =
    move_file_with_ops x fs_rename (atomic_copy x) fs_remove_file source destination"

section \<open>Archive, trash, delete\<close>

definition archive_file :: "extern \<Rightarrow> path \<Rightarrow> path \<Rightarrow> os \<Rightarrow> (plan_item_failure \<times> move_result + unit) \<times> os" where
  "archive_file x source archive_destination = move_file x source archive_destination"

record trash_result = move_result +
  destination_used :: string

definition trash_result_default :: trash_result where
  "trash_result_default =
    \<lparr>rollback_attempted = False, rollback_outcome = NotApplicable, rollback_message = None,
     destination_used = ''trash''\<rparr>"

definition contains_text :: "string \<Rightarrow> string \<Rightarrow> bool" where
  "contains_text s w = sublist w s"

definition classify_trash_error_message :: "extern \<Rightarrow> string \<Rightarrow> failure_code" where
  "classify_trash_error_message x msg =
    (let err_str = to_lowercase x msg
     in if contains_text err_str ''permission'' \<or> contains_text err_str ''access denied''
        then OsTrashPermissionDenied
        else if contains_text err_str ''full'' \<or> contains_text err_str ''no space''
        then OsTrashFull
        else TrashUnavailable)"

definition classify_trash_error :: "extern \<Rightarrow> string \<Rightarrow> path \<Rightarrow> failure_code \<times> string" where
  "classify_trash_error x err p =
    (classify_trash_error_message x err, ''OS trash failed for '' @ quoted (show_path p) @ '': '' @ err)"

definition trash_file ::
  "extern \<Rightarrow> path \<Rightarrow> path option \<Rightarrow> os \<Rightarrow> (plan_item_failure \<times> trash_result + trash_result) \<times> os" where
  "trash_file x p fallback_archive_dest s =
    (case trash_delete x p s of
       (Inr _, s) \<Rightarrow> (Inr trash_result_default, s)
     | (Inl trash_err, s) \<Rightarrow>
        (case fallback_archive_dest of
           Some archive_dest \<Rightarrow>
             (case archive_file x p archive_dest s of
                (Inr _, s) \<Rightarrow>
                  (Inr (trash_result_default\<lparr>
                     rollback_message := Some (''trash unavailable ('' @ trash_err @
                        ''); fell back to archive at '' @ show_path archive_dest),
                     destination_used := ''archive''\<rparr>), s)
              | (Inl (archive_failure, archive_result), s) \<Rightarrow>
                  (Inl (with_code TrashUnavailable
                          (''trash failed ('' @ trash_err @ '') and archive fallback also failed: ''
                             @ message archive_failure),
                        \<lparr>rollback_attempted = rollback_attempted archive_result,
                         rollback_outcome = rollback_outcome archive_result,
                         rollback_message = rollback_message archive_result,
                         destination_used = ''archive''\<rparr>), s))
         | None \<Rightarrow>
             (let (c, m) = classify_trash_error x trash_err p
              in (Inl (with_code c m, trash_result_default), s))))"

record delete_result =
  delete_rollback_attempted :: bool
  delete_rollback_outcome :: rollback_outcome

definition delete_file :: "path \<Rightarrow> bool \<Rightarrow> os \<Rightarrow> (plan_item_failure \<times> delete_result + unit) \<times> os" where
  "delete_file p confirm_required s =
    (let no_rollback = \<lparr>delete_rollback_attempted = False, delete_rollback_outcome = NotApplicable\<rparr>
     in if \<not> confirm_required
        then (Inl (with_code ProtectedSource
               (''permanent delete requires explicit confirmation; blocked: '' @ show_path p), no_rollback), s)
        else case fs_remove_file p s of
            (Inr _, s) \<Rightarrow> (Inr (), s)
          | (Inl e, s) \<Rightarrow> (Inl (from_io e (''delete '' @ show_path p), no_rollback), s))"

section \<open>Directories, catalogue, links\<close>

definition make_dir :: "path \<Rightarrow> os \<Rightarrow> (plan_item_failure + unit) \<times> os" where
  "make_dir destination s =
    (case path_exists destination s of
       (True, s) \<Rightarrow>
         (case path_is_dir destination s of
            (True, s) \<Rightarrow> (Inr (), s)
          | (False, s) \<Rightarrow>
              (Inl (with_code ConflictDestinationExists
                 (''destination exists and is not a directory; cannot create: '' @ show_path destination)), s))
     | (False, s) \<Rightarrow>
         (case fs_create_dir_all destination s of
            (Inr _, s) \<Rightarrow> (Inr (), s)
          | (Inl e, s) \<Rightarrow> (Inl (from_io e (''create directory '' @ show_path destination)), s)))"

definition catalogue_noop :: "os \<Rightarrow> (plan_item_failure + unit) \<times> os" where
  "catalogue_noop s = (Inr (), s)"

text \<open>\<open>destination.exists() || destination.symlink_metadata().is_ok()\<close>\<close>

definition occupied :: "path \<Rightarrow> os \<Rightarrow> bool \<times> os" where
  "occupied p s =
    (case path_exists p s of
       (True, s) \<Rightarrow> (True, s)
     | (False, s) \<Rightarrow> (case fs_symlink_metadata p s of (Inr _, s) \<Rightarrow> (True, s) | (Inl _, s) \<Rightarrow> (False, s)))"

definition create_link :: "extern \<Rightarrow> path \<Rightarrow> path \<Rightarrow> materialization \<Rightarrow> os \<Rightarrow> (plan_item_failure + unit) \<times> os" where
  "create_link x source destination k s =
    (case occupied destination s of
       (True, s) \<Rightarrow>
         (Inl (with_code ConflictDestinationExists
            (''destination already exists; cannot create '' @ materialization_as_str k @ '': '' @ show_path destination)), s)
     | (False, s) \<Rightarrow>
        (case path_exists source s of
           (False, s) \<Rightarrow> (Inl (with_code SourceMissing (''source does not exist: '' @ show_path source)), s)
         | (True, s) \<Rightarrow>
            (case k of
               Symlink \<Rightarrow>
                 (case fs_symlink source destination s of
                    (Inr _, s) \<Rightarrow> (Inr (), s)
                  | (Inl e, s) \<Rightarrow> (Inl (from_io e ''create symlink''), s))
             | Hardlink \<Rightarrow>
                 (case fs_hard_link source destination s of
                    (Inr _, s) \<Rightarrow> (Inr (), s)
                  | (Inl e, s) \<Rightarrow> (Inl (from_io e ''create hardlink''), s))
             | CopyFile \<Rightarrow>
                 (case source_mtime source s of (m, s) \<Rightarrow>
                  case fs_copy source destination s of
                    (Inl e, s) \<Rightarrow> (Inl (from_io e ''copy file''), s)
                  | (Inr _, s) \<Rightarrow> (Inr (), restore_mtime x destination m s))
             | Junction \<Rightarrow>
                 (Inl (with_code MaterializationUnsupported
                    ''junction materialization is not yet implemented by this executor''), s))))"

section \<open>Project marker\<close>

text \<open>\<open>project_id.trim().is_empty()\<close>, on ASCII white space.\<close>

definition is_blank :: "string \<Rightarrow> bool" where
  "is_blank s = list_all (\<lambda>c. c \<in> {CHR '' '', CHR 0x09, CHR 0x0A, CHR 0x0B, CHR 0x0C, CHR 0x0D}) s"

definition render_marker :: "extern \<Rightarrow> string \<Rightarrow> string" where
  "render_marker x project_id = marker_json x project_id @ [CHR 0x0A]"

definition write_marker :: "extern \<Rightarrow> path \<Rightarrow> string \<Rightarrow> os \<Rightarrow> (plan_item_failure + unit) \<times> os" where
  "write_marker x destination project_id s =
    (if is_blank project_id
     then (Inl (with_code PathInvalid
            (''write_manifest item for '' @ show_path destination @ '' has no linked project id'')), s)
     else
       let txt = render_marker x project_id
       in case path_exists destination s of
         (True, s) \<Rightarrow>
           (case path_is_file destination s of
              (False, s) \<Rightarrow>
                (Inl (with_code ConflictDestinationExists
                   (''destination exists and is not a file; cannot write marker: '' @ show_path destination)), s)
            | (True, s) \<Rightarrow>
               (case fs_read_to_string destination s of
                  (Inr existing, s) \<Rightarrow>
                    (if existing = txt then (Inr (), s)
                     else (Inl (with_code ConflictDestinationExists
                            (''marker file already exists with different content: '' @ show_path destination)), s))
                | (Inl e, s) \<Rightarrow> (Inl (from_io e (''read existing marker '' @ show_path destination)), s)))
       | (False, s) \<Rightarrow>
          (case (case path_parent destination of
                   None \<Rightarrow> (Inr (), s)
                 | Some parent \<Rightarrow> fs_create_dir_all parent s) of
             (Inl e, s) \<Rightarrow> (Inl (from_io e (''create parent directory for marker '' @ show_path destination)), s)
           | (Inr _, s) \<Rightarrow>
              (case tempfile_in x ''.astroplan-marker-'' (dest_dir_of destination) s of
                 (Inl e, s) \<Rightarrow> (Inl (from_io e (''create temp file for marker '' @ show_path destination)), s)
               | (Inr tmp, s) \<Rightarrow>
                  (case fs_write tmp txt s of
                     (Inl e, s) \<Rightarrow>
                       (Inl (from_io e (''write temp marker for '' @ show_path destination)), drop_temp x tmp s)
                   | (Inr _, s) \<Rightarrow>
                      (case persist x tmp destination s of
                         (Inl e, s) \<Rightarrow>
                           (Inl (from_io e (''persist marker to '' @ show_path destination)), drop_temp x tmp s)
                       | (Inr _, s) \<Rightarrow> (Inr (), s))))))"

end
