(* ===== verification/Freshness.thy ===== *)
theory Freshness
  imports FileOps "HOL-Library.Signed_Division"
begin

text \<open>
  Revalidation against the state at approval time: the compare-and-swap check on size and
  modification time (\<open>ops/cas_check.rs\<close>) and the volume probes before a paused run resumes
  (\<open>ops/volume_check.rs\<close>).
\<close>

section \<open>Compare and swap\<close>

record cas_snapshot =
  approved_mtime :: "string option"
  approved_size_bytes :: "int option"

definition I64_MAX :: int where
  "I64_MAX = 9223372036854775807"

text \<open>\<open>std::fs::Metadata\<close>: length and modification time of what \<open>stat\<close> found.\<close>

definition meta_len :: "extern \<Rightarrow> path \<times> node \<Rightarrow> nat" where
  "meta_len x m = (case m of (_, File f) \<Rightarrow> length (content f) | (q, _) \<Rightarrow> dir_len x q)"

definition meta_modified :: "extern \<Rightarrow> path \<times> node \<Rightarrow> int" where
  "meta_modified x m = (case m of (_, File f) \<Rightarrow> mtime f | (q, _) \<Rightarrow> dir_mtime x q)"

definition len_as_i64 :: "nat \<Rightarrow> int" where
  "len_as_i64 n = (if int n \<le> I64_MAX then int n else I64_MAX)"

text \<open>A \<open>SystemTime\<close> is its distance to the Unix epoch in nanoseconds; division truncates.\<close>

definition parse_iso_to_system_time :: "extern \<Rightarrow> string \<Rightarrow> int option" where
  "parse_iso_to_system_time x stamp =
    (case rfc3339_to_nanos x stamp of
       None \<Rightarrow> None
     | Some unix_nanos \<Rightarrow>
        (let secs = unix_nanos sdiv 1000000000; rest = unix_nanos smod 1000000000
         in if secs < 0 then None
            else Some (secs * 1000000000 + (if rest < 0 then 0 else rest))))"

definition to_unix_secs :: "int \<Rightarrow> int" where
  "to_unix_secs st = (if st < 0 then 0 else st div 1000000000)"

definition check_size :: "path \<Rightarrow> int option \<Rightarrow> int \<Rightarrow> plan_item_failure + unit" where
  "check_size p approved current_size =
    (case approved of
       None \<Rightarrow> Inr ()
     | Some approved_size \<Rightarrow>
        (if current_size \<noteq> approved_size
         then Inl (with_code ItemStale
                (''source size changed since approval: was '' @ show_int approved_size @ '' bytes, now ''
                   @ show_int current_size @ '' bytes ('' @ show_path p @ '')''))
         else Inr ()))"

definition check_mtime :: "extern \<Rightarrow> path \<Rightarrow> string option \<Rightarrow> int \<Rightarrow> plan_item_failure + unit" where
  "check_mtime x p approved current_mtime =
    (case approved of
       None \<Rightarrow> Inr ()
     | Some approved_str \<Rightarrow>
        (case parse_iso_to_system_time x approved_str of
           None \<Rightarrow> Inr ()
         | Some approved_ts \<Rightarrow>
            (let current_secs = to_unix_secs current_mtime; approved_secs = to_unix_secs approved_ts
             in if \<bar>current_secs - approved_secs\<bar> > 1
                then Inl (with_code ItemStale
                       (''source mtime changed since approval: was '' @ approved_str @ '', now ''
                          @ show_int current_secs @ '' unix secs ('' @ show_path p @ '')''))
                else Inr ())))"

definition check_cas :: "extern \<Rightarrow> path \<Rightarrow> cas_snapshot \<Rightarrow> os \<Rightarrow> (plan_item_failure + unit) \<times> os" where
  "check_cas x p snapshot s =
    (if approved_mtime snapshot = None \<and> approved_size_bytes snapshot = None then (Inr (), s)
     else case fs_metadata p s of
         (Inl e, s) \<Rightarrow>
           (if kind e = EK_NotFound
            then (Inl (with_code SourceMissing (''source path no longer exists: '' @ show_path p)), s)
            else (Inl (from_io e (''stat '' @ show_path p)), s))
       | (Inr meta, s) \<Rightarrow>
           (case check_size p (approved_size_bytes snapshot) (len_as_i64 (meta_len x meta)) of
              Inl f \<Rightarrow> (Inl f, s)
            | Inr _ \<Rightarrow> (check_mtime x p (approved_mtime snapshot) (meta_modified x meta), s)))"

definition snapshot_from_metadata :: "extern \<Rightarrow> path \<Rightarrow> os \<Rightarrow> cas_snapshot option \<times> os" where
  "snapshot_from_metadata x p s =
    (case fs_metadata p s of
       (Inl _, s) \<Rightarrow> (None, s)
     | (Inr meta, s) \<Rightarrow>
        (Some \<lparr>approved_mtime = nanos_to_rfc3339 x (meta_modified x meta),
               approved_size_bytes = Some (len_as_i64 (meta_len x meta))\<rparr>, s))"

section \<open>Volume probes\<close>

definition path_is_accessible :: "path \<Rightarrow> os \<Rightarrow> bool \<times> os" where
  "path_is_accessible p s = (case fs_metadata p s of (Inr _, s) \<Rightarrow> (True, s) | (Inl _, s) \<Rightarrow> (False, s))"

definition recheck_volume_available :: "extern \<Rightarrow> path \<Rightarrow> os \<Rightarrow> (plan_item_failure + unit) \<times> os" where
  "recheck_volume_available x p s =
    (case path_is_accessible p s of
       (False, s) \<Rightarrow>
         (Inl (with_code VolumeUnavailable
            (''volume still unreachable at '' @ show_path p @ '': path is not accessible'')), s)
     | (True, s) \<Rightarrow>
        (case available_space x p s of
           (Inr _, s) \<Rightarrow> (Inr (), s)
         | (Inl e, s) \<Rightarrow>
             (Inl (with_code VolumeUnavailable
                (''volume still unreachable at '' @ show_path p @ '': '' @ error_text e)), s)))"

definition recheck_disk_space :: "extern \<Rightarrow> path \<Rightarrow> nat \<Rightarrow> os \<Rightarrow> (plan_item_failure + unit) \<times> os" where
  "recheck_disk_space x p required_bytes s =
    (case path_is_accessible p s of
       (False, s) \<Rightarrow>
         (Inl (with_code DiskFull
            (''could not probe free space at '' @ show_path p @ '': path is not accessible'')), s)
     | (True, s) \<Rightarrow>
        (case available_space x p s of
           (Inl e, s) \<Rightarrow>
             (Inl (with_code DiskFull (''could not probe free space at '' @ show_path p @ '': '' @ error_text e)), s)
         | (Inr available, s) \<Rightarrow>
             (if available < required_bytes
              then (Inl (with_code DiskFull
                     (''insufficient free space at '' @ show_path p @ '': '' @ show_nat available
                        @ '' bytes available, '' @ show_nat required_bytes @ '' required'')), s)
              else (Inr (), s))))"

definition available_space_bytes :: "extern \<Rightarrow> path \<Rightarrow> os \<Rightarrow> (plan_item_failure + nat) \<times> os" where
  "available_space_bytes x p s =
    (case path_is_accessible p s of
       (False, s) \<Rightarrow>
         (Inl (with_code VolumeUnavailable
            (''could not probe free space at '' @ show_path p @ '': path is not accessible'')), s)
     | (True, s) \<Rightarrow>
        (case available_space x p s of
           (Inr n, s) \<Rightarrow> (Inr n, s)
         | (Inl e, s) \<Rightarrow>
             (Inl (with_code VolumeUnavailable
                (''could not probe free space at '' @ show_path p @ '': '' @ error_text e)), s)))"

section \<open>Correctness\<close>

lemma check_cas_state: "check_cas x p snap s = (r, s') \<Longrightarrow> tree s' = tree s \<and> same_env s s'"
  by (auto simp: check_cas_def split: if_splits prod.splits sum.splits dest!: fs_metadata_state)

lemma parse_iso_nonneg:
  "rfc3339_to_nanos x stamp = Some n \<Longrightarrow> 0 \<le> n \<Longrightarrow> parse_iso_to_system_time x stamp = Some n"
proof -
  assume n: "rfc3339_to_nanos x stamp = Some n" "0 \<le> n"
  have "\<not> n mod 1000000000 < 0" by (simp add: not_less)
  moreover have "\<not> n div 1000000000 < 0" using n(2) by (simp add: not_less pos_imp_zdiv_nonneg_iff)
  ultimately show ?thesis using n
    by (simp add: parse_iso_to_system_time_def Let_def signed_divide_int_def signed_modulo_int_def sgn_if)
qed

lemma parse_iso_neg:
  assumes "rfc3339_to_nanos x stamp = Some n" and "n < 0"
  shows "parse_iso_to_system_time x stamp = None \<or> parse_iso_to_system_time x stamp = Some 0"
  using assms
  by (auto simp: parse_iso_to_system_time_def Let_def signed_divide_int_def signed_modulo_int_def sgn_if)

text \<open>
  C26. A snapshot taken at approval is accepted later as long as \<open>stat\<close> finds the same size and time
  at the path: the check does not report stale what has not changed, also for times before 1970
  and files beyond the range of a signed 64-bit size.
\<close>

theorem cas_accepts_unchanged:
  assumes "probes_reliable s" and "probes_reliable s'"
    and format: "\<And>n stamp. nanos_to_rfc3339 x n = Some stamp \<Longrightarrow> rfc3339_to_nanos x stamp = Some n"
    and "snapshot_from_metadata x p s = (Some snap, t)"
    and "entry_at (tree s') (follow (tree s') p) = entry_at (tree s) (follow (tree s) p)"
  shows "fst (check_cas x p snap s') = Inr ()"
proof -
  obtain m where m: "entry_at (tree s) (follow (tree s) p) = Inr m"
    and snap: "snap = \<lparr>approved_mtime = nanos_to_rfc3339 x (meta_modified x m),
                       approved_size_bytes = Some (len_as_i64 (meta_len x m))\<rparr>"
    using assms(1,4) by (auto simp: snapshot_from_metadata_def fs_metadata_reliable split: sum.splits)
  have "check_mtime x p (nanos_to_rfc3339 x (meta_modified x m)) (meta_modified x m) = Inr ()"
  proof (cases "nanos_to_rfc3339 x (meta_modified x m)")
    case (Some stamp)
    then have parsed: "rfc3339_to_nanos x stamp = Some (meta_modified x m)" using format by blast
    show ?thesis
      using Some parse_iso_nonneg [OF parsed] parse_iso_neg [OF parsed]
      by (cases "meta_modified x m < 0") (auto simp: check_mtime_def to_unix_secs_def)
  qed (simp add: check_mtime_def)
  then show ?thesis
    using m snap assms(2,5) by (simp add: check_cas_def fs_metadata_reliable check_size_def)
qed

text \<open>
  A change of the size or of the modification time by more than one second since approval is
  reported, with a code that pauses the run; so is a source that is gone, which does not pause.
\<close>

theorem cas_reports_changes:
  assumes "probes_reliable s" and "check_cas x p snap s = (res, s')"
    and "approved_size_bytes snap = Some n"
  shows "(\<forall>m. entry_at (tree s) (follow (tree s) p) = Inr m \<and> len_as_i64 (meta_len x m) \<noteq> n
            \<longrightarrow> (\<exists>f. res = Inl f \<and> code f = ItemStale \<and> triggers_pause (code f)))
    \<and> (\<forall>m stamp a. entry_at (tree s) (follow (tree s) p) = Inr m \<and> approved_mtime snap = Some stamp
            \<and> parse_iso_to_system_time x stamp = Some a
            \<and> 1 < \<bar>to_unix_secs (meta_modified x m) - to_unix_secs a\<bar>
            \<longrightarrow> (\<exists>f. res = Inl f \<and> code f = ItemStale \<and> triggers_pause (code f)))
    \<and> (\<forall>e. entry_at (tree s) (follow (tree s) p) = Inl e \<and> kind e = EK_NotFound
            \<longrightarrow> (\<exists>f. res = Inl f \<and> code f = SourceMissing \<and> \<not> triggers_pause (code f)))"
  using assms(2,3)
  by (auto simp: check_cas_def fs_metadata_reliable [OF assms(1)] check_size_def check_mtime_def Let_def
      triggers_pause_def split: if_splits)

end
