(* ===== verification/RetryQueue.thy ===== *)
theory RetryQueue
  imports Prelude
begin

text \<open>
  The state the executor shares with other tasks (\<open>crates/fs/executor/src/run/mod.rs\<close>): the
  cancellation token, the skip set, and the retry queue with its one-way life from open to closed.
  A critical section is one step. A set is a list without repetition; the order in which a hash set is
  drained is unspecified: \<open>shuffle\<close> proposes one for every set, and every order can be proposed.
\<close>

section \<open>Skip set\<close>

definition set_insert :: "string \<Rightarrow> string list \<Rightarrow> string list" where
  "set_insert k xs = (if k \<in> set xs then xs else xs @ [k])"

definition skip_insert :: "string \<Rightarrow> string list \<Rightarrow> string list" where
  "skip_insert item_id xs = set_insert item_id xs"

definition skip_take :: "string \<Rightarrow> string list \<Rightarrow> bool \<times> string list" where
  "skip_take item_id xs = (item_id \<in> set xs, filter (\<lambda>k. k \<noteq> item_id) xs)"

text \<open>The order a hash set is drained in: the proposed one where it is an order of the set.\<close>

definition drain_order :: "(string list \<Rightarrow> string list) \<Rightarrow> string list \<Rightarrow> string list" where
  "drain_order shuffle xs = (if mset (shuffle xs) = mset xs then shuffle xs else xs)"

section \<open>Retry queue\<close>

record retry_queue =
  queue :: "string list option"
  orphaned :: "string list"

definition rq_new :: retry_queue where
  "rq_new = \<lparr>queue = Some [], orphaned = []\<rparr>"

definition rq_push :: "string \<Rightarrow> retry_queue \<Rightarrow> bool \<times> retry_queue" where
  "rq_push item_id q =
    (case queue q of
       Some ids \<Rightarrow> (True, q\<lparr>queue := Some (set_insert item_id ids)\<rparr>)
     | None \<Rightarrow> (False, q))"

definition rq_take :: "string \<Rightarrow> retry_queue \<Rightarrow> bool \<times> retry_queue" where
  "rq_take item_id q =
    (case queue q of
       Some ids \<Rightarrow> (item_id \<in> set ids, q\<lparr>queue := Some (filter (\<lambda>k. k \<noteq> item_id) ids)\<rparr>)
     | None \<Rightarrow> (False, q))"

definition rq_drain_all :: "(string list \<Rightarrow> string list) \<Rightarrow> retry_queue \<Rightarrow> string list \<times> retry_queue" where
  "rq_drain_all shuffle q =
    (case queue q of
       Some ids \<Rightarrow> (drain_order shuffle ids, q\<lparr>queue := Some []\<rparr>)
     | None \<Rightarrow> ([], q))"

definition rq_close_if_empty :: "retry_queue \<Rightarrow> bool \<times> retry_queue" where
  "rq_close_if_empty q =
    (case queue q of
       Some (k # ids) \<Rightarrow> (False, q)
     | _ \<Rightarrow> (True, q\<lparr>queue := None\<rparr>))"

definition rq_close :: "(string list \<Rightarrow> string list) \<Rightarrow> retry_queue \<Rightarrow> retry_queue" where
  "rq_close shuffle q =
    (case queue q of
       Some ids \<Rightarrow> q\<lparr>queue := None, orphaned := orphaned q @ drain_order shuffle ids\<rparr>
     | None \<Rightarrow> q)"

definition rq_orphan :: "string list \<Rightarrow> retry_queue \<Rightarrow> retry_queue" where
  "rq_orphan ids q = q\<lparr>orphaned := orphaned q @ ids\<rparr>"

definition rq_take_orphaned :: "retry_queue \<Rightarrow> string list \<times> retry_queue" where
  "rq_take_orphaned q = (orphaned q, q\<lparr>orphaned := []\<rparr>)"

section \<open>What the queue promises its user\<close>

text \<open>
  \<open>held\<close> are the ids a queue answers for: accepted and not yet handed out, or handed back as orphans.
  The locale states what an executor relies on; its lemmas are the accounting of accepted retries.
\<close>

locale retry_contract =
  fixes is_open :: "'q \<Rightarrow> bool"
    and pending :: "'q \<Rightarrow> string set"
    and orphans :: "'q \<Rightarrow> string set"
    and push :: "string \<Rightarrow> 'q \<Rightarrow> bool \<times> 'q"
    and drain :: "'q \<Rightarrow> string list \<times> 'q"
    and close_if_empty :: "'q \<Rightarrow> bool \<times> 'q"
    and close :: "'q \<Rightarrow> 'q"
    and orphan :: "string list \<Rightarrow> 'q \<Rightarrow> 'q"
  assumes closed_pending: "\<not> is_open q \<Longrightarrow> pending q = {}"
    and push_open: "is_open q \<Longrightarrow> push k q = (b, q') \<Longrightarrow>
          b \<and> is_open q' \<and> pending q' = insert k (pending q) \<and> orphans q' = orphans q"
    and push_closed: "\<not> is_open q \<Longrightarrow> push k q = (False, q)"
    and drain_law: "drain q = (ids, q') \<Longrightarrow>
          set ids = pending q \<and> pending q' = {} \<and> orphans q' = orphans q \<and> is_open q' = is_open q"
    and close_if_empty_law: "close_if_empty q = (b, q') \<Longrightarrow>
          b = (pending q = {}) \<and> orphans q' = orphans q \<and> pending q' = pending q \<and> is_open q' = (is_open q \<and> \<not> b)"
    and close_law: "\<not> is_open (close q) \<and> orphans (close q) = orphans q \<union> pending q"
    and orphan_law: "orphans (orphan ids q) = orphans q \<union> set ids \<and> pending (orphan ids q) = pending q
          \<and> is_open (orphan ids q) = is_open q"
begin

definition held :: "'q \<Rightarrow> string set" where
  "held q = pending q \<union> orphans q"

lemma push_held: "push k q = (b, q') \<Longrightarrow> held q \<subseteq> held q' \<and> (b \<longrightarrow> k \<in> held q') \<and> b = is_open q \<and> is_open q' = is_open q"
  using push_open [of q k b q'] push_closed [of q k] by (cases "is_open q") (auto simp: held_def)

lemma drain_held: "drain q = (ids, q') \<Longrightarrow> held q \<subseteq> set ids \<union> held q'"
  using drain_law [of q ids q'] by (auto simp: held_def)

lemma close_if_empty_held: "close_if_empty q = (b, q') \<Longrightarrow> held q' = held q"
  using close_if_empty_law [of q b q'] by (auto simp: held_def)

lemma close_held: "held (close q) = held q"
  using close_law [of q] closed_pending [of "close q"] by (auto simp: held_def)

lemma orphan_held: "held (orphan ids q) = held q \<union> set ids"
  using orphan_law [of ids q] by (auto simp: held_def)

lemma closed_held: "\<not> is_open q \<Longrightarrow> held q = orphans q"
  using closed_pending by (simp add: held_def)

end

definition rq_open :: "retry_queue \<Rightarrow> bool" where
  "rq_open q \<longleftrightarrow> queue q \<noteq> None"

definition rq_pending :: "retry_queue \<Rightarrow> string set" where
  "rq_pending q = (case queue q of None \<Rightarrow> {} | Some ids \<Rightarrow> set ids)"

definition rq_orphans :: "retry_queue \<Rightarrow> string set" where
  "rq_orphans q = set (orphaned q)"

lemma set_insert [simp]: "set (set_insert k xs) = insert k (set xs)"
  by (auto simp: set_insert_def)

lemma drain_order_mset [simp]: "mset (drain_order shuffle xs) = mset xs"
  by (simp add: drain_order_def)

lemma drain_order_set [simp]: "set (drain_order shuffle xs) = set xs"
  by (metis drain_order_mset set_mset_mset)

lemmas rq_defs =
  rq_open_def rq_pending_def rq_orphans_def rq_push_def rq_drain_all_def rq_close_if_empty_def rq_close_def
  rq_orphan_def

text \<open>The queue of the code keeps the contract, whatever order its sets are drained in.\<close>

interpretation rq: retry_contract rq_open rq_pending rq_orphans rq_push "rq_drain_all shuffle"
    rq_close_if_empty "rq_close shuffle" rq_orphan for shuffle
  by unfold_locales (auto simp: rq_defs split: option.splits list.splits)

end
