(* ===== verification/FileOpsLaws.thy ===== *)
theory FileOpsLaws
  imports FileOps
begin

text \<open>
  What the file primitives keep: no operation but delete and trash loses a file content, none
  overwrites a file, and a failed move leaves every file where it was.
\<close>

section \<open>Third-party laws, one call at a time\<close>

lemma tempfile_in_cases:
  assumes "extern_ok x" and "tempfile_in x pre dir s = (r, s')"
  obtains (fail) e where "r = Inl e" "tree s' = tree s" "same_env s s'"
  | (made) p n q where "r = Inr p" "p = dir @ [n]" "locate (tree s) p = Vacant q"
      "tree s' = (tree s)(q \<mapsto> empty_file s)" "same_env s s'"
proof -
  have law: "same_env s s'" "case r of Inl _ \<Rightarrow> tree s' = tree s
      | Inr p \<Rightarrow> \<exists>n. p = dir @ [n] \<and> create_entry (tree s) p (empty_file s) = Inr (tree s')"
    using assms unfolding extern_ok_def tempfile_ok_def by blast+
  show ?thesis
  proof (cases r)
    case (Inl e)
    then show ?thesis using fail law by simp
  next
    case (Inr p)
    then show ?thesis using made law by (auto simp: create_entry_Inr)
  qed
qed

lemma persist_cases:
  assumes "extern_ok x" and "persist x a b s = (r, s')"
  obtains (fail) e where "r = Inl e" "tree s' = tree s" "same_env s s'"
  | (persisted) u where "r = Inr u" "rename_tree (volume s) (tree s) a b = Inr (tree s')" "same_env s s'"
proof -
  have law: "same_env s s'" "case r of Inl _ \<Rightarrow> tree s' = tree s
      | Inr _ \<Rightarrow> rename_tree (volume s) (tree s) a b = Inr (tree s')"
    using assms unfolding extern_ok_def tempfile_ok_def by blast+
  show ?thesis using law fail persisted by (cases r) auto
qed

lemma drop_temp_law:
  assumes "extern_ok x"
  shows "same_env s (drop_temp x a s)"
    and "tree (drop_temp x a s) = tree s \<or> unlink_tree (tree s) a = Inr (tree (drop_temp x a s))"
  using assms unfolding extern_ok_def tempfile_ok_def by blast+

lemma set_file_mtime_law:
  assumes "extern_ok x" and "set_file_mtime x p m s = (r, s')"
  shows "same_env s s'"
    and "tree s' = tree s \<or> (\<exists>q f. tree s q = Some (File f) \<and> tree s' = (tree s)(q \<mapsto> File (f\<lparr>mtime := m\<rparr>)))"
  using assms unfolding extern_ok_def filetime_ok_def by blast+

lemma trash_delete_cases:
  assumes "extern_ok x" and "trash_delete x p s = (r, s')"
  obtains (fail) e where "r = Inl e" "tree s' = tree s" "same_env s s'"
  | (trashed) u q where "r = Inr u" "locate (tree s) p = Found q" "q \<noteq> []"
      "tree s' = (\<lambda>e. if below q e then None else tree s e)" "same_env s s'"
proof -
  have law: "same_env s s'" "case r of Inl _ \<Rightarrow> tree s' = tree s
      | Inr _ \<Rightarrow> \<exists>q. locate (tree s) p = Found q \<and> q \<noteq> [] \<and>
                   tree s' = (\<lambda>e. if below q e then None else tree s e)"
    using assms unfolding extern_ok_def trash_ok_def by blast+
  show ?thesis using law fail trashed by (cases r) auto
qed

lemma drop_temp_sound: "extern_ok x \<Longrightarrow> sound_step s (drop_temp x a s)"
  using drop_temp_law(1) [of x s a] drop_temp_law(2) [of x a s] wf_unlink_tree [of "tree s" a]
  by (auto simp: sound_step_def)

lemma tempfile_in_sound: "extern_ok x \<Longrightarrow> tempfile_in x pre dir s = (r, s') \<Longrightarrow> sound_step s s'"
  by (erule (1) tempfile_in_cases)
    (auto simp: sound_step_def empty_file_def dest: locate_Vacant intro!: wf_update_leaf)

lemma persist_sound: "extern_ok x \<Longrightarrow> persist x a b s = (r, s') \<Longrightarrow> sound_step s s'"
  by (erule (1) persist_cases) (auto simp: sound_step_def intro: wf_rename_tree)

section \<open>Restoring a modification time\<close>

definition same_files :: "tree \<Rightarrow> tree \<Rightarrow> bool" where
  "same_files t t' \<longleftrightarrow> same_shape t t' \<and> content_at t' = content_at t"

lemma same_files_refl [simp]: "same_files t t"
  by (simp add: same_files_def same_shape_def)

lemma restore_mtime_law:
  assumes "extern_ok x"
  shows "sound_step s (restore_mtime x d m s) \<and> same_files (tree s) (tree (restore_mtime x d m s))"
proof (cases m)
  case (Some i)
  obtain r s' where r: "set_file_mtime x d i s = (r, s')" by fastforce
  note law = set_file_mtime_law [OF assms r]
  have "wf_tree (tree s) \<longrightarrow> wf_tree (tree s')"
  proof
    assume t: "wf_tree (tree s)"
    show "wf_tree (tree s')"
      using law(2)
    proof (elim disjE exE conjE)
      fix q f
      assume q: "tree s q = Some (File f)" "tree s' = (tree s)(q \<mapsto> File (f\<lparr>mtime := i\<rparr>))"
      then have "q \<noteq> []" using t by auto
      then show ?thesis using q wf_update_leaf [OF t] wf_parent_butlast [OF t, of q] by simp
    qed (use t in simp)
  qed
  moreover have "same_files (tree s) (tree s')"
    using law(2)
  proof (elim disjE exE conjE)
    fix q f
    assume q: "tree s q = Some (File f)" "tree s' = (tree s)(q \<mapsto> File (f\<lparr>mtime := i\<rparr>))"
    then have "content_at (tree s') = content_at (tree s)"
      by (simp add: content_at_upd) (auto simp: content_at_def)
    then show ?thesis using q same_shape_touch by (simp add: same_files_def)
  qed simp
  ultimately show ?thesis using Some r law(1) by (simp add: restore_mtime_def sound_step_def)
qed (simp add: restore_mtime_def)

lemma source_mtime_state: "source_mtime p s = (m, s') \<Longrightarrow> s' = tick s"
  by (auto simp: source_mtime_def dest!: fs_metadata_state split: prod.splits sum.splits node.splits)

section \<open>The atomic copy\<close>

text \<open>Where a temporary file was persisted over a name that denotes no file.\<close>

lemma moved_fresh_file:
  assumes t: "wf_tree t" and q: "t q = None" and mv: "rename_moves (t(q \<mapsto> File f)) q (File f) b"
  shows "moved q b (t(q \<mapsto> File f)) = t(b \<mapsto> File f)"
proof
  fix p
  have leaf: "t (b @ r) = None" if "r \<noteq> []" for r
    using mv that q unfolding rename_moves_def fun_upd_def by (metis option.distinct(1))
  have leafq: "t (q @ r) = None" if "r \<noteq> []" for r using wf_leaf [OF t, of q r] q that by simp
  have bq: "b \<noteq> q" using mv by (auto simp: rename_moves_def)
  show "moved q b (t(q \<mapsto> File f)) p = (t(b \<mapsto> File f)) p"
  proof (cases "below b p")
    case True
    then obtain r where r: "p = b @ r" by (auto simp: below_iff)
    then show ?thesis using leaf leafq by (cases "r = []") (simp_all add: moved_eq)
  next
    case False
    moreover have "t p = None" if "below q p"
      using that leafq q by (auto simp: below_iff) (metis append.right_neutral)
    ultimately show ?thesis by (auto simp: moved_eq)
  qed
qed

lemma persist_fresh:
  assumes t: "wf_tree t" and tmp: "locate t tmp = Vacant q"
    and r: "rename_tree vol (t(q \<mapsto> File f)) tmp dst = Inr t'"
  obtains b where "t' = t(b \<mapsto> File f)" "locate t dst = Found b \<or> locate t dst = Vacant b"
    "t b \<noteq> Some Dir"
proof -
  let ?u = "t(q \<mapsto> File f)"
  have q: "t q = None" using locate_Vacant [OF tmp] by simp
  have wf: "wf_tree ?u" using locate_Vacant [OF tmp] by (intro wf_update_leaf [OF t]) auto
  have "locate ?u tmp = Found q" using locate_fill_Vacant [OF tmp] .
  then obtain b nd where b: "locate ?u dst = Found b \<or> locate ?u dst = Vacant b"
      "t' = ?u \<and> q = b \<or> t' = moved q b ?u \<and> rename_moves ?u q nd b" "?u q = Some nd"
    using r by (elim rename_tree_Inr [OF wf]) auto
  then have nd: "nd = File f" by simp
  have where_b: "b = q \<or> locate t dst = Found b \<or> locate t dst = Vacant b"
    using b(1) locate_put_file_Found [of t q f dst b] locate_put_file_Vacant [of t q f dst b] by blast
  show ?thesis
  proof (cases "q = b")
    case True
    then have "locate ?u dst = Found q" using b(1) locate_Vacant [of ?u dst b] by auto
    then have "locate t dst = Vacant q" using locate_fill_back [of t q f dst] q locate_Vacant [OF tmp] by auto
    moreover have "t' = ?u" using b(2) True by (auto simp: rename_moves_def)
    ultimately show ?thesis using that [of q] q True by simp
  next
    case False
    then have mv: "t' = moved q b ?u" "rename_moves ?u q (File f) b" using b(2) nd by auto
    then have "t b \<noteq> Some Dir" using False by (auto simp: rename_moves_def)
    then show ?thesis using that [of b] moved_fresh_file [OF t q mv(2)] mv(1) where_b False by auto
  qed
qed

lemma atomic_copy_sound:
  assumes "extern_ok x" and "atomic_copy x src dst s = (r, s')"
  shows "sound_step s s'"
proof -
  obtain t0 s1 where t0: "tempfile_in x ''.astroplan-copy-'' (dest_dir_of dst) s = (t0, s1)" by fastforce
  note s1 = tempfile_in_sound [OF assms(1) t0]
  show ?thesis
  proof (cases t0)
    case (Inl e)
    then show ?thesis using assms(2) t0 s1 by (simp add: atomic_copy_def)
  next
    case (Inr tmp)
    obtain c s2 where c: "fs_copy src tmp s1 = (c, s2)" by fastforce
    obtain d s3 where d: "persist x tmp dst s2 = (d, s3)" by fastforce
    have "s' \<in> {drop_temp x tmp s2, drop_temp x tmp s3, s3}"
      using assms(2) t0 Inr c d by (auto simp: atomic_copy_def split: sum.splits)
    then show ?thesis
      using s1 fs_copy_sound [OF c] persist_sound [OF assms(1) d] drop_temp_sound [OF assms(1)]
      by (blast intro: sound_step_trans)
  qed
qed

lemma atomic_copy_cases:
  assumes x: "extern_ok x" and t: "wf_tree (tree s)" and cp: "atomic_copy x src dst s = (r, s')"
  obtains (fail) e where "r = Inl e" "tree s' = tree s"
  | (leftover) e n q f where "r = Inl e" "locate (tree s) (dest_dir_of dst @ [n]) = Vacant q"
      "tree s' = (tree s)(q \<mapsto> File f)"
  | (copied) u b f where "r = Inr u" "tree s' = (tree s)(b \<mapsto> File f)"
      "locate (tree s) dst = Found b \<or> locate (tree s) dst = Vacant b" "tree s b \<noteq> Some Dir"
      "\<And>a c. follow (tree s) src = Found a \<Longrightarrow> content_at (tree s) a = Some c \<Longrightarrow> content f = c"
proof -
  let ?t = "tree s"
  obtain t0 s1 where t0: "tempfile_in x ''.astroplan-copy-'' (dest_dir_of dst) s = (t0, s1)" by fastforce
  from x t0 show ?thesis
  proof (cases rule: tempfile_in_cases)
    case fail
    then show ?thesis using cp t0 that(1) by (auto simp: atomic_copy_def)
  next
    case (made tmp n q)
    have q: "?t q = None" "q \<noteq> []" using locate_Vacant [OF made(3)] by auto
    obtain f0 where s1: "tree s1 = ?t(q \<mapsto> File f0)" using made(4) by (simp add: empty_file_def)
    have tmp_at: "locate (?t(q \<mapsto> File g)) tmp = Found q" for g using locate_fill_Vacant [OF made(3)] .
    have dropped: "tree (drop_temp x tmp u) = ?t \<or> tree (drop_temp x tmp u) = ?t(q \<mapsto> File g)"
      if "tree u = ?t(q \<mapsto> File g)" for u g
      using drop_temp_law(2) [OF x, of tmp u] that tmp_at [of g] q by (auto simp: unlink_tree_Inr)
    have give_up: thesis if "r = Inl e" "s' = drop_temp x tmp u" "tree u = ?t(q \<mapsto> File g)" for e u g
      using dropped [OF that(3)] that made(2,3) fail leftover by auto
    obtain c s2 where c: "fs_copy src tmp s1 = (c, s2)" by fastforce
    from c show ?thesis
    proof (cases rule: copy_cases)
      case (fail e)
      then show ?thesis using cp t0 made(1) c give_up [of e s2 f0] s1 by (simp add: atomic_copy_def)
    next
      case (written a g q' f)
      have "follow (tree s1) tmp = Found q" using follow_of_locate tmp_at s1 by simp
      then have "q' = q" using written(3) by (auto simp: open_truncate_Inr)
      then have s2: "tree s2 = ?t(q \<mapsto> File f)" using written(4) s1 by simp
      show ?thesis
      proof (cases c)
        case (Inl e)
        then show ?thesis using cp t0 made(1) c give_up [of e s2 f] s2 by (simp add: atomic_copy_def)
      next
        case (Inr u)
        have same: "content f = k" if "follow ?t src = Found a'" "content_at ?t a' = Some k" for a' k
        proof -
          have "follow (tree s1) src = Found a'" using follow_fill_Found [OF q(1) that(1)] s1 by simp
          then have "a = a'" "a' \<noteq> q" using written(1) that(2) q by auto
          then show ?thesis using written(2,5) s1 that(2) Inr \<open>q' = q\<close> by (auto simp: content_at_def)
        qed
        obtain d s3 where d: "persist x tmp dst s2 = (d, s3)" by fastforce
        from x d show ?thesis
        proof (cases rule: persist_cases)
          case (fail e)
          then show ?thesis using cp t0 made(1) c Inr d give_up [of e s3 f] s2 by (simp add: atomic_copy_def)
        next
          case (persisted v)
          then have "s' = s3" "r = Inr ()" using cp t0 made(1) c Inr d by (simp_all add: atomic_copy_def)
          moreover have "rename_tree (volume s2) (?t(q \<mapsto> File f)) tmp dst = Inr (tree s3)"
            using persisted(2) s2 by simp
          ultimately show ?thesis
            using persist_fresh [OF t made(3)] copied same by metis
        qed
      qed
    qed
  qed
qed

section \<open>Copy, then delete\<close>

text \<open>The tree after a complete copy to \<open>b\<close>, up to modification times.\<close>

definition copied_to :: "tree \<Rightarrow> path \<Rightarrow> string \<Rightarrow> tree \<Rightarrow> bool" where
  "copied_to t b c u \<longleftrightarrow> content_at t b = None \<and> content_at u = (content_at t)(b \<mapsto> c)
     \<and> (\<forall>p q. locate u p = Found q \<longrightarrow> q = b \<or> locate t p = Found q)
     \<and> (\<forall>p. locate t p = Vacant b \<longrightarrow> locate u p = Found b)
     \<and> (\<forall>p q. t b = None \<and> locate t p = Found q \<longrightarrow> locate u p = Found q)
     \<and> (\<forall>p nd. t p = Some nd \<and> p \<noteq> b \<and> (\<forall>f. nd \<noteq> File f) \<longrightarrow> u p = Some nd)"

lemma walk_over_link:
  "t b = Some (Link l) \<Longrightarrow> walk False k (t(b \<mapsto> File f)) cur ns = Found r \<Longrightarrow> walk False k t cur ns = Found r"
proof (induction False k "t(b \<mapsto> File f)" cur ns rule: walk.induct)
  case (2 links cur n ns)
  have "cur \<noteq> b" using walk_Cons_Found [OF "2.prems"(2)] by auto
  show ?case
  proof (cases "cur @ [n] = b")
    case True
    then have "ns = []" using "2.prems" walk_Cons_Found [of False links "t(b \<mapsto> File f)" b] \<open>cur \<noteq> b\<close>
      by (cases ns) (auto split: option.splits node.splits if_splits)
    then show ?thesis using "2.prems" True \<open>cur \<noteq> b\<close> by (auto split: option.splits node.splits)
  next
    case False
    then show ?thesis using 2 \<open>cur \<noteq> b\<close> by (auto split: option.splits node.splits if_splits)
  qed
qed simp

lemma located_over_link:
  assumes "same_files (t(b \<mapsto> File f)) u" and "t b = Some (Link l)" and "locate u p = Found b"
  shows "locate t p = Found b"
proof -
  have "locate (t(b \<mapsto> File f)) p = Found b" using assms locate_same_shape [of "t(b \<mapsto> File f)" u p] by (simp add: same_files_def)
  then show ?thesis using walk_over_link [where l = l and b = b and t = t] assms(2) unfolding locate_def by blast
qed

lemma copied_to_put_file:
  assumes "content_at t b = None" and "same_files (t(b \<mapsto> File f)) u"
  shows "copied_to t b (content f) u"
proof -
  have "u p = Some nd" if "t p = Some nd" "p \<noteq> b" "\<forall>f. nd \<noteq> File f" for p nd
  proof -
    have "shape (u p) = shape (Some nd)"
      using assms(2) that(1,2) by (auto simp: same_files_def same_shape_def dest!: spec [of _ p])
    then show ?thesis by (rule shape_eq_cases) (use that(3) in auto)
  qed
  then show ?thesis
    using assms locate_fill_Vacant [of t _ b "File f"] locate_fill_Found [of t b _ _ "File f"] locate_same_shape
    by (auto simp: copied_to_def same_files_def content_at_upd dest: locate_put_file_Found)
qed

lemma copied_to_in_place: "copied_to t b c u \<Longrightarrow> in_place t u"
  by (auto simp: copied_to_def in_place_def map_le_def)

lemma copied_to_removed_copy:
  assumes "copied_to t b c u" and "locate u dst = Found q" and "no_file_at t dst"
  shows "in_place t (u(q := None))"
  using assms by (auto simp: copied_to_def in_place_def map_le_def content_at_upd no_file_at_def)

lemma copied_to_removed_source:
  assumes u: "copied_to t b c u" and a: "locate u src = Found a"
    and same: "\<And>a k. follow t src = Found a \<Longrightarrow> content_at t a = Some k \<Longrightarrow> c = k"
  shows "kept t (u(a := None))"
proof (cases "content_at t a")
  case None
  then have "in_place t (u(a := None))"
    using u by (auto simp: copied_to_def in_place_def map_le_def content_at_upd)
  then show ?thesis by (rule kept_place)
next
  case (Some k)
  then have "a \<noteq> b" using u by (auto simp: copied_to_def)
  then have "locate t src = Found a" using u a by (auto simp: copied_to_def)
  moreover obtain f where "t a = Some (File f)" using content_at_SomeD Some by blast
  ultimately have "c = k" using same Some follow_of_locate by simp
  then show ?thesis using u Some
    by (intro kept_copied [where b = b]) (auto simp: copied_to_def copied_to_in_place [OF u])
qed

lemma remove_file_cases:
  assumes "fs_remove_file p s = (r, s')"
  obtains (fail) e where "r = Inl e" "s' = tick s"
  | (removed) q nd where "r = Inr ()" "locate (tree s) p = Found q" "tree s q = Some nd" "nd \<noteq> Dir"
      "s' = (tick s)\<lparr>tree := (tree s)(q := None)\<rparr>"
  using assms unfolding fs_remove_file_def by (elim mutate_cases) (auto simp: unlink_tree_Inr)

text \<open>The outcomes of a cross-volume move.\<close>

lemma copy_then_delete_cases:
  assumes x: "extern_ok x" and t: "wf_tree (tree s)" and free: "no_file_at (tree s) dst"
    and run: "copy_then_delete x (atomic_copy x) fs_remove_file src dst s = (r, s')"
  obtains (not_copied) f e ctx where "r = Inl (f, no_rollback)" "f = from_io e ctx" "in_place (tree s) (tree s')"
  | (rolled_back) m b c u q where "r = Inl (with_code CopySucceededDeleteFailed m,
        \<lparr>rollback_attempted = True, rollback_outcome = Succeeded, rollback_message = None\<rparr>)"
      "copied_to (tree s) b c u" "locate u dst = Found q" "tree s' = u(q := None)" "in_place (tree s) (tree s')"
      "locate (tree s) dst = Found b \<or> locate (tree s) dst = Vacant b" "tree s b \<noteq> Some Dir"
  | (left_copy) m b c k where "r = Inl (with_code CopySucceededDeleteFailedRollbackFailed m,
        \<lparr>rollback_attempted = True, rollback_outcome = RollbackFailed, rollback_message = Some k\<rparr>)"
      "copied_to (tree s) b c (tree s')" "in_place (tree s) (tree s')"
      "locate (tree s) dst = Found b \<or> locate (tree s) dst = Vacant b" "tree s b \<noteq> Some Dir"
      "\<And>a k. follow (tree s) src = Found a \<Longrightarrow> content_at (tree s) a = Some k \<Longrightarrow> c = k"
  | (moved) b c u a where "r = Inr ()" "copied_to (tree s) b c u" "locate u src = Found a"
      "tree s' = u(a := None)" "kept (tree s) (tree s')" "u a \<noteq> Some Dir" "tree s b \<noteq> Some Dir"
      "locate (tree s) dst = Found b \<or> locate (tree s) dst = Vacant b"
      "\<And>a k. follow (tree s) src = Found a \<Longrightarrow> content_at (tree s) a = Some k \<Longrightarrow> c = k"
      "\<And>l. tree s b = Some (Link l) \<Longrightarrow> a = b \<Longrightarrow> locate (tree s) src = Found b"
proof -
  let ?t = "tree s"
  obtain m s1 where m: "source_mtime src s = (m, s1)" by fastforce
  have s1: "tree s1 = ?t" using source_mtime_state [OF m] by simp
  obtain c s2 where c: "atomic_copy x src dst s1 = (c, s2)" by fastforce
  have t1: "wf_tree (tree s1)" using t s1 by simp
  from x t1 c show ?thesis
  proof (cases rule: atomic_copy_cases)
    case (fail e)
    then show ?thesis using run m c s1 not_copied by (auto simp: copy_then_delete_def)
  next
    case (leftover e n q f)
    then have "in_place ?t (tree s2)" using s1 locate_Vacant [of "tree s1" _ q] by (auto intro!: in_place_update)
    then show ?thesis using run m c leftover(1) not_copied by (auto simp: copy_then_delete_def)
  next
    case (copied v b f)
    have b: "content_at ?t b = None" using copied(3) free s1 locate_Vacant [of ?t dst b] by (auto simp: no_file_at_def)
    let ?s3 = "restore_mtime x dst m s2"
    have s3: "copied_to ?t b (content f) (tree ?s3)"
      using copied_to_put_file [OF b] restore_mtime_law [OF x, of s2 dst m] copied(2) s1 by simp
    have same: "\<And>a k. follow ?t src = Found a \<Longrightarrow> content_at ?t a = Some k \<Longrightarrow> content f = k"
      using copied(5) s1 by simp
    obtain d s4 where d: "fs_remove_file src ?s3 = (d, s4)" by fastforce
    from d show ?thesis
    proof (cases rule: remove_file_cases)
      case (removed q nd)
      then have "r = Inr ()" "s' = s4" using run m c copied(1) d by (simp_all add: copy_then_delete_def Let_def)
      moreover have "same_files (?t(b \<mapsto> File f)) (tree ?s3)"
        using restore_mtime_law [OF x, of s2 dst m] copied(2) s1 by simp
      then have "locate ?t src = Found b" if "?t b = Some (Link l)" "q = b" for l
        using located_over_link [of ?t b f "tree ?s3" l src] removed(2) that by simp
      ultimately show ?thesis
        using moved [OF _ s3 removed(2) _ _ _ _ _ same] removed copied_to_removed_source [OF s3 removed(2) same] copied(3,4) s1
        by simp
    next
      case (fail e)
      let ?msg = "''copy succeeded but delete source '' @ show_path src @ '' failed: '' @ error_text e"
      obtain d' s5 where d': "fs_remove_file dst s4 = (d', s5)" by fastforce
      from d' show ?thesis
      proof (cases rule: remove_file_cases)
        case (fail e')
        have "s' = s5" "r = Inl (with_code CopySucceededDeleteFailedRollbackFailed ?msg,
            \<lparr>rollback_attempted = True, rollback_outcome = RollbackFailed,
             rollback_message = Some (''rollback remove '' @ show_path dst @ '' failed: '' @ error_text e')\<rparr>)"
          using run m c copied(1) d d' \<open>d = Inl e\<close> \<open>d' = Inl e'\<close>
          by (simp_all add: copy_then_delete_def Let_def)
        moreover have "tree s5 = tree ?s3" using fail(2) \<open>s4 = tick ?s3\<close> by simp
        ultimately show ?thesis
          using left_copy [OF _ _ _ _ _ same] s3 copied_to_in_place [OF s3] copied(3,4) s1 by simp
      next
        case (removed q nd)
        have "s' = s5" "r = Inl (with_code CopySucceededDeleteFailed ?msg,
            \<lparr>rollback_attempted = True, rollback_outcome = Succeeded, rollback_message = None\<rparr>)"
          using run m c copied(1) d d' \<open>d = Inl e\<close> removed(1)
          by (simp_all add: copy_then_delete_def Let_def)
        moreover have "locate (tree ?s3) dst = Found q" "tree s5 = (tree ?s3)(q := None)"
          using removed \<open>s4 = tick ?s3\<close> by simp_all
        ultimately show ?thesis
          using rolled_back [OF _ s3] copied_to_removed_copy [OF s3 _ free] copied(3,4) s1 by simp
      qed
    qed
  qed
qed

section \<open>Move\<close>

lemma ensure_parent_dir_step: "ensure_parent d s = (r, s') \<Longrightarrow> dir_step s s'"
proof (cases "path_parent d")
  case (Some parent)
  assume run: "ensure_parent d s = (r, s')"
  obtain b s1 where b: "path_exists parent s = (b, s1)" by fastforce
  have s1: "dir_step s s1" using path_exists_state [OF b] by simp
  obtain c s2 where c: "fs_create_dir_all parent s1 = (c, s2)" by fastforce
  have "s' = s1 \<or> s' = s2"
    using run Some b c by (auto simp: ensure_parent_def split: bool.splits sum.splits)
  then show ?thesis using s1 dir_step_trans [OF s1 fs_create_dir_all_dir_step [OF c]] by auto
qed (simp add: ensure_parent_def dir_step_def)

lemma path_exists_False:
  assumes "wf_tree (tree s)" and "next_probe_answers s" and "path_exists p s = (False, s')"
  shows "follow (tree s) p \<noteq> Found q"
  using path_exists_answers [OF assms(2,3)] entry_at_fails [OF assms(1)] by blast

lemma move_file_cases:
  assumes t: "wf_tree (tree s)" and rel: "next_probe_answers s" and run: "move_file x src dst s = (r, s')"
  obtains (occupied) q where "r = Inl (with_code ConflictDestinationExists
        (''destination already exists; cannot overwrite: '' @ show_path dst), no_rollback)"
      "s' = tick s" "follow (tree s) dst = Found q"
  | (refused) f e ctx where "r = Inl (f, no_rollback)" "f = from_io e ctx" "dir_step s s'"
  | (renamed) s1 u where "r = Inr u" "dir_step s s1" "no_file_at (tree s1) dst"
      "rename_tree (volume s) (tree s1) src dst = Inr (tree s')" "same_env s s'" "\<And>q. follow (tree s) dst \<noteq> Found q"
  | (crossed) s1 where "dir_step s s1" "no_file_at (tree s1) dst"
      "copy_then_delete x (atomic_copy x) fs_remove_file src dst s1 = (r, s')" "\<And>q. follow (tree s) dst \<noteq> Found q"
proof -
  obtain b s1 where b: "path_exists dst s = (b, s1)" by fastforce
  have s1: "s1 = tick s" using path_exists_state [OF b] .
  show ?thesis
  proof (cases b)
    case True
    obtain q nd where "entry_at (tree s) (follow (tree s) dst) = Inr (q, nd)"
      using path_exists_answers [OF rel b] True by blast
    then show ?thesis using occupied [of q] run b True s1
      by (simp add: move_file_def move_file_with_ops_def entry_at_Inr)
  next
    case False
    obtain p s2 where p: "ensure_parent dst s1 = (p, s2)" by fastforce
    have s2: "dir_step s s2"
      using dir_step_trans [OF dir_step_tick [of s]] ensure_parent_dir_step [OF p] s1 by simp
    have gone: "follow (tree s) dst \<noteq> Found q" for q
      using path_exists_False [OF t rel, of dst s1 q] b False by simp
    have free: "no_file_at (tree s2) dst"
    proof (rule no_file_where_stat_fails [OF t])
      show "follow (tree s) dst \<noteq> Found q" for q by (rule gone)
      show "dirs_added (tree s) (tree s2)" using s2 by (simp add: dir_step_def)
    qed
    show ?thesis
    proof (cases p)
      case (Inl f)
      then have "\<exists>e ctx. f = from_io e ctx"
        using p by (auto simp: ensure_parent_def split: option.splits prod.splits bool.splits sum.splits)
      then show ?thesis using Inl refused run b False p s2 by (auto simp: move_file_def move_file_with_ops_def)
    next
      case (Inr v)
      obtain k s3 where k: "fs_rename src dst s2 = (k, s3)" by fastforce
      from k [unfolded fs_rename_def] show ?thesis
      proof (cases rule: mutate_cases)
        case (fail e)
        have "dir_step s s3" using dir_step_trans [OF s2 dir_step_tick] fail(2) by simp
        moreover have "no_file_at (tree s3) dst" using free fail(2) by simp
        ultimately show ?thesis
          using run b False p Inr k fail(1) refused crossed gone
          by (auto simp: move_file_def move_file_with_ops_def split: if_splits)
      next
        case (applied t')
        then have "r = Inr ()" "s' = s3" using run b False p Inr k
          by (simp_all add: move_file_def move_file_with_ops_def)
        moreover have "same_env s s2" using s2 by (simp add: dir_step_def sound_step_def)
        ultimately show ?thesis using renamed [OF _ s2 free _ _ gone] applied(2,3)
          by (simp add: same_env_def)
      qed
    qed
  qed
qed

lemma copy_then_delete_sound:
  assumes x: "extern_ok x" and run: "copy_then_delete x (atomic_copy x) fs_remove_file src dst s = (r, s')"
  shows "sound_step s s'"
proof -
  obtain m s1 where m: "source_mtime src s = (m, s1)" by fastforce
  obtain c s2 where c: "atomic_copy x src dst s1 = (c, s2)" by fastforce
  let ?s3 = "restore_mtime x dst m s2"
  obtain d s4 where d: "fs_remove_file src ?s3 = (d, s4)" by fastforce
  obtain d' s5 where d': "fs_remove_file dst s4 = (d', s5)" by fastforce
  have "s' \<in> {s2, s4, s5}"
    using run m c d d' by (auto simp: copy_then_delete_def Let_def split: sum.splits)
  moreover have "sound_step s s2"
    using source_mtime_state [OF m] atomic_copy_sound [OF x c] sound_step_trans [OF sound_step_tick] by simp
  moreover have "sound_step s2 s4"
    using restore_mtime_law [OF x, of s2 dst m] fs_remove_file_sound [OF d] sound_step_trans by blast
  moreover have "sound_step s4 s5" using fs_remove_file_sound [OF d'] .
  ultimately show ?thesis by (blast intro: sound_step_trans)
qed

lemma move_file_sound:
  assumes x: "extern_ok x" and run: "move_file x src dst s = (r, s')"
  shows "sound_step s s'"
proof -
  obtain b s1 where b: "path_exists dst s = (b, s1)" by fastforce
  obtain p s2 where p: "ensure_parent dst s1 = (p, s2)" by fastforce
  obtain k s3 where k: "fs_rename src dst s2 = (k, s3)" by fastforce
  obtain c s4 where c: "copy_then_delete x (atomic_copy x) fs_remove_file src dst s3 = (c, s4)" by fastforce
  have "s' \<in> {s1, s2, s3, s4}"
    using run b p k c by (auto simp: move_file_def move_file_with_ops_def split: sum.splits bool.splits if_splits)
  moreover have "sound_step s s1" using path_exists_state [OF b] by simp
  moreover have "sound_step s1 s2" using ensure_parent_dir_step [OF p] by (simp add: dir_step_def)
  moreover note fs_rename_sound [OF k] copy_then_delete_sound [OF x c]
  ultimately show ?thesis by (blast intro: sound_step_trans)
qed

section \<open>What an operation keeps\<close>

definition keeps_files :: "os \<Rightarrow> os \<Rightarrow> bool" where
  "keeps_files s s' \<longleftrightarrow> sound_step s s'
     \<and> (wf_tree (tree s) \<longrightarrow> probes_reliable s \<longrightarrow> kept (tree s) (tree s'))"

lemma keeps_files_refl [simp]: "keeps_files s s"
  by (simp add: keeps_files_def)

lemma keeps_files_trans [trans]: "keeps_files s u \<Longrightarrow> keeps_files u v \<Longrightarrow> keeps_files s v"
  unfolding keeps_files_def
  by (metis kept_trans probes_reliable_env sound_step_env sound_step_trans sound_step_wf)

lemma keeps_files_in_place: "sound_step s s' \<Longrightarrow> in_place (tree s) (tree s') \<Longrightarrow> keeps_files s s'"
  by (simp add: keeps_files_def kept_place)

lemma keeps_files_same_tree: "same_env s s' \<Longrightarrow> tree s' = tree s \<Longrightarrow> keeps_files s s'"
  by (simp add: keeps_files_in_place sound_step_def)

lemma dir_step_keeps_files: "dir_step s s' \<Longrightarrow> keeps_files s s'"
  by (simp add: dir_step_def keeps_files_in_place dirs_added_in_place)

lemma kept_rename_tree:
  assumes "wf_tree t" and "no_file_at t dst" and "rename_tree vol t src dst = Inr t'"
  shows "kept t t'"
  using assms(1,3)
proof (rule rename_tree_Inr)
  fix a nd b
  assume b: "locate t dst = Found b \<or> locate t dst = Vacant b"
    and mv: "t' = t \<and> a = b \<or> t' = moved a b t \<and> rename_moves t a nd b"
  have "content_at t b = None" using b assms(2) locate_Vacant [of t dst b] by (auto simp: no_file_at_def)
  then show "kept t t'" using mv kept_rename_moves [OF assms(1)] by auto
qed

lemma move_file_outcome:
  assumes x: "extern_ok x" and t: "wf_tree (tree s)" and rel: "next_probe_answers s"
    and run: "move_file x src dst s = (r, s')"
  shows "kept (tree s) (tree s') \<and> (isl r \<longrightarrow> in_place (tree s) (tree s'))"
  using t rel run
proof (cases rule: move_file_cases)
  case occupied
  then show ?thesis by simp
next
  case refused
  then show ?thesis by (simp add: dir_step_def dirs_added_in_place kept_place)
next
  case (renamed s1 u)
  then have "wf_tree (tree s1)" "in_place (tree s) (tree s1)"
    using t by (auto simp: dir_step_def dirs_added_in_place dest: sound_step_wf)
  then have "kept (tree s) (tree s')"
    using kept_trans [OF kept_place kept_rename_tree] renamed(3,4) by blast
  then show ?thesis using renamed(1) by simp
next
  case (crossed s1)
  then have s1: "wf_tree (tree s1)" "in_place (tree s) (tree s1)"
    using t by (auto simp: dir_step_def dirs_added_in_place dest: sound_step_wf)
  from x s1(1) crossed(2,3) show ?thesis
    by (cases rule: copy_then_delete_cases)
      (use s1(2) in \<open>auto intro: in_place_trans kept_place kept_trans\<close>)
qed

lemma move_file_keeps: "extern_ok x \<Longrightarrow> move_file x src dst s = (r, s') \<Longrightarrow> keeps_files s s'"
  using move_file_sound move_file_outcome probes_reliable_next by (auto simp: keeps_files_def)

lemma make_dir_dir_step: "make_dir d s = (r, s') \<Longrightarrow> dir_step s s'"
proof -
  assume run: "make_dir d s = (r, s')"
  obtain b s1 where b: "path_exists d s = (b, s1)" by fastforce
  obtain i s2 where i: "path_is_dir d s1 = (i, s2)" by fastforce
  obtain c s3 where c: "fs_create_dir_all d s1 = (c, s3)" by fastforce
  have "s' = s2 \<or> s' = s3"
    using run b i c by (auto simp: make_dir_def split: bool.splits sum.splits)
  moreover have "dir_step s s1" using path_exists_state [OF b] by simp
  ultimately show ?thesis
    using dir_step_is_dir [OF i] fs_create_dir_all_dir_step [OF c] dir_step_trans by blast
qed

lemma occupied_state: "occupied p s = (b, s') \<Longrightarrow> tree s' = tree s \<and> same_env s s'"
proof -
  assume run: "occupied p s = (b, s')"
  obtain e s1 where e: "path_exists p s = (e, s1)" by fastforce
  obtain m s2 where m: "fs_symlink_metadata p s1 = (m, s2)" by fastforce
  have "s' = s1 \<or> s' = s2"
    using run e m by (auto simp: occupied_def split: bool.splits sum.splits)
  then show ?thesis
    using path_exists_state [OF e] fs_symlink_metadata_state [OF m] same_env_trans [of s "tick s" "tick (tick s)"]
    by auto
qed

lemma occupied_False:
  assumes t: "wf_tree (tree s)" and rel: "probes_reliable s" and run: "occupied p s = (False, s')"
  shows "follow (tree s) p \<noteq> Found q" and "locate (tree s) p \<noteq> Found q"
proof -
  obtain e s1 where e: "path_exists p s = (e, s1)" by fastforce
  then have ne: "\<not> e" using run by (auto simp: occupied_def split: bool.splits)
  have s1: "s1 = tick s" using path_exists_state [OF e] .
  then show "follow (tree s) p \<noteq> Found q" using path_exists_False [OF t probes_reliable_next [OF rel]] e ne by simp
  have "probes_reliable s1" using rel s1 by (simp add: probes_reliable_def)
  then have "\<exists>e. entry_at (tree s) (locate (tree s) p) = Inl e"
    using run e ne s1 by (auto simp: occupied_def fs_symlink_metadata_reliable split: sum.splits)
  then show "locate (tree s) p \<noteq> Found q"
    using locate_Found [OF t, of p q] by (auto simp: entry_at_def)
qed

lemma copy_new_file:
  assumes t: "wf_tree (tree s)" and free: "\<And>q. follow (tree s) d \<noteq> Found q" and run: "fs_copy a d s = (r, s')"
  shows "in_place (tree s) (tree s')"
  using run
proof (cases rule: copy_cases)
  case (written a' g q f)
  then have "tree s q = None" using free follow_Vacant [of "tree s" d q] by (auto simp: open_truncate_Inr)
  then show ?thesis using written(4) by (simp add: in_place_update)
qed simp

lemma symlink_in_place: "fs_symlink l p s = (r, s') \<Longrightarrow> in_place (tree s) (tree s')"
  unfolding fs_symlink_def by (erule mutate_cases) (auto intro: create_entry_in_place)

lemma hard_link_in_place: "fs_hard_link a b s = (r, s') \<Longrightarrow> in_place (tree s) (tree s')"
  by (erule hard_link_cases) (auto intro!: in_place_update dest: locate_Vacant)

text \<open>The branches of a link item after the two existence checks.\<close>

lemma create_link_cases:
  assumes run: "create_link x src dst k s = (r, s')"
  obtains (unchanged) f where "r = Inl f" "same_env s s'" "tree s' = tree s"
  | (call) s1 s2 m where "occupied dst s = (False, s1)" "tree s2 = tree s" "same_env s s2"
      "k = Symlink \<and> fs_symlink src dst s2 = (m, s') \<or> k = Hardlink \<and> fs_hard_link src dst s2 = (m, s')"
      "isl r = isl m"
  | (copied) s1 s2 c s3 i where "occupied dst s = (False, s1)" "tree s2 = tree s" "same_env s s2" "k = CopyFile"
      "fs_copy src dst s2 = (c, s3)" "s' = (if isl c then s3 else restore_mtime x dst i s3)" "isl r = isl c"
proof -
  obtain b s1 where b: "occupied dst s = (b, s1)" by fastforce
  note s1 = occupied_state [OF b]
  obtain e s2 where e: "path_exists src s1 = (e, s2)" by fastforce
  have s2: "tree s2 = tree s" "same_env s s2"
    using s1 path_exists_state [OF e] same_env_trans [of s s1 "tick s1"] by auto
  show ?thesis
  proof (cases "b \<or> \<not> e")
    case True
    then show ?thesis
      using unchanged run b e s1 s2 by (auto simp: create_link_def split: bool.splits)
  next
    case False
    then have ok: "occupied dst s = (False, s1)" "path_exists src s1 = (True, s2)" using b e by auto
    show ?thesis
    proof (cases k)
      case Symlink
      obtain m s3 where m: "fs_symlink src dst s2 = (m, s3)" by fastforce
      then show ?thesis
        using call [OF ok(1) s2, of m] run ok Symlink by (cases m) (auto simp: create_link_def)
    next
      case Hardlink
      obtain m s3 where m: "fs_hard_link src dst s2 = (m, s3)" by fastforce
      then show ?thesis
        using call [OF ok(1) s2, of m] run ok Hardlink by (cases m) (auto simp: create_link_def)
    next
      case Junction
      then show ?thesis using unchanged s2 run ok by (auto simp: create_link_def)
    next
      case CopyFile
      obtain i s3 where i: "source_mtime src s2 = (i, s3)" by fastforce
      have s3: "tree s3 = tree s" "same_env s s3"
        using source_mtime_state [OF i] s2 same_env_trans [of s s2 "tick s2"] by auto
      obtain c s4 where c: "fs_copy src dst s3 = (c, s4)" by fastforce
      then show ?thesis
        using copied [OF ok(1) s3 CopyFile c, of i] run ok CopyFile i
        by (cases c) (auto simp: create_link_def)
    qed
  qed
qed

lemma same_files_in_place: "same_files t u \<Longrightarrow> in_place t u"
  by (simp add: same_files_def in_place_def)

lemma create_link_sound: "extern_ok x \<Longrightarrow> create_link x src dst k s = (r, s') \<Longrightarrow> sound_step s s'"
proof (erule create_link_cases)
  fix f
  assume "same_env s s'" "tree s' = tree s"
  then show ?thesis by (simp add: sound_step_def)
next
  fix s1 s2 m
  assume s2: "tree s2 = tree s" "same_env s s2"
    and "k = Symlink \<and> fs_symlink src dst s2 = (m, s') \<or> k = Hardlink \<and> fs_hard_link src dst s2 = (m, s')"
  then have "sound_step s2 s'" by (auto dest: fs_symlink_sound fs_hard_link_sound)
  then show ?thesis using s2 sound_step_trans [of s s2 s'] by (simp add: sound_step_def)
next
  fix s1 s2 c s3 i
  assume x: "extern_ok x" and s2: "tree s2 = tree s" "same_env s s2" and c: "fs_copy src dst s2 = (c, s3)"
    and s': "s' = (if isl c then s3 else restore_mtime x dst i s3)"
  have "sound_step s s2" using s2 by (simp add: sound_step_def)
  moreover have "sound_step s2 s3" using fs_copy_sound [OF c] .
  moreover have "sound_step s3 s'" using s' restore_mtime_law [OF x] by simp
  ultimately show ?thesis by (blast intro: sound_step_trans)
qed

lemma create_link_in_place:
  assumes x: "extern_ok x" and t: "wf_tree (tree s)" and rel: "probes_reliable s"
    and run: "create_link x src dst k s = (r, s')"
  shows "in_place (tree s) (tree s')"
  using run
proof (cases rule: create_link_cases)
  case unchanged
  then show ?thesis by simp
next
  case (call s1 s2 m)
  then show ?thesis using symlink_in_place hard_link_in_place by metis
next
  case (copied s1 s2 c s3 i)
  have "in_place (tree s) (tree s3)"
    using copy_new_file [OF _ _ copied(5)] occupied_False(1) [OF t rel copied(1)] copied(2) t by simp
  then show ?thesis
    using copied(6) restore_mtime_law [OF x, of s3 dst i] same_files_in_place in_place_trans by auto
qed

text \<open>The project marker: written to a temporary file and renamed into place.\<close>

lemma write_marker_cases:
  assumes run: "write_marker x d pid s = (r, s')"
  obtains (unchanged) f where "r = Inl f" "same_env s s'" "tree s' = tree s"
  | (identical) u s1 s2 s3 where "r = Inr u" "path_exists d s = (True, s1)" "path_is_file d s1 = (True, s2)"
      "fs_read_to_string d s2 = (Inr (render_marker x pid), s3)" "s' = s3" "\<not> is_blank pid"
  | (no_parent) f s1 where "r = Inl f" "path_exists d s = (False, s1)" "dir_step s s'"
  | (no_temp) f s1 s2 e where "r = Inl f" "path_exists d s = (False, s1)" "dir_step s s2"
      "tempfile_in x ''.astroplan-marker-'' (dest_dir_of d) s2 = (Inl e, s')"
  | (not_written) f s1 s2 tmp s3 e s4 where "r = Inl f" "path_exists d s = (False, s1)" "dir_step s s2"
      "tempfile_in x ''.astroplan-marker-'' (dest_dir_of d) s2 = (Inr tmp, s3)"
      "fs_write tmp (render_marker x pid) s3 = (Inl e, s4)" "s' = drop_temp x tmp s4"
  | (not_persisted) f s1 s2 tmp s3 v s4 e s5 where "r = Inl f" "path_exists d s = (False, s1)" "dir_step s s2"
      "tempfile_in x ''.astroplan-marker-'' (dest_dir_of d) s2 = (Inr tmp, s3)"
      "fs_write tmp (render_marker x pid) s3 = (Inr v, s4)" "persist x tmp d s4 = (Inl e, s5)"
      "s' = drop_temp x tmp s5"
  | (written) u s1 s2 tmp s3 v s4 w where "r = Inr u" "path_exists d s = (False, s1)" "dir_step s s2"
      "tempfile_in x ''.astroplan-marker-'' (dest_dir_of d) s2 = (Inr tmp, s3)"
      "fs_write tmp (render_marker x pid) s3 = (Inr v, s4)" "persist x tmp d s4 = (Inr w, s')" "\<not> is_blank pid"
proof (cases "is_blank pid")
  case True
  then show ?thesis using run unchanged by (auto simp: write_marker_def)
next
  case nonblank: False
  obtain b s1 where b: "path_exists d s = (b, s1)" by fastforce
  have s1: "s1 = tick s" using path_exists_state [OF b] .
  show ?thesis
  proof (cases b)
    case True
    obtain i s2 where i: "path_is_file d s1 = (i, s2)" by fastforce
    obtain t s3 where t: "fs_read_to_string d s2 = (t, s3)" by fastforce
    have env: "same_env s s2" "tree s2 = tree s" "same_env s s3" "tree s3 = tree s"
      using s1 path_is_file_state [OF i] fs_read_state [OF t] by (simp_all add: same_env_def)
    show ?thesis
    proof (cases "i \<and> t = Inr (render_marker x pid)")
      case id: True
      then show ?thesis
        using identical run nonblank b True i t by (auto simp: write_marker_def Let_def)
    next
      case False
      then show ?thesis
        using unchanged run nonblank b True i t env
        by (auto simp: write_marker_def Let_def split: bool.splits sum.splits if_splits)
    qed
  next
    case new: False
    obtain p s2 where p: "(case path_parent d of None \<Rightarrow> (Inr (), s1) | Some parent \<Rightarrow> fs_create_dir_all parent s1) = (p, s2)"
      by fastforce
    have s2: "dir_step s s2"
    proof (rule dir_step_trans [of s s1])
      show "dir_step s s1" using s1 by simp
      show "dir_step s1 s2" using p fs_create_dir_all_dir_step by (auto split: option.splits simp: dir_step_def)
    qed
    note pre = run nonblank b new p
    show ?thesis
    proof (cases p)
      case (Inl e)
      then show ?thesis using no_parent pre s2 by (auto simp: write_marker_def Let_def)
    next
      case p_ok: (Inr u0)
      obtain t s3 where t: "tempfile_in x ''.astroplan-marker-'' (dest_dir_of d) s2 = (t, s3)" by fastforce
      show ?thesis
      proof (cases t)
        case (Inl e)
        then show ?thesis using no_temp [of _ s1 s2 e] pre p_ok s2 t by (auto simp: write_marker_def Let_def)
      next
        case t_ok: (Inr tmp)
        obtain w s4 where w: "fs_write tmp (render_marker x pid) s3 = (w, s4)" by fastforce
        show ?thesis
        proof (cases w)
          case (Inl e)
          then show ?thesis using not_written [of _ s1 s2 tmp s3 e s4] pre p_ok s2 t t_ok w
            by (auto simp: write_marker_def Let_def)
        next
          case w_ok: (Inr v)
          obtain q s5 where q: "persist x tmp d s4 = (q, s5)" by fastforce
          show ?thesis
          proof (cases q)
            case (Inl e)
            then show ?thesis using not_persisted [of _ s1 s2 tmp s3 v s4 e s5] pre p_ok s2 t t_ok w w_ok q
              by (auto simp: write_marker_def Let_def)
          next
            case (Inr u)
            then show ?thesis using written [of _ s1 s2 tmp s3 v s4 u] pre p_ok s2 t t_ok w w_ok q
              by (auto simp: write_marker_def Let_def)
          qed
        qed
      qed
    qed
  qed
qed

lemma write_marker_sound:
  assumes x: "extern_ok x" and run: "write_marker x d pid s = (r, s')"
  shows "sound_step s s'"
  using run
proof (cases rule: write_marker_cases)
  case unchanged
  then show ?thesis by (simp add: sound_step_def)
next
  case identical
  then show ?thesis by (auto dest!: path_exists_state path_is_file_state fs_read_state simp: sound_step_def same_env_def)
next
  case no_parent
  then show ?thesis by (simp add: dir_step_def)
next
  case no_temp
  then show ?thesis using tempfile_in_sound [OF x] sound_step_trans unfolding dir_step_def by blast
next
  case (not_written f s1 s2 tmp s3 e s4)
  then have "sound_step s s2" "sound_step s2 s3" "sound_step s3 s4" "sound_step s4 s'"
    using tempfile_in_sound [OF x] fs_write_sound drop_temp_sound [OF x] by (auto simp: dir_step_def)
  then show ?thesis by (blast intro: sound_step_trans)
next
  case (not_persisted f s1 s2 tmp s3 v s4 e s5)
  then have "sound_step s s2" "sound_step s2 s3" "sound_step s3 s4" "sound_step s4 s5" "sound_step s5 s'"
    using tempfile_in_sound [OF x] fs_write_sound persist_sound [OF x] drop_temp_sound [OF x]
    by (auto simp: dir_step_def)
  then show ?thesis by (blast intro: sound_step_trans)
next
  case (written u s1 s2 tmp s3 v s4 w)
  then have "sound_step s s2" "sound_step s2 s3" "sound_step s3 s4" "sound_step s4 s'"
    using tempfile_in_sound [OF x] fs_write_sound persist_sound [OF x] by (auto simp: dir_step_def)
  then show ?thesis by (blast intro: sound_step_trans)
qed

text \<open>A temporary file after something was written to it.\<close>

lemma temp_written:
  assumes x: "extern_ok x" and tmp: "tempfile_in x pre dir s = (Inr tmp, s1)" and w: "fs_write tmp bytes s1 = (r, s2)"
  obtains q f where "locate (tree s) tmp = Vacant q" "tree s2 = (tree s)(q \<mapsto> File f)"
    "r = Inr () \<longrightarrow> content f = bytes"
  using x tmp
proof (cases rule: tempfile_in_cases)
  case (made p n q)
  then have at: "locate (tree s1) tmp = Found q" "tree s1 = (tree s)(q \<mapsto> empty_file s)"
    using locate_fill_Vacant [of "tree s" tmp q] by simp_all
  then have fol: "follow (tree s1) tmp = Found q" using follow_of_locate by (simp add: empty_file_def)
  from w show ?thesis
  proof (cases rule: write_cases)
    case (fail e)
    then show ?thesis using that [of q] made at by (simp add: empty_file_def)
  next
    case (written q' f)
    then have "q' = q" using fol by (simp add: open_truncate_Inr)
    then show ?thesis using that [of q f] made written at by simp
  qed
qed simp

lemma drop_temp_in_place:
  assumes x: "extern_ok x" and tmp: "locate t tmp = Vacant q" and u: "tree u = t(q \<mapsto> File f)"
  shows "in_place t (tree (drop_temp x tmp u))"
proof -
  have q: "t q = None" using locate_Vacant [OF tmp] by simp
  have "locate (tree u) tmp = Found q" using locate_fill_Vacant [OF tmp] u by simp
  then have "tree (drop_temp x tmp u) = t(q \<mapsto> File f) \<or> tree (drop_temp x tmp u) = t"
    using drop_temp_law(2) [OF x, of tmp u] u q by (auto simp: unlink_tree_Inr)
  then show ?thesis using q in_place_update [of t q "Some (File f)"] by auto
qed

lemma write_marker_in_place:
  assumes x: "extern_ok x" and t: "wf_tree (tree s)" and rel: "probes_reliable s"
    and run: "write_marker x d pid s = (r, s')"
  shows "in_place (tree s) (tree s')"
  using run
proof (cases rule: write_marker_cases)
  case unchanged
  then show ?thesis by simp
next
  case identical
  then show ?thesis by (auto dest!: path_exists_state path_is_file_state fs_read_state)
next
  case no_parent
  then show ?thesis by (simp add: dir_step_def dirs_added_in_place)
next
  case (no_temp f s1 s2 e)
  from x no_temp(4) show ?thesis
    by (cases rule: tempfile_in_cases) (use no_temp(3) in \<open>auto simp: dir_step_def dirs_added_in_place\<close>)
next
  case (not_written f s1 s2 tmp s3 e s4)
  from x not_written(4,5) obtain q g where q: "locate (tree s2) tmp = Vacant q" "tree s4 = (tree s2)(q \<mapsto> File g)"
    by (rule temp_written)
  then show ?thesis
    using not_written(3,6) in_place_trans [OF dirs_added_in_place drop_temp_in_place [OF x q]]
    by (auto simp: dir_step_def)
next
  case (not_persisted f s1 s2 tmp s3 v s4 e s5)
  from x not_persisted(4,5) obtain q g where q: "locate (tree s2) tmp = Vacant q" "tree s4 = (tree s2)(q \<mapsto> File g)"
    by (rule temp_written)
  from x not_persisted(6) have "tree s5 = tree s4" by (cases rule: persist_cases) auto
  then show ?thesis
    using not_persisted(3,7) in_place_trans [OF dirs_added_in_place drop_temp_in_place [OF x q(1)], of _ s5 g] q(2)
    by (auto simp: dir_step_def)
next
  case (written u s1 s2 tmp s3 v s4 w)
  from x written(4,5) obtain q g where q: "locate (tree s2) tmp = Vacant q" "tree s4 = (tree s2)(q \<mapsto> File g)"
    by (rule temp_written)
  have s2: "wf_tree (tree s2)" "dirs_added (tree s) (tree s2)"
    using written(3) t by (auto simp: dir_step_def dest: sound_step_wf)
  have free: "no_file_at (tree s2) d"
    using no_file_where_stat_fails [OF t _ s2(2)] path_exists_False [OF t probes_reliable_next [OF rel] written(2)] by blast
  from x written(6) obtain b where b: "tree s' = (tree s2)(b \<mapsto> File g)"
      "locate (tree s2) d = Found b \<or> locate (tree s2) d = Vacant b"
    by (cases rule: persist_cases) (use q persist_fresh [OF s2(1) q(1)] in \<open>metis sum.distinct(1)\<close>)+
  then have "content_at (tree s2) b = None"
    using free locate_Vacant [of "tree s2" d b] by (auto simp: no_file_at_def)
  then show ?thesis using b(1) s2(2) in_place_trans [OF dirs_added_in_place in_place_update] by simp
qed

section \<open>Delete and trash\<close>

lemma delete_file_sound: "delete_file p c s = (r, s') \<Longrightarrow> sound_step s s'"
  by (auto simp: delete_file_def Let_def split: if_splits prod.splits sum.splits dest: fs_remove_file_sound)

lemma trash_file_cases:
  assumes run: "trash_file x p fb s = (r, s')"
  obtains (trashed) u where "trash_delete x p s = (Inr u, s')" "r = Inr trash_result_default"
  | (no_fallback) e f where "trash_delete x p s = (Inl e, s')" "fb = None" "r = Inl (f, trash_result_default)"
      "code f = classify_trash_error_message x e"
  | (archived) e s1 d v m where "trash_delete x p s = (Inl e, s1)" "fb = Some d"
      "archive_file x p d s1 = (Inr v, s')"
      "r = Inr (trash_result_default\<lparr>rollback_message := Some m, destination_used := ''archive''\<rparr>)"
  | (both_failed) e s1 d m g where "trash_delete x p s = (Inl e, s1)" "fb = Some d"
      "archive_file x p d s1 = (Inl (g, m), s')" "isl r" "code (fst (projl r)) = TrashUnavailable"
proof -
  obtain t s1 where t: "trash_delete x p s = (t, s1)" by fastforce
  show ?thesis
  proof (cases t)
    case (Inr u)
    then show ?thesis using trashed run t by (auto simp: trash_file_def)
  next
    case (Inl e)
    show ?thesis
    proof (cases fb)
      case None
      then show ?thesis using no_fallback run t Inl
        by (auto simp: trash_file_def classify_trash_error_def)
    next
      case (Some d)
      obtain a s2 where a: "archive_file x p d s1 = (a, s2)" by fastforce
      show ?thesis
      proof (cases a)
        case (Inr v)
        then show ?thesis using archived run t Inl Some a by (auto simp: trash_file_def)
      next
        case fail: (Inl gm)
        obtain g m where gm: "gm = (g, m)" by fastforce
        have s': "s' = s2" and r: "isl r" "code (fst (projl r)) = TrashUnavailable"
          using run t Inl Some a fail gm by (auto simp: trash_file_def)
        show ?thesis using both_failed [of e s1 d g m] t Inl Some a fail gm s' r by simp
      qed
    qed
  qed
qed

end
