(* ===== verification/Run.thy ===== *)
theory Run
  imports Freshness RetryQueue FileOpsLaws
begin

text \<open>
  The plan executor (\<open>crates/fs/executor/src/run\<close>): item descriptions, dispatch of an action to its
  file primitive, the gates of one item, the forward pass, the draining of retries and the closing
  of the queue. The state is explicit: the operating system, the state shared with other tasks, what
  those tasks will do (a finite schedule, a batch of actions before each access to the shared state),
  the counters and the log of callbacks.
\<close>

section \<open>Items\<close>

datatype executor_action =
    Move
  | Archive string
  | Trash "string option"
  | Delete
  | Catalogue
  | Mkdir
  | MakeLink materialization
  | WriteManifest string
  | NoOp

record executor_item =
  item_id :: string
  plan_id :: string
  action :: executor_action
  source_path :: "string option"
  destination_path :: "string option"
  library_root :: "string option"
  destination_root :: "string option"
  cas_snapshot_of :: cas_snapshot
  is_protected :: bool
  requires_destructive_confirm :: bool
  destructive_confirmed :: bool
  current_state :: string

section \<open>Counters, events, outcomes\<close>

record terminal_counts =
  succeeded :: nat
  failed :: nat
  skipped :: nat
  cancelled_count :: nat

definition zero_counts :: terminal_counts where
  "zero_counts = \<lparr>succeeded = 0, failed = 0, skipped = 0, cancelled_count = 0\<rparr>"

definition terminal_state :: "terminal_counts \<Rightarrow> bool \<Rightarrow> string" where
  "terminal_state c cancelled_flag =
    (if cancelled_flag then ''cancelled''
     else if failed c = 0 \<and> succeeded c > 0 then ''applied''
     else if succeeded c = 0 \<and> failed c > 0 then ''failed''
     else if succeeded c > 0 \<and> failed c > 0 then ''partially_applied''
     else ''failed'')"

record item_progress_event =
  event_item :: string
  prior_state :: string
  new_state :: string
  at_time :: int
  failure :: "plan_item_failure option"
  event_rollback_attempted :: bool
  event_rollback_outcome :: rollback_outcome
  event_rollback_message :: "string option"
  audit_reason :: "string option"

definition terminal_event ::
  "string \<Rightarrow> string \<Rightarrow> string \<Rightarrow> int \<Rightarrow> plan_item_failure option \<Rightarrow> string option \<Rightarrow> item_progress_event" where
  "terminal_event iid prior new now f reason =
    \<lparr>event_item = iid, prior_state = prior, new_state = new, at_time = now, failure = f,
     event_rollback_attempted = False, event_rollback_outcome = NotApplicable,
     event_rollback_message = None, audit_reason = reason\<rparr>"

datatype apply_outcome =
    Completed terminal_counts
  | Cancelled terminal_counts
  | Paused string terminal_counts

text \<open>
  What is seen from outside: the two callbacks, cancel requests and the answers to retry requests, and
  (for the accounting of retries only) the moment a drained id is executed again.
\<close>

datatype log_entry =
    Start string
  | Progress item_progress_event
  | CancelRequested
  | RetryReply string bool
  | Redo string

section \<open>Dispatch\<close>

type_synonym op_error = "plan_item_failure \<times> bool \<times> rollback_outcome \<times> string option"

record resolved_item_paths =
  source :: "string option"
  destination :: "string option"
  archive_destination :: "string option"

definition require_resolved_path :: "string option \<Rightarrow> string \<Rightarrow> op_error + string" where
  "require_resolved_path p label =
    (case p of
       Some q \<Rightarrow> Inr q
     | None \<Rightarrow> Inl (with_code PathInvalid (label @ '' path is not set on this plan item''), False, NotApplicable, None))"

definition with_rollback :: "plan_item_failure \<times> 'r move_result_scheme \<Rightarrow> op_error" where
  "with_rollback e = (case e of (f, r) \<Rightarrow> (f, rollback_attempted r, rollback_outcome r, rollback_message r))"

definition without_rollback :: "plan_item_failure \<Rightarrow> op_error" where
  "without_rollback f = (f, False, NotApplicable, None)"

definition map_error :: "('e \<Rightarrow> 'f) \<Rightarrow> ('e + 'a) \<times> os \<Rightarrow> ('f + unit) \<times> os" where
  "map_error f r = (case r of (Inl e, s) \<Rightarrow> (Inl (f e), s) | (Inr _, s) \<Rightarrow> (Inr (), s))"

definition execute_item ::
  "extern \<Rightarrow> executor_item \<Rightarrow> resolved_item_paths \<Rightarrow> os \<Rightarrow> (op_error + unit) \<times> os" where
  "execute_item x item paths s =
    (case action item of
       NoOp \<Rightarrow> (Inr (), s)
     | Move \<Rightarrow>
        (case require_resolved_path (source paths) ''source'' of Inl e \<Rightarrow> (Inl e, s) | Inr src \<Rightarrow>
         (case require_resolved_path (destination paths) ''destination'' of Inl e \<Rightarrow> (Inl e, s) | Inr dst \<Rightarrow>
          map_error with_rollback (move_file x (os_path src) (os_path dst) s)))
     | Archive _ \<Rightarrow>
        (case require_resolved_path (source paths) ''source'' of Inl e \<Rightarrow> (Inl e, s) | Inr src \<Rightarrow>
         (case require_resolved_path (archive_destination paths) ''archive destination'' of Inl e \<Rightarrow> (Inl e, s) | Inr dst \<Rightarrow>
          map_error with_rollback (archive_file x (os_path src) (os_path dst) s)))
     | Trash _ \<Rightarrow>
        (case require_resolved_path (source paths) ''source'' of Inl e \<Rightarrow> (Inl e, s) | Inr src \<Rightarrow>
          map_error with_rollback (trash_file x (os_path src) (map_option os_path (archive_destination paths)) s))
     | Delete \<Rightarrow>
        (case require_resolved_path (source paths) ''source'' of Inl e \<Rightarrow> (Inl e, s) | Inr src \<Rightarrow>
          map_error (\<lambda>(f, r). (f, delete_rollback_attempted r, delete_rollback_outcome r, None))
            (delete_file (os_path src) (destructive_confirmed item) s))
     | Catalogue \<Rightarrow> map_error without_rollback (catalogue_noop s)
     | Mkdir \<Rightarrow>
        (case require_resolved_path (destination paths) ''destination'' of Inl e \<Rightarrow> (Inl e, s) | Inr dst \<Rightarrow>
          map_error without_rollback (make_dir (os_path dst) s))
     | MakeLink k \<Rightarrow>
        (case require_resolved_path (source paths) ''source'' of Inl e \<Rightarrow> (Inl e, s) | Inr src \<Rightarrow>
         (case require_resolved_path (destination paths) ''destination'' of Inl e \<Rightarrow> (Inl e, s) | Inr dst \<Rightarrow>
          map_error without_rollback (create_link x (os_path src) (os_path dst) k s)))
     | WriteManifest pid \<Rightarrow>
        (case require_resolved_path (destination paths) ''destination'' of Inl e \<Rightarrow> (Inl e, s) | Inr dst \<Rightarrow>
          map_error without_rollback (write_marker x (os_path dst) pid s)))"

section \<open>Path resolution\<close>

definition resolve_side ::
  "(string \<Rightarrow> string) \<Rightarrow> string option \<Rightarrow> string option \<Rightarrow> os \<Rightarrow> (plan_item_failure + string option) \<times> os" where
  "resolve_side clean p root s =
    (case p of
       None \<Rightarrow> (Inr None, s)
     | Some path \<Rightarrow>
        (case root of
           Some r \<Rightarrow>
             (case resolve_and_validate clean r path s of
                (Inl f, s) \<Rightarrow> (Inl f, s)
              | (Inr q, s) \<Rightarrow> (Inr (Some q), s))
         | None \<Rightarrow>
             (case resolve_unrooted clean path of
                Inl e \<Rightarrow> (Inl (containment_failure e), s)
              | Inr q \<Rightarrow> (Inr (Some q), s))))"

definition archive_destination_of :: "executor_action \<Rightarrow> string option" where
  "archive_destination_of a = (case a of Archive d \<Rightarrow> Some d | Trash d \<Rightarrow> d | _ \<Rightarrow> None)"

definition option_or :: "'a option \<Rightarrow> 'a option \<Rightarrow> 'a option" where
  "option_or a b = (case a of Some v \<Rightarrow> Some v | None \<Rightarrow> b)"

definition resolve_item_paths ::
  "(string \<Rightarrow> string) \<Rightarrow> executor_item \<Rightarrow> os \<Rightarrow> (plan_item_failure + resolved_item_paths) \<times> os" where
  "resolve_item_paths clean item s =
    (case resolve_side clean (source_path item) (library_root item) s of
       (Inl f, s) \<Rightarrow> (Inl f, s)
     | (Inr src, s) \<Rightarrow>
        (case resolve_side clean (destination_path item) (option_or (destination_root item) (library_root item)) s of
           (Inl f, s) \<Rightarrow> (Inl f, s)
         | (Inr dst, s) \<Rightarrow>
            (case resolve_side clean (archive_destination_of (action item)) (library_root item) s of
               (Inl f, s) \<Rightarrow> (Inl f, s)
             | (Inr arc, s) \<Rightarrow> (Inr \<lparr>source = src, destination = dst, archive_destination = arc\<rparr>, s))))"

section \<open>The state of a run\<close>

datatype task_action = RequestCancel | RequestSkip string | RequestRetry string

record shared =
  cancel_flag :: bool
  skip_set :: "string list"
  retries :: retry_queue

record run_state =
  sys :: os
  shared :: shared
  schedule :: "task_action list list"
  counts :: terminal_counts
  log :: "log_entry list"

definition emit :: "log_entry \<Rightarrow> run_state \<Rightarrow> run_state" where
  "emit e st = st\<lparr>log := log st @ [e]\<rparr>"

definition act :: "task_action \<Rightarrow> run_state \<Rightarrow> run_state" where
  "act a st =
    (case a of
       RequestCancel \<Rightarrow> emit CancelRequested (st\<lparr>shared := (shared st)\<lparr>cancel_flag := True\<rparr>\<rparr>)
     | RequestSkip k \<Rightarrow> st\<lparr>shared := (shared st)\<lparr>skip_set := skip_insert k (skip_set (shared st))\<rparr>\<rparr>
     | RequestRetry k \<Rightarrow>
        (case rq_push k (retries (shared st)) of
           (ok, q) \<Rightarrow> emit (RetryReply k ok) (st\<lparr>shared := (shared st)\<lparr>retries := q\<rparr>\<rparr>)))"

text \<open>Other tasks run before an access to the shared state: the next batch of the schedule.\<close>

definition interfere :: "run_state \<Rightarrow> run_state" where
  "interfere st =
    (case schedule st of
       [] \<Rightarrow> st
     | as # rest \<Rightarrow> fold act as (st\<lparr>schedule := rest\<rparr>))"

definition is_cancelled :: "run_state \<Rightarrow> bool \<times> run_state" where
  "is_cancelled st = (let st = interfere st in (cancel_flag (shared st), st))"

definition take_skip :: "string \<Rightarrow> run_state \<Rightarrow> bool \<times> run_state" where
  "take_skip k st =
    (let st = interfere st
     in case skip_take k (skip_set (shared st)) of
         (b, xs) \<Rightarrow> (b, st\<lparr>shared := (shared st)\<lparr>skip_set := xs\<rparr>\<rparr>))"

definition update_retries :: "(retry_queue \<Rightarrow> 'r \<times> retry_queue) \<Rightarrow> run_state \<Rightarrow> 'r \<times> run_state" where
  "update_retries f st =
    (case f (retries (shared st)) of
       (r, q) \<Rightarrow> (r, st\<lparr>shared := (shared st)\<lparr>retries := q\<rparr>\<rparr>))"

definition orphan_ids :: "string list \<Rightarrow> run_state \<Rightarrow> run_state" where
  "orphan_ids ids st = snd (update_retries (\<lambda>q. ((), rq_orphan ids q)) st)"

section \<open>One item\<close>

datatype item_outcome = Continue | Pause string

definition count_failed :: "run_state \<Rightarrow> run_state" where
  "count_failed st = st\<lparr>counts := (counts st)\<lparr>failed := Suc (failed (counts st))\<rparr>\<rparr>"

definition count_succeeded :: "run_state \<Rightarrow> run_state" where
  "count_succeeded st = st\<lparr>counts := (counts st)\<lparr>succeeded := Suc (succeeded (counts st))\<rparr>\<rparr>"

definition count_skipped :: "run_state \<Rightarrow> run_state" where
  "count_skipped st = st\<lparr>counts := (counts st)\<lparr>skipped := Suc (skipped (counts st))\<rparr>\<rparr>"

definition report :: "executor_item \<Rightarrow> string \<Rightarrow> string \<Rightarrow> plan_item_failure option \<Rightarrow> string option \<Rightarrow> run_state \<Rightarrow> run_state" where
  "report item prior new f reason st =
    emit (Progress (terminal_event (item_id item) prior new (clock (sys st)) f reason)) st"

definition pause_or_continue :: "bool \<Rightarrow> string \<Rightarrow> item_outcome" where
  "pause_or_continue pausing reason = (if pausing then Pause reason else Continue)"

definition run_operation :: "extern \<Rightarrow> executor_item \<Rightarrow> resolved_item_paths \<Rightarrow> run_state \<Rightarrow> item_outcome \<times> run_state" where
  "run_operation x item paths st =
    (case execute_item x item paths (sys st) of
       (Inr _, s) \<Rightarrow>
         (Continue, count_succeeded (report item ''applying'' ''succeeded'' None None (st\<lparr>sys := s\<rparr>)))
     | (Inl (f, attempted, outcome, msg), s) \<Rightarrow>
         (pause_or_continue (triggers_pause (code f)) (failure_code_as_str (code f)),
          count_failed (emit (Progress
             \<lparr>event_item = item_id item, prior_state = ''applying'', new_state = ''failed'', at_time = clock s,
              failure = Some f, event_rollback_attempted = attempted, event_rollback_outcome = outcome,
              event_rollback_message = msg, audit_reason = None\<rparr>) (st\<lparr>sys := s\<rparr>))))"

definition process_single_item ::
  "extern \<Rightarrow> (string \<Rightarrow> string) \<Rightarrow> executor_item \<Rightarrow> string \<Rightarrow> bool \<Rightarrow> run_state \<Rightarrow> item_outcome \<times> run_state" where
  "process_single_item x clean item gate_prior_state emit_start st =
    (if requires_destructive_confirm item \<and> \<not> destructive_confirmed item
     then (Continue, count_failed (report item gate_prior_state ''refused''
            (Some (with_code DestructiveUnconfirmed
               (''item '' @ item_id item @ '' requires destructive confirmation (action is destructive); confirm before applying'')))
            (Some ''destructive_unconfirmed'') st))
     else
       let st = (if emit_start then emit (Start (item_id item)) st else st)
       in case resolve_item_paths clean item (sys st) of
           (Inl gate_failure, s) \<Rightarrow>
             (pause_or_continue (triggers_pause (code gate_failure)) ''path.invalid'',
              count_failed (report item ''applying'' ''refused'' (Some gate_failure)
                (Some (failure_code_as_str (code gate_failure))) (st\<lparr>sys := s\<rparr>)))
         | (Inr paths, s) \<Rightarrow>
            (case (case source paths of
                     None \<Rightarrow> (Inr (), s)
                   | Some src \<Rightarrow> check_cas x (os_path src) (cas_snapshot_of item) s) of
               (Inl stale_failure, s) \<Rightarrow>
                 (pause_or_continue (triggers_pause (code stale_failure)) (failure_code_as_str (code stale_failure)),
                  count_failed (report item ''applying'' ''stale'' (Some stale_failure) (Some ''stale'') (st\<lparr>sys := s\<rparr>)))
             | (Inr _, s) \<Rightarrow>
                 (if is_protected item \<and> action item \<notin> {NoOp, Catalogue}
                  then (Continue, count_failed (report item ''applying'' ''failed''
                         (Some (with_code ProtectedSource (''item '' @ item_id item @ '' is protected by source policy'')))
                         (Some ''protected'') (st\<lparr>sys := s\<rparr>)))
                  else run_operation x item paths (st\<lparr>sys := s\<rparr>))))"

section \<open>The loop\<close>

type_synonym item_index = "string \<Rightarrow> executor_item option"

text \<open>Collected from the items in order, so the last item of an id is the one found.\<close>

definition item_by_id :: "executor_item list \<Rightarrow> item_index" where
  "item_by_id items = map_of (rev (map (\<lambda>i. (item_id i, i)) items))"

datatype drain_outcome = DrainContinue | DrainCancelled | DrainPause string

fun redo_drained ::
  "extern \<Rightarrow> (string \<Rightarrow> string) \<Rightarrow> item_index \<Rightarrow> string list \<Rightarrow> run_state \<Rightarrow> drain_outcome \<times> run_state" where
  "redo_drained x clean index [] st = (DrainContinue, st)"
| "redo_drained x clean index (retry_id # remaining) st =
    (case is_cancelled st of
       (True, st) \<Rightarrow> (DrainCancelled, orphan_ids (retry_id # remaining) st)
     | (False, st) \<Rightarrow>
        (case index retry_id of
           None \<Rightarrow> redo_drained x clean index remaining (orphan_ids [retry_id] st)
         | Some retry_item \<Rightarrow>
            (case process_single_item x clean retry_item ''applying'' False (emit (Redo retry_id) st) of
               (Pause reason, st) \<Rightarrow> (DrainPause reason, orphan_ids remaining st)
             | (Continue, st) \<Rightarrow> redo_drained x clean index remaining st)))"

definition drain_retries ::
  "extern \<Rightarrow> (string \<Rightarrow> string) \<Rightarrow> (string list \<Rightarrow> string list) \<Rightarrow> item_index \<Rightarrow> run_state \<Rightarrow> drain_outcome \<times> run_state" where
  "drain_retries x clean shuffle index st =
    (case update_retries (rq_drain_all shuffle) (interfere st) of
       (drained, st) \<Rightarrow> redo_drained x clean index drained st)"

definition already_terminal :: "executor_item \<Rightarrow> bool" where
  "already_terminal item \<longleftrightarrow> current_state item \<in> {''succeeded'', ''skipped'', ''cancelled'', ''failed''}"

datatype pass_outcome = PassDone | PassCancelled | PassPaused string

fun forward_pass ::
  "extern \<Rightarrow> (string \<Rightarrow> string) \<Rightarrow> (string list \<Rightarrow> string list) \<Rightarrow> item_index \<Rightarrow> executor_item list \<Rightarrow> run_state
   \<Rightarrow> pass_outcome \<times> run_state" where
  "forward_pass x clean shuffle index [] st = (PassDone, st)"
| "forward_pass x clean shuffle index (item # items) st =
    (if already_terminal item then forward_pass x clean shuffle index items st
     else case is_cancelled st of
         (True, st) \<Rightarrow> (PassCancelled, st)
       | (False, st) \<Rightarrow>
          (case take_skip (item_id item) st of
             (True, st) \<Rightarrow>
               forward_pass x clean shuffle index items
                 (count_skipped (report item ''pending'' ''skipped'' None None st))
           | (False, st) \<Rightarrow>
              (case process_single_item x clean item ''pending'' True st of
                 (Pause reason, st) \<Rightarrow> (PassPaused reason, st)
               | (Continue, st) \<Rightarrow>
                  (case drain_retries x clean shuffle index st of
                     (DrainContinue, st) \<Rightarrow> forward_pass x clean shuffle index items st
                   | (DrainCancelled, st) \<Rightarrow> (PassCancelled, st)
                   | (DrainPause reason, st) \<Rightarrow> (PassPaused reason, st)))))"

text \<open>
  Closing the queue. The loop ends because every round either uses up a batch of the other tasks'
  actions or leaves the queue empty for good.
\<close>

definition queue_size :: "run_state \<Rightarrow> nat" where
  "queue_size st = (case queue (retries (shared st)) of Some (k # ids) \<Rightarrow> 1 | _ \<Rightarrow> 0)"

definition run_measure :: "run_state \<Rightarrow> nat" where
  "run_measure st = length (schedule st) + queue_size st"

lemma schedule_act [simp]: "schedule (act a st) = schedule st"
  by (auto simp: act_def emit_def split: task_action.splits prod.splits)

lemma schedule_fold_act [simp]: "schedule (fold act as st) = schedule st"
  by (induction as arbitrary: st) simp_all

lemma schedule_interfere [simp]: "schedule (interfere st) = tl (schedule st)"
  by (simp add: interfere_def split: list.splits)

lemma queue_size_le: "queue_size st \<le> 1"
  by (simp add: queue_size_def split: option.splits list.splits)

lemma run_measure_interfere: "run_measure (interfere st) \<le> run_measure st"
proof (cases "schedule st")
  case Nil
  then show ?thesis by (simp add: interfere_def)
next
  case (Cons a rest)
  then show ?thesis using queue_size_le [of "interfere st"] by (simp add: run_measure_def)
qed

lemma run_measure_shared:
  "run_measure (emit e st) = run_measure st" "run_measure (st\<lparr>sys := s\<rparr>) = run_measure st"
  "run_measure (count_failed st) = run_measure st" "run_measure (count_succeeded st) = run_measure st"
  "run_measure (report item p n f r st) = run_measure st" "run_measure (orphan_ids ids st) = run_measure st"
  by (simp_all add: run_measure_def queue_size_def emit_def count_failed_def count_succeeded_def report_def
      orphan_ids_def update_retries_def rq_orphan_def)

text \<open>One item touches neither the shared state nor the schedule.\<close>

lemma run_operation_shared:
  "run_operation x item paths st = (r, st') \<Longrightarrow> shared st' = shared st \<and> schedule st' = schedule st"
  by (auto simp: run_operation_def count_failed_def count_succeeded_def emit_def report_def
      split: prod.splits sum.splits)

lemma process_shared:
  "process_single_item x clean item prior start st = (r, st') \<Longrightarrow>
     shared st' = shared st \<and> schedule st' = schedule st"
  by (auto simp: process_single_item_def Let_def count_failed_def emit_def report_def
      split: if_splits prod.splits sum.splits dest!: run_operation_shared)

lemma run_measure_process:
  "process_single_item x clean item prior start st = (r, st') \<Longrightarrow> run_measure st' = run_measure st"
  by (drule process_shared) (simp add: run_measure_def queue_size_def)

lemma is_cancelled_measure: "is_cancelled st = (b, st') \<Longrightarrow> run_measure st' \<le> run_measure st"
  using run_measure_interfere [of st] by (auto simp: is_cancelled_def Let_def)

lemma redo_drained_measure:
  "redo_drained x clean index ids st = (r, st') \<Longrightarrow> run_measure st' \<le> run_measure st"
proof (induction x clean index ids st arbitrary: r st' rule: redo_drained.induct)
  case (2 x clean index k ids st)
  obtain b s1 where b: "is_cancelled st = (b, s1)" by fastforce
  note le = is_cancelled_measure [OF b]
  show ?case
  proof (cases b)
    case True
    then show ?thesis using "2.prems" b le by (auto simp: run_measure_shared)
  next
    case False
    then have bF: "b = False" by simp
    show ?thesis
    proof (cases "index k")
      case None
      have "redo_drained x clean index ids (orphan_ids [k] s1) = (r, st')"
        using "2.prems" b False None by simp
      from "2.IH"(1) [OF b [symmetric] bF None this] show ?thesis
        using le by (simp add: run_measure_shared)
    next
      case (Some item)
      obtain o' s2 where p: "process_single_item x clean item ''applying'' False (emit (Redo k) s1) = (o', s2)"
        by fastforce
      have le2: "run_measure s2 \<le> run_measure st"
        using run_measure_process [OF p] le by (simp add: run_measure_shared)
      show ?thesis
      proof (cases o')
        case Continue
        have "redo_drained x clean index ids s2 = (r, st')"
          using "2.prems" b False Some p Continue by simp
        from "2.IH"(2) [OF b [symmetric] bF Some p [symmetric] Continue this] show ?thesis
          using le2 by simp
      next
        case (Pause reason)
        then show ?thesis using "2.prems" b False Some p le2 by (auto simp: run_measure_shared)
      qed
    qed
  qed
qed simp

lemma drain_retries_measure:
  assumes "rq_close_if_empty (retries (shared (interfere st))) = (False, q)"
    and "drain_retries x clean shuffle index (interfere st) = (r, st')"
  shows "run_measure st' < run_measure st"
proof -
  let ?s2 = "interfere (interfere st)"
  obtain ids s3 where d: "update_retries (rq_drain_all shuffle) ?s2 = (ids, s3)" by fastforce
  have le: "run_measure st' \<le> run_measure s3"
    using assms(2) d redo_drained_measure by (auto simp: drain_retries_def)
  have s3: "run_measure s3 = length (schedule st) - 2"
    using d by (auto simp: update_retries_def rq_drain_all_def run_measure_def queue_size_def split: option.splits)
  have "run_measure s3 < run_measure st"
  proof (cases "schedule st")
    case Nil
    then have "interfere st = st" by (simp add: interfere_def)
    then have "queue_size st = 1"
      using assms(1) by (auto simp: rq_close_if_empty_def queue_size_def split: option.splits list.splits)
    then show ?thesis using s3 Nil by (simp add: run_measure_def)
  next
    case (Cons b bs)
    have "length (schedule st) \<le> run_measure st" by (simp add: run_measure_def)
    then show ?thesis using s3 Cons by simp
  qed
  then show ?thesis using le by simp
qed

function close_loop ::
  "extern \<Rightarrow> (string \<Rightarrow> string) \<Rightarrow> (string list \<Rightarrow> string list) \<Rightarrow> item_index \<Rightarrow> run_state
   \<Rightarrow> drain_outcome \<times> run_state" where
  "close_loop x clean shuffle index st =
    (let st1 = interfere st
     in case rq_close_if_empty (retries (shared st1)) of
         (True, q) \<Rightarrow> (DrainContinue, st1\<lparr>shared := (shared st1)\<lparr>retries := q\<rparr>\<rparr>)
       | (False, q) \<Rightarrow>
          (case drain_retries x clean shuffle index st1 of
             (DrainContinue, st2) \<Rightarrow> close_loop x clean shuffle index st2
           | (r, st2) \<Rightarrow> (r, st2)))"
  by pat_completeness auto
termination
  by (relation "measure (\<lambda>(x, clean, shuffle, index, st). run_measure st)")
    (auto intro: drain_retries_measure [OF sym sym])

declare close_loop.simps [simp del]

definition drive_plan ::
  "extern \<Rightarrow> (string \<Rightarrow> string) \<Rightarrow> (string list \<Rightarrow> string list) \<Rightarrow> executor_item list \<Rightarrow> run_state
   \<Rightarrow> apply_outcome \<times> run_state" where
  "drive_plan x clean shuffle items st =
    (let index = item_by_id items
     in case forward_pass x clean shuffle index items st of
         (PassCancelled, st) \<Rightarrow> (Cancelled (counts st), st)
       | (PassPaused reason, st) \<Rightarrow> (Paused reason (counts st), st)
       | (PassDone, st) \<Rightarrow>
          (case close_loop x clean shuffle index st of
             (DrainContinue, st) \<Rightarrow> (Completed (counts st), st)
           | (DrainCancelled, st) \<Rightarrow> (Cancelled (counts st), st)
           | (DrainPause reason, st) \<Rightarrow> (Paused reason (counts st), st)))"

definition execute_plan ::
  "extern \<Rightarrow> (string \<Rightarrow> string) \<Rightarrow> (string list \<Rightarrow> string list) \<Rightarrow> executor_item list \<Rightarrow> run_state
   \<Rightarrow> apply_outcome \<times> run_state" where
  "execute_plan x clean shuffle items st =
    (case drive_plan x clean shuffle items (st\<lparr>counts := zero_counts\<rparr>) of
       (outcome, st) \<Rightarrow>
         (outcome, snd (update_retries (\<lambda>q. ((), rq_close shuffle q)) (interfere st))))"

end
