(* ===== verification/RunLaws.thy ===== *)
theory RunLaws
  imports Run
begin

text \<open>
  Laws of a run. The locale \<open>run_invariant\<close> is the contract between the loop and what is claimed of
  it: an invariant of the run's state, relative to the ids drained and not yet redone, and a predicate on
  the reasons of a pause, kept by each step the loop is made of. Its lemmas carry them through the
  forward pass, the drains and the closing of the queue, for every schedule of the other tasks. The
  interpretations are the invariants of the executor.
\<close>

section \<open>Steps of the state\<close>

lemma act_sys [simp]: "sys (act a st) = sys st"
  by (auto simp: act_def emit_def split: task_action.splits prod.splits)

lemma act_counts [simp]: "counts (act a st) = counts st"
  by (auto simp: act_def emit_def split: task_action.splits prod.splits)

lemma emit_simps [simp]:
  "sys (emit e st) = sys st" "shared (emit e st) = shared st" "counts (emit e st) = counts st"
  "schedule (emit e st) = schedule st" "log (emit e st) = log st @ [e]"
  by (simp_all add: emit_def)

lemma count_simps [simp]:
  "sys (count_failed st) = sys st" "shared (count_failed st) = shared st" "log (count_failed st) = log st"
  "sys (count_succeeded st) = sys st" "shared (count_succeeded st) = shared st" "log (count_succeeded st) = log st"
  "sys (count_skipped st) = sys st" "shared (count_skipped st) = shared st" "log (count_skipped st) = log st"
  "counts (count_failed st) = (counts st)\<lparr>failed := Suc (failed (counts st))\<rparr>"
  "counts (count_succeeded st) = (counts st)\<lparr>succeeded := Suc (succeeded (counts st))\<rparr>"
  "counts (count_skipped st) = (counts st)\<lparr>skipped := Suc (skipped (counts st))\<rparr>"
  by (simp_all add: count_failed_def count_succeeded_def count_skipped_def)

lemma report_simps [simp]:
  "sys (report item p n f r st) = sys st" "shared (report item p n f r st) = shared st"
  "counts (report item p n f r st) = counts st"
  "log (report item p n f r st) =
     log st @ [Progress (terminal_event (item_id item) p n (clock (sys st)) f r)]"
  by (simp_all add: report_def)

section \<open>The contract of the loop\<close>

locale run_invariant =
  fixes x :: extern
    and clean :: "string \<Rightarrow> string"
    and shuffle :: "string list \<Rightarrow> string list"
    and items :: "executor_item list"
    and I :: "string list \<Rightarrow> run_state \<Rightarrow> bool"
    and Q :: "string \<Rightarrow> bool"
  assumes I_act: "I ids st \<Longrightarrow> I ids (act a st)"
    and I_schedule: "I ids st \<Longrightarrow> I ids (st\<lparr>schedule := b\<rparr>)"
    and I_skip_set: "I [] st \<Longrightarrow> I [] (st\<lparr>shared := (shared st)\<lparr>skip_set := xs\<rparr>\<rparr>)"
    and I_skipped: "I [] st0 \<Longrightarrow> \<not> cancel_flag (shared st0) \<Longrightarrow> take_skip (item_id item) st0 = (True, st) \<Longrightarrow>
          I [] st \<Longrightarrow> item \<in> set items \<Longrightarrow>
          I [] (count_skipped (report item ''pending'' ''skipped'' None None st))"
    and I_drained: "I [] st \<Longrightarrow> update_retries (rq_drain_all shuffle) st = (ids, st') \<Longrightarrow> I ids st'"
    and I_orphan: "I (ks @ ids) st \<Longrightarrow> I ids (orphan_ids ks st)"
    and I_first: "I [] st0 \<Longrightarrow> \<not> cancel_flag (shared st0) \<Longrightarrow> take_skip (item_id item) st0 = (False, st) \<Longrightarrow>
          I [] st \<Longrightarrow> item \<in> set items \<Longrightarrow>
          process_single_item x clean item ''pending'' True st = (r, st') \<Longrightarrow>
          I [] st' \<and> (\<forall>reason. r = Pause reason \<longrightarrow> Q reason)"
    and I_redo: "I (k # ids) st \<Longrightarrow> \<not> cancel_flag (shared st) \<Longrightarrow> item \<in> set items \<Longrightarrow> item_id item = k \<Longrightarrow>
          process_single_item x clean item ''applying'' False (emit (Redo k) st) = (r, st') \<Longrightarrow>
          I ids st' \<and> (\<forall>reason. r = Pause reason \<longrightarrow> Q reason)"
    and I_close_if_empty: "I [] st \<Longrightarrow> rq_close_if_empty (retries (shared st)) = (True, q) \<Longrightarrow>
          I [] (st\<lparr>shared := (shared st)\<lparr>retries := q\<rparr>\<rparr>)"
    and I_close: "I [] st \<Longrightarrow>
          I [] (st\<lparr>shared := (shared st)\<lparr>retries := rq_close shuffle (retries (shared st))\<rparr>\<rparr>)"
begin

lemma interfere_I: "I ids st \<Longrightarrow> I ids (interfere st)"
proof -
  have "I ids (fold act as st)" if "I ids st" for as st
    using that by (induction as arbitrary: st) (simp_all add: I_act)
  then show "I ids st \<Longrightarrow> I ids (interfere st)" by (simp add: interfere_def I_schedule split: list.splits)
qed

lemma is_cancelled_I:
  "I ids st \<Longrightarrow> is_cancelled st = (b, st') \<Longrightarrow> I ids st' \<and> b = cancel_flag (shared st')"
  by (auto simp: is_cancelled_def Let_def interfere_I)

lemma take_skip_I: "I [] st \<Longrightarrow> take_skip k st = (b, st') \<Longrightarrow> I [] st'"
  using interfere_I [of "[]" st] by (auto simp: take_skip_def Let_def I_skip_set split: prod.splits)

lemma item_by_id_Some: "item_by_id items k = Some item \<Longrightarrow> item \<in> set items \<and> item_id item = k"
  by (auto simp: item_by_id_def dest!: map_of_SomeD)

lemma redo_drained_I:
  "I ids st \<Longrightarrow> redo_drained x clean (item_by_id items) ids st = (r, st') \<Longrightarrow>
     I [] st' \<and> (\<forall>reason. r = DrainPause reason \<longrightarrow> Q reason)"
proof (induction ids arbitrary: st)
  case (Cons k ids)
  obtain b s1 where b: "is_cancelled st = (b, s1)" by fastforce
  have s1: "I (k # ids) s1" "b = cancel_flag (shared s1)" using is_cancelled_I Cons.prems(1) b by blast+
  show ?case
  proof (cases b)
    case True
    then show ?thesis using Cons.prems(2) b I_orphan [of "k # ids" "[]" s1] s1(1) by auto
  next
    case nb: False
    show ?thesis
    proof (cases "item_by_id items k")
      case None
      then show ?thesis using Cons b nb I_orphan [of "[k]" ids s1] s1(1) by auto
    next
      case (Some item)
      obtain o' s2 where p: "process_single_item x clean item ''applying'' False (emit (Redo k) s1) = (o', s2)"
        by fastforce
      have s2: "I ids s2 \<and> (\<forall>reason. o' = Pause reason \<longrightarrow> Q reason)"
        using I_redo [OF s1(1) _ _ _ p] item_by_id_Some [OF Some] s1(2) nb by simp
      then show ?thesis
        using Cons b nb Some p I_orphan [of ids "[]" s2] by (cases o') auto
    qed
  qed
qed simp

lemma drain_retries_I:
  assumes "I [] st" and "drain_retries x clean shuffle (item_by_id items) st = (r, st')"
  shows "I [] st' \<and> (\<forall>reason. r = DrainPause reason \<longrightarrow> Q reason)"
proof -
  obtain ids s1 where d: "update_retries (rq_drain_all shuffle) (interfere st) = (ids, s1)" by fastforce
  then have "I ids s1" using I_drained interfere_I assms(1) by blast
  then show ?thesis using assms(2) d redo_drained_I by (simp add: drain_retries_def)
qed

lemma forward_pass_I:
  "I [] st \<Longrightarrow> set is \<subseteq> set items \<Longrightarrow>
     forward_pass x clean shuffle (item_by_id items) is st = (r, st') \<Longrightarrow>
     I [] st' \<and> (\<forall>reason. r = PassPaused reason \<longrightarrow> Q reason)"
proof (induction "is" arbitrary: st)
  case (Cons item "is")
  note run = Cons.prems(3)
  show ?case
  proof (cases "already_terminal item")
    case True
    then show ?thesis using Cons by simp
  next
    case nt: False
    obtain b s1 where b: "is_cancelled st = (b, s1)" by fastforce
    have s1: "I [] s1" "b = cancel_flag (shared s1)" using is_cancelled_I Cons.prems(1) b by blast+
    show ?thesis
    proof (cases b)
      case True
      then show ?thesis using run nt b s1 by auto
    next
      case nb: False
      obtain c s2 where c: "take_skip (item_id item) s1 = (c, s2)" by fastforce
      have s2: "I [] s2" using take_skip_I [OF s1(1) c] .
      show ?thesis
      proof (cases c)
        case True
        then have "I [] (count_skipped (report item ''pending'' ''skipped'' None None s2))"
          using I_skipped [OF s1(1) _ _ s2] s1(2) nb c Cons.prems(2) by simp
        then show ?thesis using True Cons.IH Cons.prems(2) run nt b nb c by simp
      next
        case nc: False
        obtain o' s3 where p: "process_single_item x clean item ''pending'' True s2 = (o', s3)" by fastforce
        have s3: "I [] s3 \<and> (\<forall>reason. o' = Pause reason \<longrightarrow> Q reason)"
          using I_first [OF s1(1) _ _ s2 _ p] s1(2) nb c nc Cons.prems(2) by simp
        show ?thesis
        proof (cases o')
          case (Pause reason)
          then show ?thesis using s3 run nt b nb c nc p by auto
        next
          case Continue
          obtain d s4 where d: "drain_retries x clean shuffle (item_by_id items) s3 = (d, s4)" by fastforce
          have "I [] s4 \<and> (\<forall>reason. d = DrainPause reason \<longrightarrow> Q reason)"
            using drain_retries_I s3 d by blast
          then show ?thesis using Cons.IH Cons.prems(2) run nt b nb c nc p Continue d by (cases d) auto
        qed
      qed
    qed
  qed
qed simp

lemma close_loop_I:
  "I [] st \<Longrightarrow> close_loop x clean shuffle (item_by_id items) st = (r, st') \<Longrightarrow>
     I [] st' \<and> (\<forall>reason. r = DrainPause reason \<longrightarrow> Q reason)"
proof (induction st rule: measure_induct_rule [where f = run_measure])
  case (less st)
  let ?s1 = "interfere st"
  have s1: "I [] ?s1" using interfere_I less.prems(1) .
  obtain b q where b: "rq_close_if_empty (retries (shared ?s1)) = (b, q)" by fastforce
  show ?case
  proof (cases b)
    case True
    then show ?thesis using less.prems(2) b I_close_if_empty [OF s1]
      by (subst (asm) close_loop.simps) (auto simp: Let_def)
  next
    case nb: False
    obtain d s2 where d: "drain_retries x clean shuffle (item_by_id items) ?s1 = (d, s2)" by fastforce
    have s2: "I [] s2 \<and> (\<forall>reason. d = DrainPause reason \<longrightarrow> Q reason)" using drain_retries_I [OF s1 d] .
    have smaller: "run_measure s2 < run_measure st" using drain_retries_measure b nb d by simp
    have "close_loop x clean shuffle (item_by_id items) st =
        (case d of DrainContinue \<Rightarrow> close_loop x clean shuffle (item_by_id items) s2 | _ \<Rightarrow> (d, s2))"
      using b nb d by (subst close_loop.simps) (auto split: drain_outcome.splits)
    then show ?thesis using less.IH [OF smaller] less.prems(2) s2 by (cases d) auto
  qed
qed

lemma drive_plan_I:
  assumes "I [] st" and "drive_plan x clean shuffle items st = (out, st')"
  shows "I [] st' \<and> (\<forall>reason c. out = Paused reason c \<longrightarrow> Q reason)"
proof -
  obtain p s1 where p: "forward_pass x clean shuffle (item_by_id items) items st = (p, s1)" by fastforce
  have s1: "I [] s1 \<and> (\<forall>reason. p = PassPaused reason \<longrightarrow> Q reason)"
    using forward_pass_I [OF assms(1) _ p] by simp
  obtain d s2 where d: "close_loop x clean shuffle (item_by_id items) s1 = (d, s2)" by fastforce
  have "I [] s2 \<and> (\<forall>reason. d = DrainPause reason \<longrightarrow> Q reason)" using close_loop_I [OF _ d] s1 by simp
  then show ?thesis using assms(2) p d s1
    by (cases p; cases d) (auto simp: drive_plan_def Let_def)
qed

theorem execute_plan_I:
  assumes "I [] (st\<lparr>counts := zero_counts\<rparr>)" and "execute_plan x clean shuffle items st = (out, st')"
  shows "I [] st'" and "out = Paused reason c \<Longrightarrow> Q reason"
proof -
  obtain o' s1 where d: "drive_plan x clean shuffle items (st\<lparr>counts := zero_counts\<rparr>) = (o', s1)" by fastforce
  have s1: "I [] s1 \<and> (\<forall>reason c. o' = Paused reason c \<longrightarrow> Q reason)" using drive_plan_I [OF assms(1) d] .
  have "out = o'" and st': "st' = (interfere s1)\<lparr>shared := (shared (interfere s1))
      \<lparr>retries := rq_close shuffle (retries (shared (interfere s1)))\<rparr>\<rparr>"
    using assms(2) d by (auto simp: execute_plan_def update_retries_def)
  then show "I [] st'" and "out = Paused reason c \<Longrightarrow> Q reason"
    using s1 I_close [OF interfere_I, of s1] by auto
qed

end

section \<open>One item\<close>

definition pause_reasons :: "string set" where
  "pause_reasons = {''volume.unavailable'', ''disk.full'', ''item.stale''}"

lemma triggers_pause_reason: "triggers_pause c \<Longrightarrow> failure_code_as_str c \<in> pause_reasons"
  by (cases c) (simp_all add: triggers_pause_def pause_reasons_def)

lemma resolve_side_state: "resolve_side clean p root s = (r, s') \<Longrightarrow> tree s' = tree s \<and> same_env s s'"
  by (auto simp: resolve_side_def split: option.splits prod.splits sum.splits dest!: resolve_and_validate_state)

lemma resolve_side_codes:
  "resolve_side clean p root s = (Inl f, s') \<Longrightarrow> code f \<in> {RootEscape, SymlinkComponent, PathInvalid}"
  using containment_failure_codes
  by (auto simp: resolve_side_def split: option.splits prod.splits sum.splits dest!: resolve_and_validate_codes)

lemma resolve_item_paths_state:
  "resolve_item_paths clean item s = (r, s') \<Longrightarrow> tree s' = tree s \<and> same_env s s'"
  by (auto simp: resolve_item_paths_def split: prod.splits sum.splits dest!: resolve_side_state
      intro: same_env_trans)

lemma resolve_item_paths_codes:
  "resolve_item_paths clean item s = (Inl f, s') \<Longrightarrow> code f \<in> {RootEscape, SymlinkComponent, PathInvalid}"
  by (auto simp: resolve_item_paths_def split: prod.splits sum.splits dest!: resolve_side_codes)

text \<open>How one item changes the run: at most a start, one event, one counter.\<close>

definition item_step :: "executor_item \<Rightarrow> item_outcome \<Rightarrow> run_state \<Rightarrow> run_state \<Rightarrow> bool" where
  "item_step item r st st' \<longleftrightarrow>
    (\<exists>starts ev. log st' = log st @ starts @ [Progress ev] \<and> starts \<in> {[], [Start (item_id item)]}
       \<and> event_item ev = item_id item
       \<and> (new_state ev = ''succeeded'' \<and> failure ev = None \<and> r = Continue
            \<and> counts st' = (counts st)\<lparr>succeeded := Suc (succeeded (counts st))\<rparr>
          \<or> (\<exists>f. new_state ev \<in> {''refused'', ''stale'', ''failed''} \<and> failure ev = Some f
            \<and> r = pause_or_continue (triggers_pause (code f)) (failure_code_as_str (code f))
            \<and> counts st' = (counts st)\<lparr>failed := Suc (failed (counts st))\<rparr>)))
    \<and> shared st' = shared st"

text \<open>The conditions under which an item reaches its operation, with the paths it runs on.\<close>

definition gates_open ::
  "extern \<Rightarrow> (string \<Rightarrow> string) \<Rightarrow> executor_item \<Rightarrow> os \<Rightarrow> resolved_item_paths \<Rightarrow> os \<Rightarrow> bool" where
  "gates_open x clean item s paths s1 \<longleftrightarrow>
    (requires_destructive_confirm item \<longrightarrow> destructive_confirmed item)
    \<and> (is_protected item \<longrightarrow> action item \<in> {NoOp, Catalogue})
    \<and> (\<exists>u. resolve_item_paths clean item s = (Inr paths, u)
        \<and> (case source paths of
             None \<Rightarrow> s1 = u
           | Some src \<Rightarrow> check_cas x (os_path src) (cas_snapshot_of item) u = (Inr (), s1)))"

lemma gates_open_state: "gates_open x clean item s paths s1 \<Longrightarrow> tree s1 = tree s \<and> same_env s s1"
  by (auto simp: gates_open_def split: option.splits dest!: resolve_item_paths_state check_cas_state
      intro: same_env_trans)

definition started :: "bool \<Rightarrow> executor_item \<Rightarrow> run_state \<Rightarrow> run_state" where
  "started b item st = (if b then emit (Start (item_id item)) st else st)"

lemma started_simps [simp]:
  "sys (started b item st) = sys st" "shared (started b item st) = shared st" "counts (started b item st) = counts st"
  "log (started b item st) = log st @ (if b then [Start (item_id item)] else [])"
  by (simp_all add: started_def)

lemma started_sys [simp]: "sys (if b then emit e st else st) = sys st"
  by simp

lemma run_operation_step:
  "run_operation x item paths ((started b item st)\<lparr>sys := s\<rparr>) = (r, st') \<Longrightarrow>
     item_step item r st st' \<and> sys st' = snd (execute_item x item paths s)"
  by (auto simp: run_operation_def item_step_def terminal_event_def split: prod.splits sum.splits)

lemma failed_step:
  assumes "new \<in> {''refused'', ''stale'', ''failed''}"
    and "st' = count_failed (report item prior new (Some f) reason ((started b item st)\<lparr>sys := s\<rparr>))"
    and "r = pause_or_continue (triggers_pause (code f)) (failure_code_as_str (code f))"
  shows "item_step item r st st' \<and> sys st' = s"
  using assms by (auto simp: item_step_def terminal_event_def)

lemma no_pause [simp]: "pause_or_continue False reason = Continue"
  by (simp add: pause_or_continue_def)

lemma process_cases:
  assumes run: "process_single_item x clean item prior start st = (r, st')"
  obtains (stopped) s1 where "tree s1 = tree (sys st)" "same_env (sys st) s1" "sys st' = s1" "item_step item r st st'"
  | (ran) paths s1 where "gates_open x clean item (sys st) paths s1"
      "run_operation x item paths ((started start item st)\<lparr>sys := s1\<rparr>) = (r, st')"
proof (cases "requires_destructive_confirm item \<and> \<not> destructive_confirmed item")
  case True
  then obtain msg where r: "r = Continue"
    and st': "st' = count_failed (report item prior ''refused'' (Some (with_code DestructiveUnconfirmed msg)) (Some ''destructive_unconfirmed'')
                ((started False item st)\<lparr>sys := sys st\<rparr>))"
    using run by (auto simp: process_single_item_def started_def)
  have "item_step item r st st' \<and> sys st' = sys st"
    by (rule failed_step [OF _ st']) (simp_all add: r triggers_pause_def)
  then show ?thesis using stopped [of "sys st"] by simp
next
  case conf: False
  obtain m s1 where m: "resolve_item_paths clean item (sys st) = (m, s1)" by fastforce
  note m_state = resolve_item_paths_state [OF m]
  show ?thesis
  proof (cases m)
    case (Inl f)
    have np: "\<not> triggers_pause (code f)"
      using resolve_item_paths_codes [OF m [unfolded Inl]] by (auto simp: triggers_pause_def)
    have st': "st' = count_failed (report item ''applying'' ''refused'' (Some f) (Some (failure_code_as_str (code f)))
                ((started start item st)\<lparr>sys := s1\<rparr>))" and r: "r = Continue"
      using run conf m Inl np by (auto simp: process_single_item_def started_def Let_def)
    have "item_step item r st st' \<and> sys st' = s1" by (rule failed_step [OF _ st']) (simp_all add: r np)
    then show ?thesis using stopped [of s1] m_state by simp
  next
    case paths: (Inr paths)
    define cas where "cas = (case source paths of None \<Rightarrow> (Inr (), s1)
        | Some src \<Rightarrow> check_cas x (os_path src) (cas_snapshot_of item) s1)"
    obtain c s2 where c: "cas = (c, s2)" by fastforce
    have c_state: "tree s2 = tree (sys st) \<and> same_env (sys st) s2"
      using c m_state by (auto simp: cas_def split: option.splits dest!: check_cas_state intro: same_env_trans)
    show ?thesis
    proof (cases c)
      case (Inl f)
      have st': "st' = count_failed (report item ''applying'' ''stale'' (Some f) (Some ''stale'')
                  ((started start item st)\<lparr>sys := s2\<rparr>))"
        and r: "r = pause_or_continue (triggers_pause (code f)) (failure_code_as_str (code f))"
        using run conf m paths c Inl by (auto simp: process_single_item_def started_def Let_def cas_def)
      have "item_step item r st st' \<and> sys st' = s2" by (rule failed_step [OF _ st' r]) simp
      then show ?thesis using stopped [of s2] c_state by simp
    next
      case (Inr u)
      show ?thesis
      proof (cases "is_protected item \<and> action item \<notin> {NoOp, Catalogue}")
        case True
        then obtain msg where r: "r = Continue"
          and st': "st' = count_failed (report item ''applying'' ''failed'' (Some (with_code ProtectedSource msg)) (Some ''protected'')
                      ((started start item st)\<lparr>sys := s2\<rparr>))"
          using run conf m paths c Inr by (auto simp: process_single_item_def started_def Let_def cas_def)
        have "item_step item r st st' \<and> sys st' = s2"
          by (rule failed_step [OF _ st']) (simp_all add: r triggers_pause_def)
        then show ?thesis using stopped [of s2] c_state by simp
      next
        case np: False
        have "gates_open x clean item (sys st) paths s2"
          unfolding gates_open_def using conf np m paths c Inr by (auto simp: cas_def split: option.splits)
        moreover have "run_operation x item paths ((started start item st)\<lparr>sys := s2\<rparr>) = (r, st')"
          using run conf m paths c Inr np by (auto simp: process_single_item_def started_def Let_def cas_def)
        ultimately show ?thesis using ran by blast
      qed
    qed
  qed
qed

lemma process_step: "process_single_item x clean item prior start st = (r, st') \<Longrightarrow> item_step item r st st'"
  by (erule process_cases) (auto dest: run_operation_step)

lemma process_sys:
  assumes "process_single_item x clean item prior start st = (r, st')"
  obtains (same) "tree (sys st') = tree (sys st)" "same_env (sys st) (sys st')"
  | (ran) paths s1 where "gates_open x clean item (sys st) paths s1" "sys st' = snd (execute_item x item paths s1)"
  using assms by (cases rule: process_cases) (auto dest: run_operation_step)

lemma item_step_pause: "item_step item r st st' \<Longrightarrow> r = Pause reason \<Longrightarrow> reason \<in> pause_reasons"
  by (auto simp: item_step_def pause_or_continue_def triggers_pause_reason split: if_splits)

text \<open>Items that may take a file away for good: a confirmed delete, a permitted trash.\<close>

definition may_destroy :: "executor_item \<Rightarrow> bool" where
  "may_destroy item \<longleftrightarrow> \<not> is_protected item
     \<and> (requires_destructive_confirm item \<longrightarrow> destructive_confirmed item)
     \<and> (case action item of Delete \<Rightarrow> destructive_confirmed item | Trash _ \<Rightarrow> True | _ \<Rightarrow> False)"

lemma map_error_state: "map_error f r = (e, s') \<Longrightarrow> \<exists>m. r = (m, s')"
  by (auto simp: map_error_def split: prod.splits sum.splits)

lemma delete_unconfirmed: "delete_file p False s = (r, s') \<Longrightarrow> s' = s"
  by (simp add: delete_file_def Let_def)

lemma execute_item_keeps:
  assumes x: "extern_ok x" and run: "execute_item x item paths s = (r, s')"
    and mild: "case action item of Delete \<Rightarrow> \<not> destructive_confirmed item | Trash _ \<Rightarrow> False | _ \<Rightarrow> True"
  shows "keeps_files s s'"
proof (cases "action item")
  case Move
  then show ?thesis using run move_file_keeps [OF x]
    by (auto simp: execute_item_def split: sum.splits dest!: map_error_state)
next
  case (Archive d)
  then show ?thesis using run move_file_keeps [OF x]
    by (auto simp: execute_item_def archive_file_def split: sum.splits dest!: map_error_state)
next
  case Delete
  then show ?thesis using run mild
    by (auto simp: execute_item_def split: sum.splits dest!: map_error_state delete_unconfirmed)
next
  case Mkdir
  then show ?thesis using run
    by (auto simp: execute_item_def split: sum.splits dest!: map_error_state make_dir_dir_step dir_step_keeps_files)
next
  case (MakeLink k)
  then obtain a b m where "s' = s \<or> create_link x a b k s = (m, s')"
    using run by (auto simp: execute_item_def split: sum.splits dest!: map_error_state)
  then show ?thesis
    using create_link_sound [OF x] create_link_in_place [OF x] by (auto simp: keeps_files_def intro: kept_place)
next
  case (WriteManifest pid)
  then obtain b m where "s' = s \<or> write_marker x b pid s = (m, s')"
    using run by (auto simp: execute_item_def split: sum.splits dest!: map_error_state)
  then show ?thesis
    using write_marker_sound [OF x] write_marker_in_place [OF x] by (auto simp: keeps_files_def intro: kept_place)
qed (use run mild in \<open>auto simp: execute_item_def catalogue_noop_def map_error_def\<close>)

lemma process_keeps:
  assumes x: "extern_ok x" and mild: "\<not> may_destroy item"
    and run: "process_single_item x clean item prior start st = (r, st')"
  shows "keeps_files (sys st) (sys st')"
  using run
proof (cases rule: process_sys)
  case same
  then show ?thesis by (rule keeps_files_same_tree [rotated])
next
  case (ran paths s1)
  have "keeps_files (sys st) s1" using gates_open_state [OF ran(1)] keeps_files_same_tree by blast
  also have "keeps_files s1 (sys st')"
  proof (rule execute_item_keeps [OF x, of item paths s1 "fst (execute_item x item paths s1)"])
    show "case action item of Delete \<Rightarrow> \<not> destructive_confirmed item | Trash _ \<Rightarrow> False | _ \<Rightarrow> True"
      using mild ran(1) by (auto simp: may_destroy_def gates_open_def split: executor_action.splits)
  qed (simp add: ran(2))
  finally show ?thesis .
qed

text \<open>Items that a gate stops in any case, or that do nothing.\<close>

definition inert :: "executor_item \<Rightarrow> bool" where
  "inert item \<longleftrightarrow> requires_destructive_confirm item \<and> \<not> destructive_confirmed item
     \<or> is_protected item \<or> action item \<in> {NoOp, Catalogue}"

lemma process_inert:
  assumes "inert item" and "process_single_item x clean item prior start st = (r, st')"
  shows "tree (sys st') = tree (sys st)"
  using assms(2)
proof (cases rule: process_sys)
  case (ran paths s1)
  then have "action item \<in> {NoOp, Catalogue}" using assms(1) by (auto simp: gates_open_def inert_def)
  then have "sys st' = s1" using ran(2) by (auto simp: execute_item_def catalogue_noop_def map_error_def)
  then show ?thesis using gates_open_state [OF ran(1)] by simp
qed

section \<open>The invariants of the executor\<close>

lemma update_retries_simps:
  assumes "update_retries f st = (r, st')"
  shows "sys st' = sys st" "counts st' = counts st" "log st' = log st" "schedule st' = schedule st"
    "f (retries (shared st)) = (r, retries (shared st'))" "cancel_flag (shared st') = cancel_flag (shared st)"
  using assms by (auto simp: update_retries_def split: prod.splits)

lemma orphan_ids_simps [simp]:
  "sys (orphan_ids ids st) = sys st" "counts (orphan_ids ids st) = counts st" "log (orphan_ids ids st) = log st"
  "retries (shared (orphan_ids ids st)) = rq_orphan ids (retries (shared st))"
  "cancel_flag (shared (orphan_ids ids st)) = cancel_flag (shared st)"
  by (simp_all add: orphan_ids_def update_retries_def)

subsection \<open>Counters and events\<close>

definition n_events :: "string set \<Rightarrow> log_entry list \<Rightarrow> nat" where
  "n_events states l = length (filter (\<lambda>e. case e of Progress ev \<Rightarrow> new_state ev \<in> states | _ \<Rightarrow> False) l)"

definition tally :: "log_entry list \<Rightarrow> terminal_counts" where
  "tally l = \<lparr>succeeded = n_events {''succeeded''} l, failed = n_events {''failed'', ''refused'', ''stale''} l,
              skipped = n_events {''skipped''} l, cancelled_count = 0\<rparr>"

lemma n_events_append [simp]: "n_events S (l @ m) = n_events S l + n_events S m"
  by (simp add: n_events_def)

lemma n_events_single:
  "n_events S [] = 0" "n_events S (Start k # l) = n_events S l" "n_events S (RetryReply k b # l) = n_events S l"
  "n_events S (Redo k # l) = n_events S l" "n_events S (CancelRequested # l) = n_events S l"
  "n_events S (Progress ev # l) = (if new_state ev \<in> S then 1 else 0) + n_events S l"
  by (simp_all add: n_events_def)

lemma tally_quiet [simp]:
  "tally (l @ [RetryReply k b]) = tally l" "tally (l @ [Redo k]) = tally l" "tally (l @ [CancelRequested]) = tally l"
  by (simp_all add: tally_def n_events_single)

lemma act_tally: "tally (log (act a st)) = tally (log st)"
  by (auto simp: act_def split: task_action.splits prod.splits)

lemma item_step_tally:
  "item_step item r st st' \<Longrightarrow> counts st = tally (log st) \<Longrightarrow> counts st' = tally (log st')"
  by (auto simp: item_step_def tally_def n_events_single)

interpretation counted: run_invariant x clean shuffle items "\<lambda>ids st. counts st = tally (log st)"
    "\<lambda>reason. reason \<in> pause_reasons" for x clean shuffle items
proof
  fix item st r st'
  show "process_single_item x clean item ''pending'' True st = (r, st') \<Longrightarrow> counts st = tally (log st) \<Longrightarrow>
      counts st' = tally (log st') \<and> (\<forall>reason. r = Pause reason \<longrightarrow> reason \<in> pause_reasons)"
    using process_step item_step_tally item_step_pause by blast
next
  fix k item st r st'
  assume "process_single_item x clean item ''applying'' False (emit (Redo k) st) = (r, st')"
    and "counts st = tally (log st)"
  then show "counts st' = tally (log st') \<and> (\<forall>reason. r = Pause reason \<longrightarrow> reason \<in> pause_reasons)"
    using process_step item_step_tally [of item r "emit (Redo k) st" st'] item_step_pause by force
qed (auto simp: act_tally update_retries_simps, simp add: tally_def terminal_event_def n_events_single)

subsection \<open>Files\<close>

interpretation files_kept: run_invariant x clean shuffle items
    "\<lambda>ids st. extern_ok x \<longrightarrow> (\<forall>item \<in> set items. \<not> may_destroy item) \<longrightarrow> keeps_files s0 (sys st)" "\<lambda>_. True"
  for x clean shuffle items s0
  by unfold_locales
    (auto simp: update_retries_simps intro: keeps_files_trans dest!: process_keeps [rotated 2])

interpretation untouched: run_invariant x clean shuffle items
    "\<lambda>ids st. (\<forall>item \<in> set items. inert item) \<longrightarrow> tree (sys st) = t0" "\<lambda>_. True" for x clean shuffle items t0
  by unfold_locales (auto simp: update_retries_simps dest!: process_inert [rotated])

subsection \<open>Cancellation\<close>

fun events_after_cancel :: "bool \<Rightarrow> log_entry list \<Rightarrow> nat" where
  "events_after_cancel c [] = 0"
| "events_after_cancel c (CancelRequested # l) = events_after_cancel True l"
| "events_after_cancel c (Progress ev # l) = (if c then 1 else 0) + events_after_cancel c l"
| "events_after_cancel c (_ # l) = events_after_cancel c l"

lemma events_after_cancel_append:
  "events_after_cancel c (l @ m) = events_after_cancel c l + events_after_cancel (c \<or> CancelRequested \<in> set l) m"
  by (induction c l rule: events_after_cancel.induct) simp_all

text \<open>Whether cancellation was requested is what the flag says; at most one event follows the request.\<close>

definition cancel_respected :: "bool \<Rightarrow> run_state \<Rightarrow> bool" where
  "cancel_respected c0 st \<longleftrightarrow> cancel_flag (shared st) = (c0 \<or> CancelRequested \<in> set (log st))
     \<and> events_after_cancel c0 (log st) \<le> (if c0 then 0 else 1)"

definition no_event_yet :: "bool \<Rightarrow> run_state \<Rightarrow> bool" where
  "no_event_yet c0 st \<longleftrightarrow> cancel_flag (shared st) = (c0 \<or> CancelRequested \<in> set (log st))
     \<and> events_after_cancel c0 (log st) = 0"

lemma act_cancel:
  "cancel_respected c0 st \<Longrightarrow> cancel_respected c0 (act a st)"
  "no_event_yet c0 st \<Longrightarrow> no_event_yet c0 (act a st)"
  by (auto simp: cancel_respected_def no_event_yet_def act_def events_after_cancel_append
      split: task_action.splits prod.splits if_splits)

lemma no_event_yet_interfere: "no_event_yet c0 st \<Longrightarrow> no_event_yet c0 (interfere st)"
proof -
  have sched: "no_event_yet c0 (st\<lparr>schedule := b\<rparr>)" if "no_event_yet c0 st" for b
    using that by (simp add: no_event_yet_def)
  have "no_event_yet c0 (fold act as st)" if "no_event_yet c0 st" for as st
    using that by (induction as arbitrary: st) (simp_all add: act_cancel)
  then show "no_event_yet c0 st \<Longrightarrow> no_event_yet c0 (interfere st)"
    by (simp add: interfere_def sched split: list.splits)
qed

lemma not_cancelled_no_event:
  "cancel_respected c0 st \<Longrightarrow> \<not> cancel_flag (shared st) \<Longrightarrow> \<not> c0 \<and> no_event_yet c0 st"
proof -
  have "CancelRequested \<notin> set l \<Longrightarrow> events_after_cancel False l = 0" for l
    by (induction False l rule: events_after_cancel.induct) auto
  then show "cancel_respected c0 st \<Longrightarrow> \<not> cancel_flag (shared st) \<Longrightarrow> \<not> c0 \<and> no_event_yet c0 st"
    by (simp add: cancel_respected_def no_event_yet_def)
qed

lemma no_event_yet_take_skip: "no_event_yet c0 st \<Longrightarrow> take_skip k st = (b, st') \<Longrightarrow> no_event_yet c0 st'"
  using no_event_yet_interfere [of c0 st]
  by (auto simp: take_skip_def Let_def no_event_yet_def split: prod.splits)

lemma item_step_cancel:
  assumes "item_step item r st st'" and "no_event_yet c0 st" and "\<not> c0"
  shows "cancel_respected c0 st'"
proof -
  obtain starts ev where l: "log st' = log st @ starts @ [Progress ev]" "starts \<in> {[], [Start (item_id item)]}"
      "shared st' = shared st"
    using assms(1) by (auto simp: item_step_def)
  then show ?thesis using assms(2,3)
    by (auto simp: cancel_respected_def no_event_yet_def events_after_cancel_append)
qed

interpretation cancelled: run_invariant x clean shuffle items "\<lambda>ids. cancel_respected c0" "\<lambda>_. True"
  for x clean shuffle items c0
proof
  fix st0 st item r st'
  assume a: "cancel_respected c0 st0" "\<not> cancel_flag (shared st0)" and s: "take_skip (item_id item) st0 = (False, st)"
    and p: "process_single_item x clean item ''pending'' True st = (r, st')"
  have "\<not> c0" "no_event_yet c0 st" using not_cancelled_no_event [OF a] no_event_yet_take_skip [OF _ s] by auto
  then show "cancel_respected c0 st' \<and> (\<forall>reason. r = Pause reason \<longrightarrow> True)"
    using item_step_cancel [OF process_step [OF p]] by simp
next
  fix k st item r st'
  assume a: "cancel_respected c0 st" "\<not> cancel_flag (shared st)"
    and p: "process_single_item x clean item ''applying'' False (emit (Redo k) st) = (r, st')"
  have "\<not> c0" "no_event_yet c0 (emit (Redo k) st)"
    using not_cancelled_no_event [OF a] by (auto simp: no_event_yet_def events_after_cancel_append)
  then show "cancel_respected c0 st' \<and> (\<forall>reason. r = Pause reason \<longrightarrow> True)"
    using item_step_cancel [OF process_step [OF p]] by simp
next
  fix st0 st and item :: executor_item
  assume a: "cancel_respected c0 st0" "\<not> cancel_flag (shared st0)" and s: "take_skip (item_id item) st0 = (True, st)"
  have "\<not> c0" "no_event_yet c0 st" using not_cancelled_no_event [OF a] no_event_yet_take_skip [OF _ s] by auto
  then show "cancel_respected c0 (count_skipped (report item ''pending'' ''skipped'' None None st))"
    by (auto simp: cancel_respected_def no_event_yet_def events_after_cancel_append)
qed (auto simp: act_cancel, auto simp: cancel_respected_def update_retries_simps)

subsection \<open>Accepted retries\<close>

text \<open>The ids a request was accepted for and that were not executed again since.\<close>

fun owed :: "string set \<Rightarrow> log_entry list \<Rightarrow> string set" where
  "owed A [] = A"
| "owed A (RetryReply k b # l) = owed (if b then insert k A else A) l"
| "owed A (Redo k # l) = owed (A - {k}) l"
| "owed A (_ # l) = owed A l"

lemma owed_append: "owed A (l @ m) = owed (owed A l) m"
  by (induction A l rule: owed.induct) simp_all

definition retries_covered :: "string list \<Rightarrow> run_state \<Rightarrow> bool" where
  "retries_covered ids st \<longleftrightarrow> owed {} (log st) \<subseteq> rq.held (retries (shared st)) \<union> set ids"

lemma act_retries: "retries_covered ids st \<Longrightarrow> retries_covered ids (act a st)"
  using rq.push_held
  by (fastforce simp: retries_covered_def act_def owed_append split: task_action.splits prod.splits)

lemma item_step_retries: "item_step item r st st' \<Longrightarrow> retries_covered ids st \<Longrightarrow> retries_covered ids st'"
  by (auto simp: item_step_def retries_covered_def owed_append)

interpretation covered: run_invariant x clean shuffle items retries_covered "\<lambda>_. True" for x clean shuffle items
proof
  fix ids st st'
  assume "retries_covered [] st" and d: "update_retries (rq_drain_all shuffle) st = (ids, st')"
  then show "retries_covered ids st'"
    using rq.drain_held [OF update_retries_simps(5) [OF d]]
    by (auto simp: retries_covered_def update_retries_simps(3) [OF d])
next
  fix st0 st item r st'
  assume "process_single_item x clean item ''pending'' True st = (r, st')" and "retries_covered [] st"
  then show "retries_covered [] st' \<and> (\<forall>reason. r = Pause reason \<longrightarrow> True)"
    using process_step item_step_retries by blast
next
  fix k ids st item r st'
  assume p: "process_single_item x clean item ''applying'' False (emit (Redo k) st) = (r, st')"
    and c: "retries_covered (k # ids) st"
  have "retries_covered ids (emit (Redo k) st)" using c by (auto simp: retries_covered_def owed_append)
  then show "retries_covered ids st' \<and> (\<forall>reason. r = Pause reason \<longrightarrow> True)"
    using item_step_retries [OF process_step [OF p]] by blast
next
  fix st q
  assume "retries_covered [] st" and "rq_close_if_empty (retries (shared st)) = (True, q)"
  then show "retries_covered [] (st\<lparr>shared := shared st\<lparr>retries := q\<rparr>\<rparr>)"
    using rq.close_if_empty_held by (simp add: retries_covered_def)
next
  fix st
  assume "retries_covered [] st"
  then show "retries_covered [] (st\<lparr>shared := shared st\<lparr>retries := rq_close shuffle (retries (shared st))\<rparr>\<rparr>)"
    using rq.close_held by (simp add: retries_covered_def)
qed (auto simp: act_retries, auto simp: retries_covered_def rq.orphan_held owed_append)

lemma execute_plan_closes:
  "execute_plan x clean shuffle items st = (out, st') \<Longrightarrow> \<not> rq_open (retries (shared st'))"
  using rq.close_law by (auto simp: execute_plan_def update_retries_def split: prod.splits)

definition outcome_counts :: "apply_outcome \<Rightarrow> terminal_counts" where
  "outcome_counts out = (case out of Completed c \<Rightarrow> c | Cancelled c \<Rightarrow> c | Paused _ c \<Rightarrow> c)"

lemma counts_interfere [simp]: "counts (interfere st) = counts st"
proof -
  have "counts (fold act as st) = counts st" for as st by (induction as arbitrary: st) simp_all
  then show ?thesis by (simp add: interfere_def split: list.splits)
qed

lemma execute_plan_counts: "execute_plan x clean shuffle items st = (out, st') \<Longrightarrow> outcome_counts out = counts st'"
  by (auto simp: execute_plan_def drive_plan_def update_retries_def outcome_counts_def Let_def
      split: prod.splits pass_outcome.splits drain_outcome.splits)

section \<open>Completed runs\<close>

text \<open>A run that completes has reported every item that was not terminal before.\<close>

definition reported :: "string \<Rightarrow> log_entry list \<Rightarrow> bool" where
  "reported k l \<longleftrightarrow> (\<exists>ev. Progress ev \<in> set l \<and> event_item ev = k)"

definition extends :: "run_state \<Rightarrow> run_state \<Rightarrow> bool" where
  "extends st st' \<longleftrightarrow> (\<exists>l. log st' = log st @ l)"

lemma extends_trans [trans]: "extends st u \<Longrightarrow> extends u v \<Longrightarrow> extends st v"
  by (auto simp: extends_def)

lemma reported_mono: "reported k (log st) \<Longrightarrow> extends st st' \<Longrightarrow> reported k (log st')"
  by (auto simp: reported_def extends_def)

interpretation growing: run_invariant x clean shuffle items "\<lambda>ids. extends st0" "\<lambda>_. True"
  for x clean shuffle items st0
proof
  fix st and a
  assume "extends st0 st"
  then show "extends st0 (act a st)"
    by (auto simp: extends_def act_def split: task_action.splits prod.splits)
next
  fix st item r st'
  assume "process_single_item x clean item ''pending'' True st = (r, st')" and "extends st0 st"
  then show "extends st0 st' \<and> (\<forall>reason. r = Pause reason \<longrightarrow> True)"
    using process_step by (fastforce simp: item_step_def extends_def)
next
  fix k st item r st'
  assume "process_single_item x clean item ''applying'' False (emit (Redo k) st) = (r, st')" and "extends st0 st"
  then show "extends st0 st' \<and> (\<forall>reason. r = Pause reason \<longrightarrow> True)"
    using process_step by (fastforce simp: item_step_def extends_def)
qed (auto simp: extends_def update_retries_simps)

lemma extends_refl [simp]: "extends st st"
  by (simp add: extends_def)

lemma skipped_reported: "reported (item_id item) (log (count_skipped (report item p n f r st)))"
  unfolding reported_def
  by (rule exI [of _ "terminal_event (item_id item) p n (clock (sys st)) f r"]) (simp add: terminal_event_def)

lemma process_reports:
  "process_single_item x clean item prior start st = (r, st') \<Longrightarrow> reported (item_id item) (log st') \<and> extends st st'"
  by (drule process_step) (auto simp: item_step_def reported_def extends_def)

lemma forward_pass_reports:
  "forward_pass x clean shuffle (item_by_id items) is st = (PassDone, st') \<Longrightarrow> set is \<subseteq> set items \<Longrightarrow>
     \<forall>item \<in> set is. already_terminal item \<or> reported (item_id item) (log st')"
proof (induction "is" arbitrary: st)
  case (Cons item "is")
  note run = Cons.prems(1) and sub = Cons.prems(2)
  have rest: "\<forall>i \<in> set is. already_terminal i \<or> reported (item_id i) (log st')"
    if "forward_pass x clean shuffle (item_by_id items) is u = (PassDone, st')" for u
    using Cons.IH that sub by simp
  have grow: "extends u st'" if "forward_pass x clean shuffle (item_by_id items) is u = (PassDone, st')" for u
    using growing.forward_pass_I [of u u "is" items x clean shuffle PassDone st'] that sub by simp
  show ?case
  proof (cases "already_terminal item")
    case True
    then show ?thesis using run rest by simp
  next
    case nt: False
    obtain s1 where b: "is_cancelled st = (False, s1)" using run nt by (auto split: prod.splits bool.splits)
    obtain c s2 where c: "take_skip (item_id item) s1 = (c, s2)" by fastforce
    show ?thesis
    proof (cases c)
      case True
      let ?u = "count_skipped (report item ''pending'' ''skipped'' None None s2)"
      have go: "forward_pass x clean shuffle (item_by_id items) is ?u = (PassDone, st')"
        using run nt b c True by simp
      have "reported (item_id item) (log ?u)" by (rule skipped_reported)
      then have "reported (item_id item) (log st')" using reported_mono grow [OF go] by blast
      then show ?thesis using rest [OF go] by simp
    next
      case nc: False
      obtain s3 where p: "process_single_item x clean item ''pending'' True s2 = (Continue, s3)"
        using run nt b c nc by (auto split: prod.splits item_outcome.splits)
      obtain s4 where d: "drain_retries x clean shuffle (item_by_id items) s3 = (DrainContinue, s4)"
        using run nt b c nc p by (auto split: prod.splits drain_outcome.splits)
      have go: "forward_pass x clean shuffle (item_by_id items) is s4 = (PassDone, st')"
        using run nt b c nc p d by simp
      have "extends s3 st'" using growing.drain_retries_I [OF _ d] grow [OF go] extends_trans extends_refl by blast
      then have "reported (item_id item) (log st')" using process_reports [OF p] reported_mono by blast
      then show ?thesis using rest [OF go] by simp
    qed
  qed
qed simp

end
