(* ===== verification/FileOpsProps.thy ===== *)
theory FileOpsProps
  imports FileOpsLaws Freshness
begin

text \<open>
  The properties of the file primitives, and a concrete instance of the third-party calls that shows
  their laws can hold.
\<close>

section \<open>A concrete instance of the third-party calls\<close>

definition std_tempfile_in :: "string \<Rightarrow> path \<Rightarrow> path io" where
  "std_tempfile_in pre dir s =
    (let p = dir @ [pre @ show_nat (ticks s)]
     in case mutate (\<lambda>s. create_entry (tree s) p (empty_file s)) s of
         (Inl e, s) \<Rightarrow> (Inl e, s)
       | (Inr _, s) \<Rightarrow> (Inr p, s))"

definition std_set_file_mtime :: "path \<Rightarrow> int \<Rightarrow> unit io" where
  "std_set_file_mtime p m = mutate (\<lambda>s.
     case entry_at (tree s) (follow (tree s) p) of
       Inl e \<Rightarrow> Inl e
     | Inr (q, File f) \<Rightarrow> Inr ((tree s)(q \<mapsto> File (f\<lparr>mtime := m\<rparr>)))
     | Inr (q, _) \<Rightarrow> Inr (tree s))"

definition std_trash_delete :: "path \<Rightarrow> os \<Rightarrow> (string + unit) \<times> os" where
  "std_trash_delete p s =
    (case mutate (\<lambda>s. case entry_at (tree s) (locate (tree s) p) of
                Inl e \<Rightarrow> Inl e
              | Inr (q, nd) \<Rightarrow> (if q = [] then Inl EBUSY
                              else Inr (\<lambda>e. if below q e then None else tree s e))) s of
       (Inl e, s) \<Rightarrow> (Inl (error_text e), s)
     | (Inr _, s) \<Rightarrow> (Inr (), s))"

definition std_extern :: extern where
  "std_extern =
    \<lparr>tempfile_in = std_tempfile_in, persist = fs_rename, drop_temp = (\<lambda>a s. snd (fs_remove_file a s)),
     set_file_mtime = std_set_file_mtime, trash_delete = std_trash_delete,
     available_space = (\<lambda>p. query Probe (\<lambda>s. Inr 0)),
     rfc3339_to_nanos = (\<lambda>_. Some 0), nanos_to_rfc3339 = (\<lambda>_. None),
     dir_len = (\<lambda>_. 0), dir_mtime = (\<lambda>_. 0),
     to_lowercase = id, marker_json = (\<lambda>pid. ''marker '' @ pid)\<rparr>"

lemma mutate_env: "mutate f s = (r, s') \<Longrightarrow> same_env s s'"
  by (erule mutate_cases) simp_all

lemma std_tempfile_ok: "tempfile_ok std_extern"
  unfolding tempfile_ok_def
proof (intro conjI allI impI)
  fix pre dir s r s'
  assume "tempfile_in std_extern pre dir s = (r, s')"
  then have run: "std_tempfile_in pre dir s = (r, s')" by (simp add: std_extern_def)
  let ?p = "dir @ [pre @ show_nat (ticks s)]"
  obtain m u where m: "mutate (\<lambda>s. create_entry (tree s) ?p (empty_file s)) s = (m, u)" by fastforce
  then have "same_env s u" by (rule mutate_env)
  then show "same_env s s'" using run m by (cases m) (auto simp: std_tempfile_in_def Let_def)
  from m show "case r of Inl _ \<Rightarrow> tree s' = tree s
      | Inr p \<Rightarrow> \<exists>n. p = dir @ [n] \<and> create_entry (tree s) p (empty_file s) = Inr (tree s')"
    by (cases rule: mutate_cases) (use run m in \<open>auto simp: std_tempfile_in_def Let_def\<close>)
next
  fix a b s r s'
  assume "persist std_extern a b s = (r, s')"
  then have run: "mutate (\<lambda>s. rename_tree (volume s) (tree s) a b) s = (r, s')"
    by (simp add: std_extern_def fs_rename_def)
  then show "same_env s s'" by (rule mutate_env)
  from run show "case r of Inl _ \<Rightarrow> tree s' = tree s
      | Inr _ \<Rightarrow> rename_tree (volume s) (tree s) a b = Inr (tree s')"
    by (cases rule: mutate_cases) auto
next
  fix a s
  obtain r s' where run: "fs_remove_file a s = (r, s')" by fastforce
  then have "drop_temp std_extern a s = s'" by (simp add: std_extern_def)
  moreover have "mutate (\<lambda>s. unlink_tree (tree s) a) s = (r, s')" using run by (simp add: fs_remove_file_def)
  ultimately show "same_env s (drop_temp std_extern a s)"
    and "tree (drop_temp std_extern a s) = tree s \<or> unlink_tree (tree s) a = Inr (tree (drop_temp std_extern a s))"
    by (auto elim!: mutate_cases)
qed

lemma std_filetime_ok: "filetime_ok std_extern"
  unfolding filetime_ok_def
proof (intro allI impI conjI)
  fix p m s r s'
  assume "set_file_mtime std_extern p m s = (r, s')"
  then have run: "std_set_file_mtime p m s = (r, s')" by (simp add: std_extern_def)
  then show "same_env s s'" unfolding std_set_file_mtime_def by (rule mutate_env)
  from run [unfolded std_set_file_mtime_def]
  show "tree s' = tree s \<or> (\<exists>q f. follow (tree s) p = Found q \<and> tree s q = Some (File f)
      \<and> tree s' = (tree s)(q \<mapsto> File (f\<lparr>mtime := m\<rparr>)))"
    by (cases rule: mutate_cases) (auto simp: entry_at_Inr split: sum.splits prod.splits node.splits)
qed

lemma std_trash_ok: "trash_ok std_extern"
  unfolding trash_ok_def
proof (intro allI impI)
  fix p s r s'
  assume "trash_delete std_extern p s = (r, s')"
  then have run: "std_trash_delete p s = (r, s')" by (simp add: std_extern_def)
  define f where "f = (\<lambda>s :: os. case entry_at (tree s) (locate (tree s) p) of
                Inl e \<Rightarrow> Inl e
              | Inr (q, nd) \<Rightarrow> (if q = [] then Inl EBUSY
                              else Inr (\<lambda>e. if below q e then None else tree s e)))"
  obtain m u where m: "mutate f s = (m, u)" by fastforce
  have "same_env s u" using m by (rule mutate_env)
  moreover from m have "case m of Inl _ \<Rightarrow> tree u = tree s | Inr _ \<Rightarrow> \<exists>q. locate (tree s) p = Found q \<and> q \<noteq> []
      \<and> tree u = (\<lambda>e. if below q e then None else tree s e)"
    by (cases rule: mutate_cases) (auto simp: f_def entry_at_Inr split: sum.splits prod.splits if_splits)
  ultimately show "same_env s s' \<and> (case r of Inl _ \<Rightarrow> tree s' = tree s | Inr _ \<Rightarrow> \<exists>q. locate (tree s) p = Found q \<and> q \<noteq> []
      \<and> tree s' = (\<lambda>e. if below q e then None else tree s e))"
    using run m unfolding std_trash_delete_def f_def [symmetric] by (cases m) auto
qed

lemma std_space_ok: "space_ok std_extern"
  by (simp add: space_ok_def std_extern_def query_def split: option.splits)

lemma std_extern_ok: "extern_ok std_extern"
  by (simp add: extern_ok_def std_tempfile_ok std_filetime_ok std_trash_ok std_space_ok)

text \<open>Two volumes: \<open>/lib\<close> is one, \<open>/usb\<close> the other.\<close>

definition two_volumes :: os where
  "two_volumes =
    \<lparr>tree = [[] \<mapsto> Dir, [''lib''] \<mapsto> Dir, [''lib'', ''m31''] \<mapsto> File \<lparr>content = ''light'', mtime = 5\<rparr>,
            [''usb''] \<mapsto> Dir],
     volume = (\<lambda>p. case p of [] \<Rightarrow> 0 | n # _ \<Rightarrow> if n = ''usb'' then 1 else 0),
     clock = 9, ticks = 0, faults = (\<lambda>_ _. None), torn = (\<lambda>_. None)\<rparr>"

lemma two_volumes_wf: "wf_tree (tree two_volumes)"
  unfolding wf_tree_def two_volumes_def by (auto split: if_splits)

lemma two_volumes_reliable: "probes_reliable two_volumes"
  by (simp add: probes_reliable_def two_volumes_def)

lemmas two_volumes_answers = probes_reliable_next [OF two_volumes_reliable]

section \<open>Move\<close>

text \<open>
  C22. Where the probe of the destination answers truthfully - the \<open>exists()\<close> that comes first, and that
  takes a failing \<open>stat\<close> for a free name - a move loses nothing, on every path through it and whichever of
  its other calls fail: every file of the tree keeps its content in a place of its own, and when the move
  fails every file is still where it was. An existing destination is not overwritten, a half-written copy
  never takes the place of a file, and no failed rollback harms the source.
\<close>

theorem move_loses_nothing:
  assumes "extern_ok x" and "wf_tree (tree s)" and "next_probe_answers s"
    and "move_file x src dst s = (r, s')"
  shows "kept (tree s) (tree s') \<and> (isl r \<longrightarrow> in_place (tree s) (tree s')) \<and> wf_tree (tree s')"
  using move_file_outcome [OF assms] move_file_sound [OF assms(1,4)] assms(2) sound_step_wf by blast

theorem move_loses_nothing_witness:
  "kept (tree two_volumes) (tree (snd (move_file std_extern [''lib'', ''m31''] [''usb'', ''m31''] two_volumes)))
   \<and> content_at (tree (snd (move_file std_extern [''lib'', ''m31''] [''usb'', ''m31''] two_volumes)))
       [''usb'', ''m31''] = Some ''light''"
proof
  show "kept (tree two_volumes) (tree (snd (move_file std_extern [''lib'', ''m31''] [''usb'', ''m31''] two_volumes)))"
    using move_loses_nothing [OF std_extern_ok two_volumes_wf two_volumes_answers]
    by (metis prod.collapse)
qed code_simp

lemma locate_free_dirs_added:
  assumes "wf_tree t" and "dirs_added t t'" and "\<And>b. locate t d \<noteq> Found b" and "locate t' d = Found b"
  shows "t' b = Some Dir"
  using walk_dirs_added [OF assms(2,1), of "[]" False MAX_LINKS d b] assms
  by (auto simp: locate_def)

lemma dirs_added_content: "dirs_added t t' \<Longrightarrow> content_at t' = content_at t"
proof
  fix p
  assume "dirs_added t t'"
  then have "t' p = t p \<or> t p = None \<and> t' p = Some Dir" by (simp add: dirs_added_def)
  then show "content_at t' p = content_at t p" by (auto simp: content_at_def)
qed

lemma rename_file_result:
  assumes t: "wf_tree t" and r: "rename_tree vol t src dst = Inr t'"
    and a: "locate t src = Found a" "t a = Some (File f)" and free: "locate t dst = Found b \<or> locate t dst = Vacant b"
    and b: "t b = None \<or> t b = Some (Link l)"
  shows "t' = (t(b \<mapsto> File f))(a := None)" and "a \<noteq> b"
proof -
  from t r obtain a' nd b' where h: "locate t src = Found a'" "locate t dst = Found b' \<or> locate t dst = Vacant b'"
      "t' = t \<and> a' = b' \<or> t' = moved a' b' t \<and> rename_moves t a' nd b'"
    by (rule rename_tree_Inr) blast
  have "a' = a" "b' = b" using h(1,2) a(1) free by auto
  with h(3) have mv: "t' = t \<and> a = b \<or> t' = moved a b t \<and> rename_moves t a nd b" by simp
  show ab: "a \<noteq> b" using a b by auto
  then have eq: "t' = moved a b t" "rename_moves t a nd b" using mv by auto
  have leaf: "t (a @ r) = None" if "r \<noteq> []" for r using wf_leaf [OF t _ that] a by simp
  have leafb: "t (b @ r) = None" if "r \<noteq> []" for r using wf_leaf [OF t _ that, of b] b by auto
  show "t' = (t(b \<mapsto> File f))(a := None)"
  proof
    fix p
    show "t' p = ((t(b \<mapsto> File f))(a := None)) p"
    proof (cases "below b p")
      case True
      then obtain r where "p = b @ r" by (auto simp: below_iff)
      moreover have "a \<noteq> b @ r" using leafb [of r] a ab by (cases "r = []") auto
      ultimately show ?thesis using eq leaf leafb a by (cases "r = []") (simp_all add: moved_eq)
    next
      case False
      then have "p \<noteq> b" by auto
      moreover have "t p = None" if "below a p" "p \<noteq> a"
        using that leaf by (metis append.right_neutral below_iff)
      ultimately show ?thesis using eq False by (auto simp: moved_eq)
    qed
  qed
qed

text \<open>
  Where the destination does not exist, what the name locates is nothing, or a link whose target does not
  exist, before and after the parent directories are made.
\<close>

definition lands_at :: "tree \<Rightarrow> path \<Rightarrow> path \<Rightarrow> path \<Rightarrow> path \<Rightarrow> tree \<Rightarrow> bool" where
  "lands_at t src dst a b t' \<longleftrightarrow>
     (\<exists>l. locate t dst = Found b \<and> t b = Some (Link l)) \<or>
     ((\<forall>q. locate t dst \<noteq> Found q) \<and> t b = None \<and> locate t' dst = Found b \<and> (\<forall>q. locate t' src \<noteq> Found q))"

lemma destination_place:
  assumes t: "wf_tree t" "wf_tree t1" "dirs_added t t1" and gone: "\<And>q. follow t dst \<noteq> Found q"
    and b: "locate t1 dst = Found b \<or> locate t1 dst = Vacant b" "t1 b \<noteq> Some Dir"
  obtains (vacant) "locate t1 dst = Vacant b" "t1 b = None" "t b = None" "\<And>q. locate t dst \<noteq> Found q"
  | (link) l where "locate t1 dst = Found b" "t1 b = Some (Link l)" "locate t dst = Found b" "t b = Some (Link l)"
proof (cases "locate t1 dst")
  case (Vacant q)
  then have q: "q = b" using b(1) by simp
  have none: "t1 b = None" using locate_Vacant [OF Vacant] q by simp
  then have "t b = None" using t(3) unfolding dirs_added_def by metis
  moreover have "locate t dst \<noteq> Found r" for r using locate_dirs_added_Found [OF t(3)] Vacant by fastforce
  ultimately show ?thesis using vacant Vacant q none by simp
next
  case (Found q)
  then have at1: "locate t1 dst = Found b" using b(1) by simp
  have at: "locate t dst = Found b"
    using walk_dirs_added [OF t(3,1), of "[]" False MAX_LINKS dst b] at1 b(2) t(1) by (simp add: locate_def)
  have same: "t1 b = t b" using locate_Found [OF t(1) at] t(3) unfolding dirs_added_def by metis
  have "\<exists>l. t b = Some (Link l)" using follow_of_locate [OF at] gone by blast
  then show ?thesis using link at at1 same by auto
next
  case (Broken e)
  then show ?thesis using b(1) by simp
qed

lemma move_file_success:
  assumes x: "extern_ok x" and t: "wf_tree (tree s)" and rel: "next_probe_answers s"
    and run: "move_file x src dst s = (Inr u, s')"
    and a: "locate (tree s) src = Found a" "tree s a = Some (File f)"
  shows "(\<forall>q. follow (tree s) dst \<noteq> Found q) \<and> (\<exists>b. lands_at (tree s) src dst a b (tree s')
    \<and> content_at (tree s') = (content_at (tree s))(b \<mapsto> content f, a := None))"
  using t rel run
proof (cases rule: move_file_cases)
  case (renamed s1 v)
  let ?t = "tree s1"
  have t1: "wf_tree ?t" "dirs_added (tree s) ?t"
    using renamed(2) t by (auto simp: dir_step_def dest: sound_step_wf)
  have a1: "locate ?t src = Found a" "?t a = Some (File f)"
    using a t1(2) locate_dirs_added_Found dirs_added_keeps by blast+
  from t1(1) renamed(4) obtain b nd where b: "locate ?t dst = Found b \<or> locate ?t dst = Vacant b"
      "tree s' = ?t \<and> a = b \<or> rename_moves ?t a nd b" "nd = File f"
    by (rule rename_tree_Inr) (use a1 in auto)
  have notdir: "?t b \<noteq> Some Dir" using b(2,3) a1(2) by (auto simp: rename_moves_def)
  from t t1 renamed(6) b(1) notdir show ?thesis
  proof (cases rule: destination_place)
    case vacant
    note res = rename_file_result [OF t1(1) renamed(4) a1 b(1) disjI1, OF vacant(2)]
    have "locate (tree s') dst = Found b"
      unfolding res(1) using res(2) a1(2)
      by (intro locate_remove_file [where f = f] locate_fill_Vacant [OF vacant(1)]) auto
    moreover have "locate (tree s') src \<noteq> Found r" for r
    proof (rule locate_gone)
      show "wf_tree (tree s')" using wf_rename_tree [OF t1(1) renamed(4)] .
      show "locate (?t(b \<mapsto> File f)) src = Found a"
        using locate_fill_Found a1(1) vacant(2) by simp
    qed (simp_all add: res(1))
    moreover have "content_at (tree s') = (content_at (tree s))(b \<mapsto> content f, a := None)"
      by (simp add: res(1) content_at_upd dirs_added_content [OF t1(2)])
    ultimately show ?thesis using vacant renamed(6) unfolding lands_at_def by blast
  next
    case (link l)
    note res = rename_file_result [OF t1(1) renamed(4) a1 b(1) disjI2, OF link(2)]
    have "content_at (tree s') = (content_at (tree s))(b \<mapsto> content f, a := None)"
      by (simp add: res(1) content_at_upd dirs_added_content [OF t1(2)])
    then show ?thesis using link renamed(6) unfolding lands_at_def by blast
  qed
next
  case (crossed s1)
  let ?t = "tree s1"
  have t1: "wf_tree ?t" "dirs_added (tree s) ?t"
    using crossed(1) t by (auto simp: dir_step_def dest: sound_step_wf)
  have a1: "locate ?t src = Found a" "?t a = Some (File f)"
    using a t1(2) locate_dirs_added_Found dirs_added_keeps by blast+
  have fol: "follow ?t src = Found a" using follow_of_locate a1 by simp
  from x t1(1) crossed(2,3) show ?thesis
  proof (cases rule: copy_then_delete_cases)
    case (moved b c w a')
    have c: "c = content f" using moved(9) [OF fol] a1(2) by (simp add: content_at_def)
    have cw: "content_at w = (content_at (tree s))(b \<mapsto> content f)"
      using moved(2) c dirs_added_content [OF t1(2)] by (simp add: copied_to_def)
    from t t1 crossed(4) moved(8,7) show ?thesis
    proof (cases rule: destination_place)
      case vacant
      have ab: "a \<noteq> b" using a1(2) vacant(2) by auto
      have "a' = a" using moved(2,3) a1(1) vacant(2) by (auto simp: copied_to_def)
      have "content_at w a \<noteq> None" using cw ab a(2) by (simp add: content_at_def)
      then obtain g where g: "w a = Some (File g)" using content_at_SomeD by blast
      have "locate (tree s') dst = Found b"
        using g locate_remove_file [of w a g dst b] moved(2,4) vacant(1) ab \<open>a' = a\<close> by (auto simp: copied_to_def)
      moreover have "content_at (tree s') = (content_at (tree s))(b \<mapsto> content f, a := None)"
        using moved(4) \<open>a' = a\<close> cw by (simp add: content_at_upd)
      moreover have "locate (tree s') src \<noteq> Found r" for r
        by (rule locate_gone [OF sound_step_wf [OF move_file_sound [OF x run] t] _ _ moved(3)]) (simp_all add: moved(4))
      ultimately show ?thesis using vacant crossed(4) unfolding lands_at_def by blast
    next
      case (link l)
      have "a' \<noteq> b" using moved(10) [OF link(2)] a1 link(2) by auto
      then have "locate ?t src = Found a'" using moved(2,3) unfolding copied_to_def by blast
      then have "a' = a" using a1(1) by simp
      then have "content_at (tree s') = (content_at (tree s))(b \<mapsto> content f, a := None)"
        using moved(4) cw by (simp add: content_at_upd)
      then show ?thesis using link crossed(4) unfolding lands_at_def by blast
    qed
  qed simp_all
qed simp_all

text \<open>
  C34. Where the probe of the destination answers truthfully, a move that reports success found no entry
  behind the destination name, and has moved the file: its content is at the new place, the old place is
  free, and no other file changed, whether the two names lie on one volume or the move went through a copy.
  The new place is found under the destination name and the source name is free; or the name was a link
  without a target, and the file has taken the place of the link.
\<close>

theorem move_success_moves_exactly_the_file:
  assumes "extern_ok x" and "wf_tree (tree s)" and "next_probe_answers s"
    and "move_file x src dst s = (Inr u, s')"
    and "locate (tree s) src = Found a" and "tree s a = Some (File f)"
  shows "(\<forall>q. follow (tree s) dst \<noteq> Found q) \<and>
    (\<exists>b. content_at (tree s) b = None \<and> content_at (tree s') = (content_at (tree s))(b \<mapsto> content f, a := None) \<and>
      (if \<exists>q. locate (tree s) dst = Found q then locate (tree s) dst = Found b
       else tree s b = None \<and> locate (tree s') dst = Found b \<and> (\<forall>r. locate (tree s') src \<noteq> Found r)))"
proof -
  obtain b where b: "\<forall>q. follow (tree s) dst \<noteq> Found q" "lands_at (tree s) src dst a b (tree s')"
    "content_at (tree s') = (content_at (tree s))(b \<mapsto> content f, a := None)"
    using move_file_success [OF assms] by blast
  moreover from b(2) have "content_at (tree s) b = None" by (auto simp: lands_at_def content_at_def)
  ultimately show ?thesis by (intro conjI exI [of _ b]) (auto simp: lands_at_def)
qed

theorem move_success_moves_exactly_the_file_witness:
  "\<exists>b. locate (tree (snd (move_file std_extern [''lib'', ''m31''] [''usb'', ''m31''] two_volumes))) [''usb'', ''m31''] = Found b
    \<and> tree two_volumes b = None
    \<and> content_at (tree (snd (move_file std_extern [''lib'', ''m31''] [''usb'', ''m31''] two_volumes)))
        = (content_at (tree two_volumes))(b \<mapsto> ''light'', [''lib'', ''m31''] := None)"
proof -
  let ?run = "move_file std_extern [''lib'', ''m31''] [''usb'', ''m31''] two_volumes"
  have "\<not> isl (fst ?run)" by code_simp
  then have run: "?run = (Inr (), snd ?run)" by (cases ?run; cases "fst ?run") auto
  have src: "locate (tree two_volumes) [''lib'', ''m31''] = Found [''lib'', ''m31'']"
      "tree two_volumes [''lib'', ''m31''] = Some (File \<lparr>content = ''light'', mtime = 5\<rparr>)"
    by (simp_all add: locate_def MAX_LINKS_def two_volumes_def)
  have "locate (tree two_volumes) [''usb'', ''m31''] \<noteq> Found b" for b
    by (simp add: locate_def MAX_LINKS_def two_volumes_def)
  then show ?thesis
    using move_success_moves_exactly_the_file [OF std_extern_ok two_volumes_wf two_volumes_answers run src] by auto
qed

lemma failed_probe_is_absent:
  assumes "\<not> next_probe_answers s"
  shows "path_exists p s = (False, tick s)"
  using assms by (auto simp: next_probe_answers_def path_exists_def fs_metadata_def query_def split: option.splits)

text \<open>
  Where the \<open>stat\<close> of the probe fails, \<open>exists()\<close> takes an occupied name for a free one, and the rename
  of the system replaces the file there: the move reports success, and the content of that file is lost.
\<close>

theorem failed_probe_lets_a_move_overwrite:
  assumes "\<not> next_probe_answers s" and "ensure_parent dst (tick s) = (Inr v, s1)" and "tree s1 = tree s"
    and "fs_rename src dst s1 = (Inr (), s')"
    and "wf_tree (tree s)" and "locate (tree s) src = Found a" and "tree s a = Some (File f)"
    and "locate (tree s) dst = Found b" and "tree s b = Some (File g)" and "a \<noteq> b"
  shows "move_file x src dst s = (Inr (), s') \<and> content_at (tree s') = (content_at (tree s))(b \<mapsto> content f, a := None)"
proof
  show "move_file x src dst s = (Inr (), s')"
    using assms(2,4) failed_probe_is_absent [OF assms(1)] by (simp add: move_file_def move_file_with_ops_def)
  obtain t' where t': "rename_tree (volume s1) (tree s) src dst = Inr t'" "tree s' = t'"
    using assms(3,4) unfolding fs_rename_def by (auto elim!: mutate_cases)
  from assms(5) t'(1) obtain nd where "t' = tree s \<and> a = b \<or> t' = moved a b (tree s) \<and> rename_moves (tree s) a nd b"
    by (rule rename_tree_Inr) (use assms in auto)
  then have mv: "t' = moved a b (tree s)" using assms(10) by simp
  have leaf: "tree s (a @ r) = None" "tree s (b @ r) = None" if "r \<noteq> []" for r
    using wf_leaf [OF assms(5) _ that] assms(7,9) by simp_all
  have "t' p = ((tree s)(b \<mapsto> File f, a := None)) p" for p
  proof (cases "below b p")
    case True
    then obtain r where r: "p = b @ r" by (auto simp: below_iff)
    then have "a \<noteq> p" using leaf(2) [of r] assms(7,10) by (cases "r = []") auto
    then show ?thesis using r mv leaf assms(7) by (cases "r = []") (simp_all add: moved_eq)
  next
    case False
    then have "p \<noteq> b" by auto
    moreover have "tree s p = None" if "below a p" "p \<noteq> a" using that leaf(1) by (metis append.right_neutral below_iff)
    ultimately show ?thesis using mv False by (auto simp: moved_eq)
  qed
  then have "t' = (tree s)(b \<mapsto> File f, a := None)" by auto
  then show "content_at (tree s') = (content_at (tree s))(b \<mapsto> content f, a := None)"
    using t'(2) by (simp add: content_at_upd)
qed

text \<open>Two files of one volume; the first \<open>stat\<close> fails.\<close>

definition failing_probe :: os where
  "failing_probe = two_volumes\<lparr>tree := (tree two_volumes)([''lib'', ''old''] \<mapsto> File \<lparr>content = ''dark'', mtime = 3\<rparr>),
     faults := (\<lambda>c n. if c = Probe \<and> n = 0 then Some (os_error EK_Other 5 ''Input/output error'') else None)\<rparr>"

theorem failed_probe_lets_a_move_overwrite_witness:
  "content_at (tree (snd (move_file std_extern [''lib'', ''m31''] [''lib'', ''old''] failing_probe)))
     = (content_at (tree failing_probe))([''lib'', ''old''] \<mapsto> ''light'', [''lib'', ''m31''] := None)
   \<and> content_at (tree failing_probe) [''lib'', ''old''] = Some ''dark''"
proof -
  let ?old = "[''lib'', ''old'']" and ?m31 = "[''lib'', ''m31'']"
  have up: "\<not> isl (fst (ensure_parent ?old (tick failing_probe)))" by code_simp
  define s1 where "s1 = snd (ensure_parent ?old (tick failing_probe))"
  have e: "ensure_parent ?old (tick failing_probe) = (Inr (), s1)"
    using up by (cases "ensure_parent ?old (tick failing_probe)"; cases "fst (ensure_parent ?old (tick failing_probe))") (auto simp: s1_def)
  have "\<not> isl (fst (fs_rename ?m31 ?old s1))" unfolding s1_def by code_simp
  then have r: "fs_rename ?m31 ?old s1 = (Inr (), snd (fs_rename ?m31 ?old s1))"
    by (cases "fs_rename ?m31 ?old s1"; cases "fst (fs_rename ?m31 ?old s1)") auto
  have t1: "tree s1 = tree failing_probe"
    by (simp add: s1_def ensure_parent_def path_parent_def path_exists_def fs_metadata_def query_def tick_def
        failing_probe_def two_volumes_def follow_def MAX_LINKS_def entry_at_def)
  have wf: "wf_tree (tree failing_probe)"
    unfolding wf_tree_def failing_probe_def two_volumes_def by (auto split: if_splits)
  have "\<not> next_probe_answers failing_probe" by (simp add: next_probe_answers_def failing_probe_def two_volumes_def)
  from failed_probe_lets_a_move_overwrite [OF this e t1 r wf, of ?m31 "\<lparr>content = ''light'', mtime = 5\<rparr>" ?old
      "\<lparr>content = ''dark'', mtime = 3\<rparr>" std_extern]
  show ?thesis
    by (simp add: failing_probe_def two_volumes_def locate_def MAX_LINKS_def content_at_def)
qed

lemma from_io_not_copy_code:
  "code (from_io e c) \<notin> {CopySucceededDeleteFailed, CopySucceededDeleteFailedRollbackFailed}"
  by (simp add: classify_io_error_def split: error_kind.splits option.splits)

lemma no_rollback_attempted [simp]: "\<not> rollback_attempted no_rollback"
  by (simp add: no_rollback_def)

text \<open>
  C32. The two codes of a cross-volume move whose last step failed say what is on disk. With
  \<open>copy.succeeded.delete.failed\<close> the copy was rolled back and every file is as before; with
  \<open>copy.succeeded.delete.failed.rollback.failed\<close> the one difference is a complete second copy. No
  other failure attempts a rollback.
\<close>

theorem rollback_codes_tell_the_disk_state:
  assumes "extern_ok x" and "wf_tree (tree s)" and "probes_reliable s"
    and "move_file x src dst s = (Inl (f, m), s')"
    and "locate (tree s) src = Found a" and "tree s a = Some (File g)"
    and "\<And>b. locate (tree s) dst \<noteq> Found b"
  shows "(code f = CopySucceededDeleteFailed \<longrightarrow>
            rollback_outcome m = Succeeded \<and> content_at (tree s') = content_at (tree s))
    \<and> (code f = CopySucceededDeleteFailedRollbackFailed \<longrightarrow>
            rollback_outcome m = RollbackFailed
            \<and> (\<exists>b. tree s b = None \<and> content_at (tree s') = (content_at (tree s))(b \<mapsto> content g)))
    \<and> (rollback_attempted m \<longleftrightarrow>
            code f \<in> {CopySucceededDeleteFailed, CopySucceededDeleteFailedRollbackFailed})"
  using assms(2) probes_reliable_next [OF assms(3)] assms(4)
proof (cases rule: move_file_cases)
  case (crossed s1)
  let ?t = "tree s1"
  have t1: "wf_tree ?t" "dirs_added (tree s) ?t"
    using crossed(1) assms(2) by (auto simp: dir_step_def dest: sound_step_wf)
  have fol: "follow ?t src = Found a" and ca: "content_at ?t a = Some (content g)"
    using assms(5,6) t1(2) locate_dirs_added_Found [OF t1(2)] dirs_added_keeps [OF t1(2)] follow_of_locate
    by (auto simp: content_at_def)
  have vac: "locate ?t dst = Vacant b" if "locate ?t dst = Found b \<or> locate ?t dst = Vacant b" "?t b \<noteq> Some Dir" for b
    using that locate_free_dirs_added [OF assms(2) t1(2) assms(7)] by auto
  from assms(1) t1(1) crossed(2,3) show ?thesis
  proof (cases rule: copy_then_delete_cases)
    case (not_copied k e ctx)
    then show ?thesis using from_io_not_copy_code [of e ctx] by auto
  next
    case (rolled_back msg b c u q)
    note v = vac [OF rolled_back(6,7)]
    then have "q = b" "?t b = None" using rolled_back(2,3) locate_Vacant [OF v] by (auto simp: copied_to_def)
    then have "content_at (tree s') = content_at ?t"
      using rolled_back(2,4) by (auto simp: copied_to_def content_at_upd fun_upd_idem)
    then show ?thesis using rolled_back(1) dirs_added_content [OF t1(2)] by simp
  next
    case (left_copy msg b c k)
    note v = vac [OF left_copy(4,5)]
    have "tree s b = None" using locate_Vacant [OF v] t1(2) unfolding dirs_added_def by metis
    moreover have "content_at (tree s') = (content_at (tree s))(b \<mapsto> content g)"
      using left_copy(2,6) fol ca dirs_added_content [OF t1(2)] by (auto simp: copied_to_def)
    ultimately show ?thesis using left_copy(1) by auto
  qed simp
next
  case (refused k e ctx)
  then show ?thesis using from_io_not_copy_code [of e ctx] by auto
qed simp_all

text \<open>The source delete fails at its call; the rollback succeeds.\<close>

definition stuck_source :: os where
  "stuck_source = two_volumes\<lparr>faults := (\<lambda>c n. if c = Mutate \<and> n = 8 then Some EPERM else None)\<rparr>"

theorem rollback_codes_tell_the_disk_state_witness:
  "content_at (tree (snd (move_file std_extern [''lib'', ''m31''] [''usb'', ''m31''] stuck_source)))
     = content_at (tree stuck_source)"
proof -
  let ?run = "move_file std_extern [''lib'', ''m31''] [''usb'', ''m31''] stuck_source"
  have c: "isl (fst ?run) \<and> code (fst (projl (fst ?run))) = CopySucceededDeleteFailed" by code_simp
  then have run: "?run = (Inl (fst (projl (fst ?run)), snd (projl (fst ?run))), snd ?run)"
    by (cases ?run; cases "fst ?run") auto
  have wf: "wf_tree (tree stuck_source)" and rel: "probes_reliable stuck_source"
    using two_volumes_wf by (simp_all add: stuck_source_def probes_reliable_def)
  have src: "locate (tree stuck_source) [''lib'', ''m31''] = Found [''lib'', ''m31'']"
      "tree stuck_source [''lib'', ''m31''] = Some (File \<lparr>content = ''light'', mtime = 5\<rparr>)"
    by (simp_all add: locate_def MAX_LINKS_def stuck_source_def two_volumes_def)
  have "locate (tree stuck_source) [''usb'', ''m31''] \<noteq> Found b" for b
    by (simp add: locate_def MAX_LINKS_def stuck_source_def two_volumes_def)
  then show ?thesis
    using rollback_codes_tell_the_disk_state [OF std_extern_ok wf rel run src] c by blast
qed

section \<open>Links, directories, marker\<close>

text \<open>
  Creating a link, a copy, a directory or the project marker changes no file that is there,
  whatever fails and whatever the destination is; an occupied destination of a link or copy (a
  dangling link included) is refused with the conflict code and nothing is touched.
\<close>

theorem creating_changes_no_file:
  assumes "extern_ok x" and "wf_tree (tree s)" and "probes_reliable s"
  shows "in_place (tree s) (tree (snd (create_link x src dst k s)))
    \<and> in_place (tree s) (tree (snd (make_dir dst s)))
    \<and> in_place (tree s) (tree (snd (write_marker x dst pid s)))
    \<and> (\<forall>q. locate (tree s) dst = Found q \<longrightarrow>
         (\<exists>f. fst (create_link x src dst k s) = Inl f \<and> code f = ConflictDestinationExists)
         \<and> tree (snd (create_link x src dst k s)) = tree s)"
proof (intro conjI allI impI)
  show "in_place (tree s) (tree (snd (create_link x src dst k s)))"
    using create_link_in_place [OF assms] by (metis prod.collapse)
  show "in_place (tree s) (tree (snd (make_dir dst s)))"
    using make_dir_dir_step dirs_added_in_place unfolding dir_step_def by (metis prod.collapse)
  show "in_place (tree s) (tree (snd (write_marker x dst pid s)))"
    using write_marker_in_place [OF assms] by (metis prod.collapse)
next
  fix q
  assume q: "locate (tree s) dst = Found q"
  obtain b s1 where b: "occupied dst s = (b, s1)" by fastforce
  then have "b" using occupied_False(2) [OF assms(2,3)] q by (cases b) auto
  then show "\<exists>f. fst (create_link x src dst k s) = Inl f \<and> code f = ConflictDestinationExists"
    and "tree (snd (create_link x src dst k s)) = tree s"
    using b occupied_state [OF b] by (simp_all add: create_link_def)
qed

theorem creating_changes_no_file_witness:
  "code (projl (fst (create_link std_extern [''lib''] [''lib'', ''m31''] Symlink two_volumes))) = ConflictDestinationExists"
proof -
  have "locate (tree two_volumes) [''lib'', ''m31''] = Found [''lib'', ''m31'']"
    by (simp add: locate_def MAX_LINKS_def two_volumes_def)
  then show ?thesis
    using creating_changes_no_file [OF std_extern_ok two_volumes_wf two_volumes_reliable,
        of "[''lib'']" "[''lib'', ''m31'']" Symlink "[]"] by auto
qed

lemma write_marker_result:
  assumes x: "extern_ok x" and t: "wf_tree (tree s)" and rel: "probes_reliable s"
    and free: "\<And>b. locate (tree s) d \<noteq> Found b" and run: "write_marker x d pid s = (Inr u, s')"
  shows "\<exists>b. locate (tree s') d = Found b \<and> content_at (tree s') b = Some (render_marker x pid)
     \<and> \<not> is_blank pid"
  using run
proof (cases rule: write_marker_cases)
  case (identical u s1 s2 s3)
  have "\<exists>q nd. entry_at (tree s) (follow (tree s) d) = Inr (q, nd)"
    using path_exists_reliable [OF rel identical(2)] by blast
  then obtain q nd where "follow (tree s) d = Found q" by (auto simp: entry_at_Inr)
  then show ?thesis using free follow_found_located [of "tree s" d q] by auto
next
  case (written u s1 s2 tmp s3 v s4 w)
  from x written(4,5) obtain q g where q: "locate (tree s2) tmp = Vacant q" "tree s4 = (tree s2)(q \<mapsto> File g)"
      "content g = render_marker x pid"
    by (rule temp_written) auto
  have s2: "wf_tree (tree s2)" "dirs_added (tree s) (tree s2)"
    using written(3) t by (auto simp: dir_step_def dest: sound_step_wf)
  from x written(6) obtain b where b: "tree s' = (tree s2)(b \<mapsto> File g)"
      "locate (tree s2) d = Found b \<or> locate (tree s2) d = Vacant b" "tree s2 b \<noteq> Some Dir"
    by (cases rule: persist_cases) (use q persist_fresh [OF s2(1) q(1)] in \<open>metis sum.distinct(1)\<close>)+
  then have "locate (tree s2) d = Vacant b"
    using locate_free_dirs_added [OF t s2(2) free] by blast
  then have "locate (tree s') d = Found b" using locate_fill_Vacant b(1) by simp
  then show ?thesis using b(1) q(3) written(7) by (auto simp: content_at_upd)
qed simp_all

text \<open>
  Writing the project marker is idempotent: after it succeeded on a free destination the file
  holds the marker, and writing it again succeeds and leaves the tree as it is.
\<close>

theorem marker_write_is_idempotent:
  assumes "extern_ok x" and "wf_tree (tree s)" and "probes_reliable s"
    and "\<And>n. faults s Read n = None" and "\<And>b. locate (tree s) d \<noteq> Found b"
    and "write_marker x d pid s = (Inr u, s')"
  shows "\<exists>b. locate (tree s') d = Found b \<and> content_at (tree s') b = Some (render_marker x pid)
    \<and> fst (write_marker x d pid s') = Inr () \<and> tree (snd (write_marker x d pid s')) = tree s'"
proof -
  obtain b where b: "locate (tree s') d = Found b" "content_at (tree s') b = Some (render_marker x pid)" "\<not> is_blank pid"
    using write_marker_result [OF assms(1,2,3,5,6)] by blast
  then obtain f where f: "tree s' b = Some (File f)" "content f = render_marker x pid" using content_at_SomeD by blast
  then have fol: "entry_at (tree s') (follow (tree s') d) = Inr (b, File f)"
    using follow_of_locate [OF b(1)] by (simp add: entry_at_Inr)
  have env: "same_env s s'" using write_marker_sound [OF assms(1,6)] sound_step_env by blast
  then have rel: "probes_reliable s'" "probes_reliable (tick s')" "faults s' Read n = None" for n
    using assms(3,4) by (simp_all add: same_env_def probes_reliable_def)
  have "write_marker x d pid s' = (Inr (), tick (tick (tick s')))"
    using b(3) fol f(2) rel(3)
    by (simp add: write_marker_def Let_def path_exists_def path_is_file_def fs_metadata_reliable [OF rel(1)]
        fs_metadata_reliable [OF rel(2)] fs_read_to_string_def query_def)
  then show ?thesis using b by auto
qed

theorem marker_write_is_idempotent_witness:
  "\<exists>b. content_at (tree (snd (write_marker std_extern [''lib'', ''p'', ''marker''] ''p1'' two_volumes))) b
       = Some (render_marker std_extern ''p1'')"
proof -
  let ?run = "write_marker std_extern [''lib'', ''p'', ''marker''] ''p1'' two_volumes"
  have "\<not> isl (fst ?run)" by code_simp
  then have run: "?run = (Inr (), snd ?run)" by (cases ?run; cases "fst ?run") auto
  have free: "locate (tree two_volumes) [''lib'', ''p'', ''marker''] \<noteq> Found b" for b
    by (simp add: locate_def MAX_LINKS_def two_volumes_def)
  have reads: "faults two_volumes Read n = None" for n by (simp add: two_volumes_def)
  show ?thesis
    using marker_write_is_idempotent [OF std_extern_ok two_volumes_wf two_volumes_reliable reads free run] by blast
qed

section \<open>Delete and trash\<close>

lemma trash_file_sound:
  assumes x: "extern_ok x" and run: "trash_file x p fb s = (r, s')"
  shows "sound_step s s'"
proof -
  have del: "sound_step s u" if "trash_delete x p s = (t, u)" for t u
    using x that
  proof (cases rule: trash_delete_cases)
    case (trashed v q)
    then show ?thesis using wf_remove_below [of "tree s" q] by (simp add: sound_step_def)
  qed (simp add: sound_step_def)
  from run show ?thesis
    by (cases rule: trash_file_cases)
      (use del move_file_sound [OF x] in \<open>auto simp: archive_file_def intro: sound_step_trans\<close>)
qed

lemma archive_after_failed_trash:
  assumes x: "extern_ok x" and t: "wf_tree (tree s)" and rel: "probes_reliable s"
    and "trash_delete x p s = (Inl e, s1)" and run: "archive_file x p d s1 = (r, s')"
  shows "kept (tree s) (tree s') \<and> (isl r \<longrightarrow> in_place (tree s) (tree s'))"
proof -
  from x assms(4) have "tree s1 = tree s" "same_env s s1" by (cases rule: trash_delete_cases; simp)+
  then show ?thesis
    using move_file_outcome [OF x, of s1 p d r s'] t rel run probes_reliable_env [of s s1] probes_reliable_next [of s1]
    by (simp add: archive_file_def)
qed

text \<open>
  C35. Where every \<open>stat\<close> answers truthfully (\<open>probes_reliable\<close>; the fallback to the archive asks whether its
  destination exists), trash never loses a file it did not hand to the trash: when it fails, with or without
  a fallback, every file is where it was; when it falls back to the archive, every content is kept and
  the result says so; when the desktop's trash took the entry, nothing outside the entry changed.
\<close>

theorem trash_loses_only_what_it_trashed:
  assumes "extern_ok x" and "wf_tree (tree s)" and "probes_reliable s"
    and "trash_file x p fb s = (r, s')"
  shows "(isl r \<longrightarrow> in_place (tree s) (tree s'))
    \<and> (\<forall>tr. r = Inr tr \<longrightarrow>
         (destination_used tr = ''archive'' \<and> fb \<noteq> None \<and> kept (tree s) (tree s'))
         \<or> (destination_used tr = ''trash'' \<and>
             (\<exists>q. locate (tree s) p = Found q \<and> (\<forall>e. below q e \<or> tree s' e = tree s e))))"
  using assms(4)
proof (cases rule: trash_file_cases)
  case (trashed u)
  from assms(1) trashed(1) show ?thesis
    by (cases rule: trash_delete_cases) (use trashed(2) in \<open>auto simp: trash_result_default_def\<close>)
next
  case (no_fallback e f)
  from assms(1) no_fallback(1) show ?thesis
    by (cases rule: trash_delete_cases) (use no_fallback(3) in auto)
next
  case (archived e s1 d v m)
  then show ?thesis using archive_after_failed_trash [OF assms(1-3) archived(1,3)] by simp
next
  case (both_failed e s1 d m g)
  then show ?thesis using archive_after_failed_trash [OF assms(1-3) both_failed(1,3)] by auto
qed

text \<open>The trash is not available; the item falls back to the archive.\<close>

definition no_trash :: extern where
  "no_trash = std_extern\<lparr>trash_delete := (\<lambda>p s. (Inl ''no trash'', tick s))\<rparr>"

lemma no_trash_ok: "extern_ok no_trash"
  using std_extern_ok
  unfolding extern_ok_def tempfile_ok_def filetime_ok_def trash_ok_def space_ok_def no_trash_def
  by simp

theorem trash_loses_only_what_it_trashed_witness:
  "kept (tree two_volumes) (tree (snd (trash_file no_trash [''lib'', ''m31''] (Some [''lib'', ''.arch'', ''m31'']) two_volumes)))"
proof -
  let ?run = "trash_file no_trash [''lib'', ''m31''] (Some [''lib'', ''.arch'', ''m31'']) two_volumes"
  have c: "\<not> isl (fst ?run) \<and> destination_used (projr (fst ?run)) = ''archive''" by code_simp
  then obtain tr where tr: "fst ?run = Inr tr" "destination_used tr = ''archive''"
    by (cases "fst ?run") auto
  then have run: "?run = (Inr tr, snd ?run)" by (metis prod.collapse)
  show ?thesis
    using trash_loses_only_what_it_trashed [OF no_trash_ok two_volumes_wf two_volumes_reliable run] tr(2)
    by simp
qed

lemma delete_file_cases:
  assumes "delete_file p c s = (r, s')"
  obtains (blocked) f m where "\<not> c" "r = Inl (f, m)" "code f = ProtectedSource" "s' = s"
  | (failed) f m where "c" "r = Inl (f, m)" "s' = tick s"
  | (deleted) q nd where "c" "r = Inr ()" "locate (tree s) p = Found q" "tree s q = Some nd" "nd \<noteq> Dir"
      "s' = (tick s)\<lparr>tree := (tree s)(q := None)\<rparr>"
proof (cases c)
  case True
  obtain d u where d: "fs_remove_file p s = (d, u)" by fastforce
  from d show ?thesis
    by (cases rule: remove_file_cases) (use assms True d failed deleted in \<open>auto simp: delete_file_def Let_def\<close>)
qed (use assms blocked in \<open>auto simp: delete_file_def Let_def\<close>)

text \<open>
  C31. Permanent delete happens behind the confirmation only: without it nothing is touched and the
  failure is \<open>protected.source\<close>; with it, success removes exactly the one entry the path names,
  never a directory, and failure removes nothing.
\<close>

theorem delete_removes_one_confirmed_entry:
  "(fst (delete_file p False s), tree (snd (delete_file p False s))) =
     (Inl (with_code ProtectedSource
        (''permanent delete requires explicit confirmation; blocked: '' @ show_path p),
       \<lparr>delete_rollback_attempted = False, delete_rollback_outcome = NotApplicable\<rparr>), tree s)
   \<and> (if isl (fst (delete_file p True s)) then tree (snd (delete_file p True s)) = tree s
      else \<exists>q. locate (tree s) p = Found q \<and> tree s q \<notin> {None, Some Dir}
             \<and> tree (snd (delete_file p True s)) = (tree s)(q := None))"
proof
  obtain r s' where run: "delete_file p True s = (r, s')" by fastforce
  from run show "if isl (fst (delete_file p True s)) then tree (snd (delete_file p True s)) = tree s
      else \<exists>q. locate (tree s) p = Found q \<and> tree s q \<notin> {None, Some Dir}
             \<and> tree (snd (delete_file p True s)) = (tree s)(q := None)"
    by (cases rule: delete_file_cases) (use run in auto)
qed (simp add: delete_file_def Let_def)

section \<open>Freshness on an example\<close>

text \<open>A clock format that knows one instant.\<close>

definition stamped :: extern where
  "stamped = std_extern
    \<lparr>rfc3339_to_nanos := (\<lambda>t. if t = ''T5'' then Some 5 else None),
     nanos_to_rfc3339 := (\<lambda>n. if n = 5 then Some ''T5'' else None)\<rparr>"

definition m31_snapshot :: cas_snapshot where
  "m31_snapshot = \<lparr>approved_mtime = Some ''T5'', approved_size_bytes = Some 5\<rparr>"

definition two_volumes_later :: os where
  "two_volumes_later = two_volumes\<lparr>tree := (tree two_volumes)([''lib'', ''new''] \<mapsto> Dir), clock := 50\<rparr>"

lemma m31_entry:
  "entry_at (tree two_volumes) (follow (tree two_volumes) [''lib'', ''m31''])
     = Inr ([''lib'', ''m31''], File \<lparr>content = ''light'', mtime = 5\<rparr>)"
  by (simp add: follow_def MAX_LINKS_def two_volumes_def entry_at_def)

theorem cas_accepts_unchanged_witness:
  "fst (check_cas stamped [''lib'', ''m31''] m31_snapshot two_volumes_later) = Inr ()"
proof (rule cas_accepts_unchanged [of two_volumes])
  show "probes_reliable two_volumes_later"
    by (simp add: probes_reliable_def two_volumes_later_def two_volumes_def)
  show "rfc3339_to_nanos stamped stamp = Some n" if "nanos_to_rfc3339 stamped n = Some stamp" for n stamp
    using that by (simp add: stamped_def split: if_splits)
  show "snapshot_from_metadata stamped [''lib'', ''m31''] two_volumes = (Some m31_snapshot, tick two_volumes)"
    using m31_entry
    by (simp add: snapshot_from_metadata_def fs_metadata_reliable [OF two_volumes_reliable] meta_modified_def
        meta_len_def len_as_i64_def I64_MAX_def stamped_def m31_snapshot_def)
  show "entry_at (tree two_volumes_later) (follow (tree two_volumes_later) [''lib'', ''m31''])
      = entry_at (tree two_volumes) (follow (tree two_volumes) [''lib'', ''m31''])"
    by (simp add: follow_def MAX_LINKS_def two_volumes_later_def two_volumes_def entry_at_def)
qed (rule two_volumes_reliable)

theorem cas_reports_changes_witness:
  "\<exists>f. fst (check_cas std_extern [''lib'', ''m31''] \<lparr>approved_mtime = None, approved_size_bytes = Some 6\<rparr> two_volumes)
         = Inl f \<and> code f = ItemStale"
proof -
  let ?s = "\<lparr>approved_mtime = None, approved_size_bytes = Some 6\<rparr>"
  let ?run = "check_cas std_extern [''lib'', ''m31''] ?s two_volumes"
  have "?run = (fst ?run, snd ?run)" by simp
  from cas_reports_changes [OF two_volumes_reliable this, of 6] m31_entry
  show ?thesis by (auto simp: len_as_i64_def meta_len_def I64_MAX_def)
qed

end
