(* ===== verification/RunProps.thy ===== *)
theory RunProps
  imports RunLaws FileOpsProps
begin

text \<open>
  What the executor promises of a whole run, for every list of items, every schedule of the other
  tasks and every failure of the calls it makes; and an example run on which each promise applies.
\<close>

section \<open>An example\<close>

definition example_item :: "string \<Rightarrow> executor_action \<Rightarrow> executor_item" where
  "example_item k a =
    \<lparr>item_id = k, plan_id = ''p'', action = a, source_path = Some ''m31'', destination_path = Some ''m31'',
     library_root = Some ''/lib'', destination_root = Some ''/usb'',
     cas_snapshot_of = \<lparr>approved_mtime = None, approved_size_bytes = Some 5\<rparr>, is_protected = False,
     requires_destructive_confirm = False, destructive_confirmed = False, current_state = ''pending''\<rparr>"

text \<open>
  A move across volumes, retried while it runs; an unconfirmed delete; retries of an unknown item and
  of the delete.
\<close>

definition example_items :: "executor_item list" where
  "example_items =
    [example_item ''a'' Move,
     (example_item ''b'' Delete)\<lparr>requires_destructive_confirm := True\<rparr>]"

definition example_run :: run_state where
  "example_run =
    \<lparr>sys = two_volumes, shared = \<lparr>cancel_flag = False, skip_set = [], retries = rq_new\<rparr>,
     schedule = [[], [RequestRetry ''a''], [RequestRetry ''c''], [], [], [], [], [], [RequestRetry ''b'']],
     counts = zero_counts, log = []\<rparr>"

definition example_result :: "apply_outcome \<times> run_state" where
  "example_result = execute_plan std_extern lexical_clean (\<lambda>xs. xs) example_items example_run"

lemma example_run_simps [simp]:
  "log example_run = []" "sys example_run = two_volumes" "retries (shared example_run) = rq_new"
  "cancel_flag (shared example_run) = False"
  by (simp_all add: example_run_def)

lemma example_result_run:
  "execute_plan std_extern lexical_clean (\<lambda>xs. xs) example_items example_run
     = (fst example_result, snd example_result)"
  by (simp add: example_result_def)

section \<open>Properties\<close>

text \<open>
  C10. Where every \<open>stat\<close> and \<open>lstat\<close> answers truthfully (\<open>probes_reliable\<close>; a failing one makes an occupied
  destination look free), a run loses no file: whatever other tasks request and whichever of the other calls
  fail, after a run over items none of which is a confirmed delete or a permitted trash, every file that
  existed before has a place of its own with its content.
\<close>

theorem run_loses_nothing:
  assumes "extern_ok x" and "wf_tree (tree (sys st))" and "probes_reliable (sys st)"
    and "\<And>item. item \<in> set items \<Longrightarrow> \<not> may_destroy item"
    and "execute_plan x clean shuffle items st = (out, st')"
  shows "kept (tree (sys st)) (tree (sys st')) \<and> wf_tree (tree (sys st'))"
proof -
  have "keeps_files (sys st) (sys st')"
    using files_kept.execute_plan_I(1) [OF _ assms(5), of "sys st"] assms(1,4) by simp
  then show ?thesis using assms(2,3) by (auto simp: keeps_files_def dest: sound_step_wf)
qed

lemma example_items_mild: "item \<in> set example_items \<Longrightarrow> \<not> may_destroy item"
  by (auto simp: example_items_def example_item_def may_destroy_def)

theorem run_loses_nothing_witness:
  "kept (tree two_volumes) (tree (sys (snd example_result)))
   \<and> content_at (tree (sys (snd example_result))) [''usb'', ''m31''] = Some ''light''"
proof
  show "kept (tree two_volumes) (tree (sys (snd example_result)))"
    using run_loses_nothing [OF std_extern_ok _ _ example_items_mild example_result_run]
      two_volumes_wf two_volumes_reliable by simp
  show "content_at (tree (sys (snd example_result))) [''usb'', ''m31''] = Some ''light''" by code_simp
qed

text \<open>
  C27. The counters a run returns are the tally of the progress events it reported: succeeded items,
  items that failed, were refused or found stale, and skipped items, retries included.
\<close>

theorem counters_are_the_tally_of_events:
  assumes "log st = []" and "execute_plan x clean shuffle items st = (out, st')"
  shows "outcome_counts out = tally (log st')"
  using counted.execute_plan_I(1) [OF _ assms(2)] execute_plan_counts [OF assms(2)] assms(1)
  by (simp add: tally_def zero_counts_def n_events_single)

theorem counters_are_the_tally_of_events_witness:
  "outcome_counts (fst example_result) = tally (log (snd example_result))
   \<and> succeeded (tally (log (snd example_result))) = 1 \<and> failed (tally (log (snd example_result))) = 3"
proof
  show "outcome_counts (fst example_result) = tally (log (snd example_result))"
    using counters_are_the_tally_of_events [OF _ example_result_run] by simp
  show "succeeded (tally (log (snd example_result))) = 1 \<and> failed (tally (log (snd example_result))) = 3"
    by code_simp
qed

text \<open>
  A run pauses for one of three reasons only: the volume is gone, the disk is full, or an item is
  stale.
\<close>

theorem pauses_have_three_reasons:
  assumes "log st = []" and "execute_plan x clean shuffle items st = (Paused reason c, st')"
  shows "reason \<in> {''volume.unavailable'', ''disk.full'', ''item.stale''}"
  using counted.execute_plan_I(2) [OF _ assms(2), of reason c] assms(1)
  by (simp add: tally_def zero_counts_def n_events_single pause_reasons_def)

definition stale_item :: executor_item where
  "stale_item = (example_item ''a'' Move)\<lparr>cas_snapshot_of := \<lparr>approved_mtime = None, approved_size_bytes = Some 6\<rparr>\<rparr>"

definition paused_result :: "apply_outcome \<times> run_state" where
  "paused_result = execute_plan std_extern lexical_clean (\<lambda>xs. xs) [stale_item] example_run"

theorem pauses_have_three_reasons_witness:
  "\<exists>reason c. fst paused_result = Paused reason c
     \<and> reason \<in> {''volume.unavailable'', ''disk.full'', ''item.stale''}"
proof -
  have "(case fst paused_result of Paused r c \<Rightarrow> True | _ \<Rightarrow> False)" by code_simp
  then obtain r c where r: "fst paused_result = Paused r c" by (cases "fst paused_result") auto
  then have "execute_plan std_extern lexical_clean (\<lambda>xs. xs) [stale_item] example_run = (Paused r c, snd paused_result)"
    by (simp add: paused_result_def prod_eq_iff)
  then show ?thesis using pauses_have_three_reasons [of example_run] r by simp
qed

text \<open>
  C14. No accepted retry is lost: when a run returns, however it ends, the queue is closed, and every id
  whose retry request was accepted was executed again after the request or is among the ids handed
  back as orphans.
\<close>

theorem accepted_retries_run_or_come_back:
  assumes "log st = []" and "execute_plan x clean shuffle items st = (out, st')"
  shows "\<not> rq_open (retries (shared st')) \<and> owed {} (log st') \<subseteq> set (orphaned (retries (shared st')))"
proof
  show closed: "\<not> rq_open (retries (shared st'))" using execute_plan_closes [OF assms(2)] .
  have "retries_covered [] st'"
    using covered.execute_plan_I(1) [OF _ assms(2)] assms(1) by (simp add: retries_covered_def)
  then show "owed {} (log st') \<subseteq> set (orphaned (retries (shared st')))"
    using rq.closed_held [OF closed] by (simp add: retries_covered_def rq_orphans_def)
qed

theorem accepted_retries_run_or_come_back_witness:
  "''c'' \<in> owed {} (log (snd example_result)) \<and> ''c'' \<in> set (orphaned (retries (shared (snd example_result))))"
proof -
  have "''c'' \<in> owed {} (log (snd example_result))" by code_simp
  then show ?thesis using accepted_retries_run_or_come_back [OF _ example_result_run] by auto
qed

text \<open>
  C29. Cancellation takes effect between items: after a cancel request at most the one item in progress
  is reported, and a run that finds the flag set when it starts reports none.
\<close>

theorem cancel_stops_after_the_current_item:
  assumes "log st = []" and "execute_plan x clean shuffle items st = (out, st')"
  shows "events_after_cancel (cancel_flag (shared st)) (log st') \<le> (if cancel_flag (shared st) then 0 else 1)"
  using cancelled.execute_plan_I(1) [OF _ assms(2), of "cancel_flag (shared st)"] assms(1)
  by (simp add: cancel_respected_def)

definition cancel_during_skip_check :: run_state where
  "cancel_during_skip_check = example_run\<lparr>schedule := [[], [RequestCancel]]\<rparr>"

theorem cancel_stops_after_the_current_item_witness:
  "let r = execute_plan std_extern lexical_clean (\<lambda>xs. xs) example_items cancel_during_skip_check
   in events_after_cancel False (log (snd r)) \<le> 1 \<and> n_events {''succeeded''} (log (snd r)) = 1"
proof -
  let ?r = "execute_plan std_extern lexical_clean (\<lambda>xs. xs) example_items cancel_during_skip_check"
  have "n_events {''succeeded''} (log (snd ?r)) = 1" by code_simp
  moreover have "events_after_cancel False (log (snd ?r)) \<le> 1"
    using cancel_stops_after_the_current_item [of cancel_during_skip_check std_extern lexical_clean "\<lambda>xs. xs"
        example_items "fst ?r" "snd ?r"]
    by (simp add: cancel_during_skip_check_def example_run_def)
  ultimately show ?thesis by (simp add: Let_def)
qed

text \<open>
  C25. Guards hold for a whole run: if every item is protected, or destructive and unconfirmed, or only
  records something, the run leaves the file tree exactly as it was.
\<close>

theorem guarded_items_are_never_touched:
  assumes "\<And>item. item \<in> set items \<Longrightarrow> inert item" and "execute_plan x clean shuffle items st = (out, st')"
  shows "tree (sys st') = tree (sys st)"
  using untouched.execute_plan_I(1) [OF _ assms(2), of "tree (sys st)"] assms(1) by simp

definition guarded_items :: "executor_item list" where
  "guarded_items = [(example_item ''b'' Delete)\<lparr>requires_destructive_confirm := True\<rparr>,
                    (example_item ''a'' Move)\<lparr>is_protected := True\<rparr>]"

theorem guarded_items_are_never_touched_witness:
  "tree (sys (snd (execute_plan std_extern lexical_clean (\<lambda>xs. xs) guarded_items example_run))) = tree two_volumes"
proof -
  have "item \<in> set guarded_items \<Longrightarrow> inert item" for item
    by (auto simp: guarded_items_def inert_def example_item_def)
  from guarded_items_are_never_touched [OF this prod.collapse [symmetric]] show ?thesis by simp
qed

text \<open>
  C28. A run that completes accounts for the whole plan: every item that was not terminal before has been
  reported.
\<close>

theorem completed_runs_report_every_item:
  assumes "execute_plan x clean shuffle items st = (Completed c, st')" and "item \<in> set items"
  shows "already_terminal item \<or> reported (item_id item) (log st')"
proof -
  let ?st = "st\<lparr>counts := zero_counts\<rparr>"
  obtain s1 where d: "drive_plan x clean shuffle items ?st = (Completed c, s1)"
    and st': "st' = snd (update_retries (\<lambda>q. ((), rq_close shuffle q)) (interfere s1))"
    using assms(1) by (auto simp: execute_plan_def split: prod.splits)
  obtain s2 where f: "forward_pass x clean shuffle (item_by_id items) items ?st = (PassDone, s2)"
    and cl: "close_loop x clean shuffle (item_by_id items) s2 = (DrainContinue, s1)"
    using d by (auto simp: drive_plan_def Let_def split: prod.splits pass_outcome.splits drain_outcome.splits)
  have "extends s2 s1" using growing.close_loop_I [OF _ cl] by simp
  also have "extends s1 (interfere s1)" using growing.interfere_I [OF extends_refl] by blast
  also have "extends (interfere s1) st'" by (simp add: st' update_retries_def extends_def)
  finally have "extends s2 st'" .
  then show ?thesis using forward_pass_reports [OF f] assms(2) reported_mono by blast
qed

theorem completed_runs_report_every_item_witness: "reported ''b'' (log (snd example_result))"
proof -
  have "(case fst example_result of Completed c \<Rightarrow> True | _ \<Rightarrow> False)" by code_simp
  then obtain c where "fst example_result = Completed c" by (cases "fst example_result") auto
  then have run: "execute_plan std_extern lexical_clean (\<lambda>xs. xs) example_items example_run = (Completed c, snd example_result)"
    using example_result_run by simp
  have i: "(example_item ''b'' Delete)\<lparr>requires_destructive_confirm := True\<rparr> \<in> set example_items"
    by (simp add: example_items_def)
  show ?thesis using completed_runs_report_every_item [OF run i]
    by (simp add: already_terminal_def example_item_def)
qed

lemma resolve_side_contained:
  "clean_ok clean \<Longrightarrow> resolve_side clean (Some p) (Some r) s = (Inr (Some q), s') \<Longrightarrow>
     \<exists>ns. os_path q = os_path (clean r) @ ns"
  by (auto simp: resolve_side_def split: prod.splits sum.splits elim: resolve_and_validate_Inr)

text \<open>
  C13. One item changes the file tree only behind every gate: it was confirmed where it needs to be, its
  source is not protected, its source matched the snapshot of the approval, and the source it
  operated on lies below the library root of the item.
\<close>

theorem items_change_files_only_behind_the_gates:
  assumes "process_single_item x clean item prior start st = (r, st')"
    and "tree (sys st') \<noteq> tree (sys st)" and "clean_ok clean"
  shows "(requires_destructive_confirm item \<longrightarrow> destructive_confirmed item) \<and> \<not> is_protected item
    \<and> (\<exists>paths u s1. resolve_item_paths clean item (sys st) = (Inr paths, u) \<and> tree s1 = tree (sys st)
        \<and> (\<forall>src. source paths = Some src \<longrightarrow> check_cas x (os_path src) (cas_snapshot_of item) u = (Inr (), s1)
             \<and> (\<forall>root. library_root item = Some root \<longrightarrow> (\<exists>ns. os_path src = os_path (clean root) @ ns)))
        \<and> sys st' = snd (execute_item x item paths s1))"
  using assms(1)
proof (cases rule: process_sys)
  case same
  then show ?thesis using assms(2) by simp
next
  case (ran paths s1)
  have "\<not> inert item" using process_inert [OF _ assms(1)] assms(2) by blast
  then have guards: "(requires_destructive_confirm item \<longrightarrow> destructive_confirmed item) \<and> \<not> is_protected item"
    by (auto simp: inert_def)
  obtain u where u: "resolve_item_paths clean item (sys st) = (Inr paths, u)"
    and c: "case source paths of None \<Rightarrow> s1 = u
             | Some src \<Rightarrow> check_cas x (os_path src) (cas_snapshot_of item) u = (Inr (), s1)"
    using ran(1) by (auto simp: gates_open_def)
  have inside: "\<exists>ns. os_path src = os_path (clean root) @ ns"
    if src: "source paths = Some src" and root: "library_root item = Some root" for src root
  proof -
    obtain v where v: "resolve_side clean (source_path item) (library_root item) (sys st) = (Inr (Some src), v)"
      using u src by (auto simp: resolve_item_paths_def split: prod.splits sum.splits)
    then obtain p where "source_path item = Some p" by (cases "source_path item") (auto simp: resolve_side_def)
    then show ?thesis using resolve_side_contained [OF assms(3), of p root "sys st" src v] v root by simp
  qed
  have "tree s1 = tree (sys st)" using gates_open_state [OF ran(1)] by simp
  then show ?thesis using guards u c inside ran(2) by (auto split: option.splits)
qed

theorem items_change_files_only_behind_the_gates_witness:
  "\<exists>paths u. resolve_item_paths lexical_clean (example_item ''a'' Move) two_volumes = (Inr paths, u)
     \<and> (\<forall>src. source paths = Some src \<longrightarrow> (\<exists>ns. os_path src = os_path (lexical_clean ''/lib'') @ ns))"
proof -
  let ?r = "process_single_item std_extern lexical_clean (example_item ''a'' Move) ''pending'' True example_run"
  have "content_at (tree (sys (snd ?r))) [''usb'', ''m31''] = Some ''light''"
    and "content_at (tree two_volumes) [''usb'', ''m31''] = None" by code_simp+
  then have "tree (sys (snd ?r)) \<noteq> tree (sys example_run)" by force
  from items_change_files_only_behind_the_gates [OF prod.collapse [symmetric] this lexical_clean_ok]
  show ?thesis by (auto simp: example_item_def)
qed

end
