(* ===== verification/Reconcile.thy ===== *)
theory Reconcile
  imports FileOpsProps
begin

text \<open>
  Reconciliation at boot (\<open>crates/fs/executor/src/reconcile.rs\<close>): whether an item that was under way
  when the process died has happened, judged by what is on disk. The verdicts are related to the
  primitives of the executor: what they leave behind when they succeed is recognised as completed.
\<close>

section \<open>Model\<close>

datatype mutation_shape = Relocate | Remove | Create | NoEffect

datatype reconcile_verdict = ReconcileCompleted | NotStarted | Ambiguous

definition entry_present :: "path \<Rightarrow> os \<Rightarrow> bool \<times> os" where
  "entry_present p s = (case fs_symlink_metadata p s of (Inr _, s) \<Rightarrow> (True, s) | (Inl _, s) \<Rightarrow> (False, s))"

definition classify :: "mutation_shape \<Rightarrow> path option \<Rightarrow> path option \<Rightarrow> os \<Rightarrow> reconcile_verdict \<times> os" where
  "classify shp src_path dst_path s =
    (case shp of
       NoEffect \<Rightarrow> (ReconcileCompleted, s)
     | Relocate \<Rightarrow>
        (case (src_path, dst_path) of
           (Some src, Some dst) \<Rightarrow>
             (case entry_present src s of (a, s) \<Rightarrow>
              case entry_present dst s of (b, s) \<Rightarrow>
                (case (a, b) of
                   (False, True) \<Rightarrow> (ReconcileCompleted, s)
                 | (True, False) \<Rightarrow> (NotStarted, s)
                 | _ \<Rightarrow> (Ambiguous, s)))
         | _ \<Rightarrow> (Ambiguous, s))
     | Remove \<Rightarrow>
        (case src_path of
           Some src \<Rightarrow> (case entry_present src s of (False, s) \<Rightarrow> (ReconcileCompleted, s) | (True, s) \<Rightarrow> (NotStarted, s))
         | None \<Rightarrow> (Ambiguous, s))
     | Create \<Rightarrow>
        (case dst_path of
           Some dst \<Rightarrow> (case entry_present dst s of (True, s) \<Rightarrow> (ReconcileCompleted, s) | (False, s) \<Rightarrow> (NotStarted, s))
         | None \<Rightarrow> (Ambiguous, s)))"

section \<open>What the primitives leave behind\<close>

lemma entry_present_state: "entry_present p s = (b, s') \<Longrightarrow> s' = tick s"
  by (auto simp: entry_present_def dest!: fs_symlink_metadata_state split: prod.splits sum.splits)

lemma located_entry: "wf_tree t \<Longrightarrow> (\<exists>q nd. entry_at t (locate t p) = Inr (q, nd)) = (\<exists>q. locate t p = Found q)"
  using locate_Found [of t p] by (auto simp: entry_at_Inr)

lemma entry_present_reliable:
  assumes "wf_tree (tree s)" and "probes_reliable s"
  shows "entry_present p s = ((\<exists>q. locate (tree s) p = Found q), tick s)"
  using located_entry [OF assms(1), of p]
  by (auto simp: entry_present_def fs_symlink_metadata_reliable [OF assms(2)] split: sum.splits)

lemma probes_reliable_tick [simp]: "probes_reliable (tick s) = probes_reliable s"
  by (simp add: probes_reliable_def)

lemma classify_reliable:
  assumes "wf_tree (tree s)" and "probes_reliable s"
  shows "fst (classify Relocate (Some src) (Some dst) s) =
      (let a = \<exists>q. locate (tree s) src = Found q; b = \<exists>q. locate (tree s) dst = Found q
       in if \<not> a \<and> b then ReconcileCompleted else if a \<and> \<not> b then NotStarted else Ambiguous)"
    and "fst (classify Remove (Some src) d s) = (if \<exists>q. locate (tree s) src = Found q then NotStarted else ReconcileCompleted)"
    and "fst (classify Create e (Some dst) s) = (if \<exists>q. locate (tree s) dst = Found q then ReconcileCompleted else NotStarted)"
  using assms by (simp_all add: classify_def entry_present_reliable Let_def split: bool.splits)

lemma fs_mkdir_found: "fs_mkdir p s = (Inr u, s') \<Longrightarrow> \<exists>q. locate (tree s') p = Found q"
  unfolding fs_mkdir_def by (erule mutate_cases) (auto simp: create_entry_Inr dest: locate_fill_Vacant)

lemma path_is_dir_found: "path_is_dir p s = (True, s') \<Longrightarrow> \<exists>q. locate (tree s') p = Found q"
  by (auto simp: path_is_dir_def fs_metadata_def query_def entry_at_Inr split: prod.splits sum.splits node.splits option.splits
      dest: follow_found_located)

lemma create_dir_all_found: "fs_create_dir_all p s = (Inr u, s') \<Longrightarrow> \<exists>q. locate (tree s') p = Found q"
  by (subst (asm) fs_create_dir_all.simps)
    (auto split: prod.splits sum.splits if_splits bool.splits dest: fs_mkdir_found path_is_dir_found)

lemma make_dir_found: "make_dir d s = (Inr u, s') \<Longrightarrow> \<exists>q. locate (tree s') d = Found q"
  by (auto simp: make_dir_def split: prod.splits sum.splits bool.splits dest: create_dir_all_found path_is_dir_found)

lemma walk_vacant_same:
  "walk True k t cur ns = Vacant q \<Longrightarrow> walk False k t cur ns = Vacant q \<or> (\<exists>b. walk False k t cur ns = Found b)"
proof (induction True k t cur ns rule: walk.induct)
  case (2 links t cur n ns)
  then show ?case by (cases "ns = []") (auto split: option.splits node.splits if_splits)
qed simp

lemma create_link_found:
  assumes x: "extern_ok x" and t: "wf_tree (tree s)" and rel: "probes_reliable s"
    and run: "create_link x src dst k s = (Inr u, s')"
  shows "\<exists>q. locate (tree s') dst = Found q"
  using run
proof (cases rule: create_link_cases)
  case (call s1 s2 m)
  have "m = Inr ()" using call(5) by (cases m) auto
  then have "fs_symlink src dst s2 = (Inr (), s') \<or> fs_hard_link src dst s2 = (Inr (), s')" using call(4) by auto
  then show ?thesis
  proof
    assume "fs_symlink src dst s2 = (Inr (), s')"
    then show ?thesis unfolding fs_symlink_def
      by (rule mutate_cases) (auto simp: create_entry_Inr dest: locate_fill_Vacant)
  next
    assume "fs_hard_link src dst s2 = (Inr (), s')"
    then show ?thesis by (rule hard_link_cases) (auto dest: locate_fill_Vacant)
  qed
next
  case (copied s1 s2 c s3 i)
  have c: "fs_copy src dst s2 = (Inr (), s3)" and s': "s' = restore_mtime x dst i s3"
    using copied(5,6,7) by (cases c; auto)+
  from c obtain q f where q: "open_truncate (tree s2) dst = Inr q" "tree s3 = (tree s2)(q \<mapsto> File f)"
    by (cases rule: copy_cases) auto
  have "follow (tree s) dst = Vacant q"
    using q(1) copied(2) occupied_False(1) [OF t rel copied(1)] by (auto simp: open_truncate_Inr)
  then have "locate (tree s) dst = Vacant q"
    using walk_vacant_same [of MAX_LINKS "tree s" "[]" dst q] occupied_False(2) [OF t rel copied(1)]
    by (auto simp: locate_def follow_def)
  then have "locate (tree s3) dst = Found q" using locate_fill_Vacant q(2) copied(2) by simp
  moreover have "same_shape (tree s3) (tree s')"
    using restore_mtime_law [OF x, of s3 dst i] by (simp add: s' same_files_def)
  ultimately show ?thesis by (simp add: locate_def walk_same_shape)
qed simp

lemma later_state:
  assumes "wf_tree (tree s)" and "probes_reliable s" and "sound_step s s'"
  shows "wf_tree (tree s')" and "probes_reliable s'"
  using assms by (auto simp: sound_step_wf probes_reliable_env [OF sound_step_env])

lemma finished_move_recognised:
  assumes x: "extern_ok x" and t: "wf_tree (tree s)" and rel: "probes_reliable s"
    and m: "move_file x src dst s = (Inr u, s')" and a: "locate (tree s) src = Found a" "tree s a = Some (File f)"
    and free: "\<forall>b. locate (tree s) dst \<noteq> Found b"
  shows "fst (classify Relocate (Some src) (Some dst) s') = ReconcileCompleted"
proof -
  note s' = later_state [OF t rel move_file_sound [OF x m]]
  have "(\<exists>b. locate (tree s') dst = Found b) \<and> (\<forall>r. locate (tree s') src \<noteq> Found r)"
    using move_file_success [OF x t probes_reliable_next [OF rel] m a] free unfolding lands_at_def by blast
  then show ?thesis by (simp add: classify_reliable [OF s'] Let_def)
qed

lemma delete_verdict:
  assumes t: "wf_tree (tree s)" and rel: "probes_reliable s"
    and d: "delete_file p True s = (r, s')" and a: "locate (tree s) p = Found a"
  shows "fst (classify Remove (Some p) None s') = (if isl r then NotStarted else ReconcileCompleted)"
proof -
  note s' = later_state [OF t rel delete_file_sound [OF d]]
  from d show ?thesis
  proof (cases rule: delete_file_cases)
    case (failed f m)
    then show ?thesis using classify_reliable(2) [OF s'] a by simp
  next
    case (deleted q nd)
    have "locate (tree s') p \<noteq> Found r" for r
      by (rule locate_gone [OF s'(1) _ _ deleted(3)]) (simp_all add: deleted(6))
    then show ?thesis using classify_reliable(2) [OF s'] deleted(2) by simp
  qed simp
qed

lemma created_entry_recognised:
  assumes x: "extern_ok x" and t: "wf_tree (tree s)" and rel: "probes_reliable s"
    and c: "make_dir dst s = (Inr u, s') \<or> create_link x src dst k s = (Inr u, s')
            \<or> write_marker x dst pid s = (Inr u, s') \<and> (\<forall>b. locate (tree s) dst \<noteq> Found b)"
  shows "fst (classify Create None (Some dst) s') = ReconcileCompleted"
proof -
  have "sound_step s s'"
    using c make_dir_dir_step create_link_sound [OF x] write_marker_sound [OF x] by (auto simp: dir_step_def)
  moreover have "\<exists>q. locate (tree s') dst = Found q"
    using c make_dir_found create_link_found [OF x t rel] write_marker_result [OF x t rel] by blast
  ultimately show ?thesis using classify_reliable(3) [OF later_state [OF t rel]] by simp
qed

text \<open>
  C26. Where \<open>lstat\<close> and \<open>stat\<close> answer truthfully, reconciliation after a restart recognises what the executor
  finished: a move of a file to a free name, a confirmed delete, a created directory, link or marker is
  classified as completed once its primitive has succeeded; a delete that failed is classified as not started.
\<close>

theorem reconcile_recognises_finished_items:
  assumes "extern_ok x" and "wf_tree (tree s)" and "probes_reliable s"
  shows "(\<forall>u s' a f. move_file x src dst s = (Inr u, s') \<and> locate (tree s) src = Found a \<and> tree s a = Some (File f)
            \<and> (\<forall>b. locate (tree s) dst \<noteq> Found b)
            \<longrightarrow> fst (classify Relocate (Some src) (Some dst) s') = ReconcileCompleted)
    \<and> (\<forall>r s' a. delete_file src True s = (r, s') \<and> locate (tree s) src = Found a
            \<longrightarrow> fst (classify Remove (Some src) None s') = (if isl r then NotStarted else ReconcileCompleted))
    \<and> (\<forall>u s'. make_dir dst s = (Inr u, s') \<or> create_link x src dst k s = (Inr u, s')
            \<or> write_marker x dst pid s = (Inr u, s') \<and> (\<forall>b. locate (tree s) dst \<noteq> Found b)
            \<longrightarrow> fst (classify Create None (Some dst) s') = ReconcileCompleted)"
  using finished_move_recognised [OF assms] delete_verdict [OF assms(2,3)] created_entry_recognised [OF assms]
  by blast

theorem reconcile_recognises_finished_items_witness:
  "fst (classify Remove (Some [''lib'', ''m31'']) None (snd (delete_file [''lib'', ''m31''] True two_volumes)))
     = ReconcileCompleted"
proof -
  let ?run = "delete_file [''lib'', ''m31''] True two_volumes"
  have "\<not> isl (fst ?run)" by code_simp
  moreover have "?run = (fst ?run, snd ?run)" by simp
  moreover have "locate (tree two_volumes) [''lib'', ''m31''] = Found [''lib'', ''m31'']"
    by (simp add: locate_def MAX_LINKS_def two_volumes_def)
  ultimately show ?thesis
    using reconcile_recognises_finished_items [OF std_extern_ok two_volumes_wf two_volumes_reliable,
        of "[''lib'', ''m31'']" "[]" Symlink "[]"] by metis
qed

text \<open>
  C39. The verdicts rest on every \<open>lstat\<close> failure being an absence: where \<open>lstat\<close> cannot read a path, say for
  want of permission, a removal that never happened is classified as completed.
\<close>

theorem reconcile_takes_unreadable_for_removed:
  "faults s Probe (ticks s) = Some e \<Longrightarrow>
     fst (classify Remove (Some src) d s) = ReconcileCompleted \<and> tree (snd (classify Remove (Some src) d s)) = tree s"
  by (simp add: classify_def entry_present_def fs_symlink_metadata_def query_def)

definition unreadable :: os where
  "unreadable = two_volumes\<lparr>faults := (\<lambda>c n. Some EPERM)\<rparr>"

theorem reconcile_takes_unreadable_for_removed_witness:
  "fst (classify Remove (Some [''lib'', ''m31'']) None unreadable) = ReconcileCompleted
   \<and> locate (tree unreadable) [''lib'', ''m31''] = Found [''lib'', ''m31'']"
  using reconcile_takes_unreadable_for_removed [of unreadable EPERM "[''lib'', ''m31'']" None]
  by (simp add: unreadable_def two_volumes_def locate_def MAX_LINKS_def)

end
