(* ===== verification/SafeFilename.thy ===== *)
theory SafeFilename
  imports Prelude
begin

text \<open>
  Sanitization of one path segment (\<open>crates/safe-filename\<close>). A Rust string is a list of code points.
  The Unicode tables are a parameter: the record \<open>unicode\<close> holds canonical composition, case mapping,
  white space, the script of a character and the single-script test.
\<close>

section \<open>Text\<close>

type_synonym ustring = "int list"

text \<open>An ASCII literal.\<close>

definition lit :: "string \<Rightarrow> ustring" where
  "lit s = map (of_char :: char \<Rightarrow> int) s"

datatype script = Latin | Greek | Common | Inherited | OtherScript nat

record unicode =
  nfc :: "ustring \<Rightarrow> ustring"
  white_space :: "int \<Rightarrow> bool"
  to_upper :: "ustring \<Rightarrow> ustring"
  to_lower :: "ustring \<Rightarrow> ustring"
  script_of :: "int \<Rightarrow> script"
  single_script :: "ustring \<Rightarrow> bool"

definition trim_matches :: "('a \<Rightarrow> bool) \<Rightarrow> 'a list \<Rightarrow> 'a list" where
  "trim_matches P xs = rev (dropWhile P (rev (dropWhile P xs)))"

fun split_on :: "'a \<Rightarrow> 'a list \<Rightarrow> 'a list list" where
  "split_on c [] = [[]]"
| "split_on c (x # xs) =
    (if x = c then [] # split_on c xs
     else case split_on c xs of w # ws \<Rightarrow> (x # w) # ws | [] \<Rightarrow> [[x]])"

section \<open>The pipeline\<close>

datatype sanitize_error =
    SanitizeTraversal ustring
  | SanitizeReserved ustring
  | SanitizeConfusable ustring ustring
  | EmptyAfterSanitize ustring ustring

definition is_disallowed :: "int \<Rightarrow> bool" where
  "is_disallowed c \<longleftrightarrow> c < 0x20 \<or> 0x80 \<le> c \<and> c \<le> 0x9F
     \<or> c = 0x00AD \<or> 0x200B \<le> c \<and> c \<le> 0x200F \<or> 0x2028 \<le> c \<and> c \<le> 0x202E
     \<or> 0x2060 \<le> c \<and> c \<le> 0x206F \<or> 0xFE00 \<le> c \<and> c \<le> 0xFE0F \<or> c = 0xFEFF
     \<or> 0xFFF9 \<le> c \<and> c \<le> 0xFFFB"

definition step1_normalize_and_strip :: "unicode \<Rightarrow> ustring \<Rightarrow> ustring" where
  "step1_normalize_and_strip U input = filter (\<lambda>c. \<not> is_disallowed c) (nfc U input)"

text \<open>\<open>/ \ : ? * " < > |\<close>\<close>

definition is_windows_reserved_char :: "int \<Rightarrow> bool" where
  "is_windows_reserved_char c \<longleftrightarrow> c \<in> {0x2F, 0x5C, 0x3A, 0x3F, 0x2A, 0x22, 0x3C, 0x3E, 0x7C}"

definition step2_substitute_reserved_chars :: "unicode \<Rightarrow> ustring \<Rightarrow> ustring" where
  "step2_substitute_reserved_chars U input =
    trim_matches (\<lambda>c. c = 0x2E \<or> white_space U c) (map (\<lambda>c. if is_windows_reserved_char c then 0x5F else c) input)"

definition step3_traversal_check :: "ustring \<Rightarrow> sanitize_error + unit" where
  "step3_traversal_check segment =
    (if segment = lit ''.'' \<or> segment = lit ''..'' then Inl (SanitizeTraversal segment) else Inr ())"

definition WINDOWS_RESERVED_NAMES :: "ustring list" where
  "WINDOWS_RESERVED_NAMES =
    map lit [''CON'', ''PRN'', ''AUX'', ''NUL'', ''COM1'', ''COM2'', ''COM3'', ''COM4'', ''COM5'', ''COM6'', ''COM7'',
           ''COM8'', ''COM9''] @ map (\<lambda>c. lit ''COM'' @ [c]) [0xB9, 0xB2, 0xB3] @
    map lit [''LPT1'', ''LPT2'', ''LPT3'', ''LPT4'', ''LPT5'', ''LPT6'', ''LPT7'', ''LPT8'', ''LPT9''] @
    map (\<lambda>c. lit ''LPT'' @ [c]) [0xB9, 0xB2, 0xB3]"

definition step4_reserved_name_check :: "unicode \<Rightarrow> ustring \<Rightarrow> sanitize_error + unit" where
  "step4_reserved_name_check U segment =
    (let stem = hd (split_on 0x2E segment); upper = to_upper U stem
     in if upper \<in> set WINDOWS_RESERVED_NAMES then Inl (SanitizeReserved segment) else Inr ())"

definition is_astronomy_script :: "unicode \<Rightarrow> int \<Rightarrow> bool" where
  "is_astronomy_script U c \<longleftrightarrow> script_of U c \<in> {Latin, Greek, Common, Inherited}"

definition step5_confusables_check :: "unicode \<Rightarrow> ustring \<Rightarrow> ustring \<Rightarrow> sanitize_error + unit" where
  "step5_confusables_check U token_name val =
    (if \<not> list_all (\<lambda>c. c < 0x80) val \<and> \<not> single_script U val \<and> \<not> list_all (is_astronomy_script U) val
     then Inl (SanitizeConfusable token_name val) else Inr ())"

definition sanitize_token_value :: "unicode \<Rightarrow> ustring \<Rightarrow> ustring \<Rightarrow> sanitize_error + ustring" where
  "sanitize_token_value U token_name raw =
    (let s = step1_normalize_and_strip U raw
     in case step3_traversal_check s of
         Inl e \<Rightarrow> Inl e
       | Inr _ \<Rightarrow>
          (let s = step2_substitute_reserved_chars U s
           in if s = [] then Inl (EmptyAfterSanitize token_name raw)
              else case step4_reserved_name_check U s of
                  Inl e \<Rightarrow> Inl e
                | Inr _ \<Rightarrow>
                   (case step5_confusables_check U token_name s of
                      Inl e \<Rightarrow> Inl e
                    | Inr _ \<Rightarrow> Inr s)))"

section \<open>Lemmas\<close>

lemma lit_simps [simp]: "lit [] = []" "lit (c # s) = of_char c # lit s"
  by (simp_all add: lit_def)

lemma length_lit [simp]: "length (lit s) = length s"
  by (simp add: lit_def)

lemma set_trim_matches: "set (trim_matches P xs) \<subseteq> set xs"
  unfolding trim_matches_def by (auto dest!: set_dropWhileD)

lemma last_trim_matches: "trim_matches P xs \<noteq> [] \<Longrightarrow> \<not> P (last (trim_matches P xs))"
  by (simp add: trim_matches_def last_rev hd_dropWhile)


lemma hd_trim_matches:
  assumes "trim_matches P xs \<noteq> []"
  shows "\<not> P (hd (trim_matches P xs))"
proof -
  let ?d = "dropWhile P xs"
  obtain ws where ws: "rev ?d = ws @ dropWhile P (rev ?d)" by (metis takeWhile_dropWhile_id)
  then have d: "?d = trim_matches P xs @ rev ws"
    by (metis rev_append rev_rev_ident trim_matches_def)
  then have "?d \<noteq> []" and "hd (trim_matches P xs) = hd ?d" using assms by auto
  then show ?thesis using hd_dropWhile [of P xs] by simp
qed

lemma split_on_ne [simp]: "split_on c xs \<noteq> []"
  by (induction xs) (auto split: list.splits)

lemma set_split_on: "w \<in> set (split_on c xs) \<Longrightarrow> c \<notin> set w \<and> set w \<subseteq> set xs"
  by (induction xs arbitrary: w) (fastforce split: list.splits if_splits)+

lemma split_on_append: "split_on c (xs @ c # ys) = split_on c xs @ split_on c ys"
proof (induction xs)
  case (Cons x xs)
  then show ?case by (cases "split_on c xs") (auto split: list.splits)
qed simp

lemma split_on_free: "c \<notin> set xs \<Longrightarrow> split_on c xs = [xs]"
  by (induction xs) auto

text \<open>Joining with the separator is undone by splitting.\<close>

definition join_on :: "'a \<Rightarrow> 'a list list \<Rightarrow> 'a list" where
  "join_on c ws = (case ws of [] \<Rightarrow> [] | w # ws \<Rightarrow> w @ concat (map (\<lambda>v. c # v) ws))"

lemma join_on_Cons2: "join_on c (v # w # ws) = v @ c # join_on c (w # ws)"
  by (simp add: join_on_def)

lemma split_join_on:
  "ws \<noteq> [] \<Longrightarrow> \<forall>w \<in> set ws. c \<notin> set w \<Longrightarrow> split_on c (join_on c ws) = ws"
proof (induction ws rule: induct_list012)
  case (2 w)
  then show ?case by (simp add: join_on_def split_on_free)
next
  case (3 v w ws)
  then show ?case by (simp add: join_on_Cons2 split_on_append split_on_free)
qed simp

section \<open>Correctness\<close>

definition is_safe_segment :: "unicode \<Rightarrow> ustring \<Rightarrow> bool" where
  "is_safe_segment U s \<longleftrightarrow> s \<noteq> [] \<and> s \<noteq> lit ''.'' \<and> s \<noteq> lit ''..''
     \<and> (\<forall>c \<in> set s. \<not> is_windows_reserved_char c \<and> \<not> is_disallowed c)
     \<and> hd s \<noteq> 0x2E \<and> \<not> white_space U (hd s) \<and> last s \<noteq> 0x2E \<and> \<not> white_space U (last s)
     \<and> to_upper U (hd (split_on 0x2E s)) \<notin> set WINDOWS_RESERVED_NAMES"

lemma step2_safe:
  assumes s: "s = step2_substitute_reserved_chars U (step1_normalize_and_strip U raw)" and ne: "s \<noteq> []"
  shows "(\<forall>c \<in> set s. \<not> is_windows_reserved_char c \<and> \<not> is_disallowed c)
     \<and> hd s \<noteq> 0x2E \<and> \<not> white_space U (hd s) \<and> last s \<noteq> 0x2E \<and> \<not> white_space U (last s)"
proof -
  let ?P = "\<lambda>c. c = 0x2E \<or> white_space U c"
  have "set s \<subseteq> (\<lambda>c. if is_windows_reserved_char c then 0x5F else c) ` set (step1_normalize_and_strip U raw)"
    using set_trim_matches unfolding s step2_substitute_reserved_chars_def by fastforce
  moreover have "\<not> is_disallowed 0x5F" "\<not> is_windows_reserved_char 0x5F"
    by (simp_all add: is_disallowed_def is_windows_reserved_char_def)
  ultimately have "\<forall>c \<in> set s. \<not> is_windows_reserved_char c \<and> \<not> is_disallowed c"
    by (auto simp: step1_normalize_and_strip_def split: if_splits)
  moreover have "\<not> ?P (hd s)" "\<not> ?P (last s)"
    using hd_trim_matches last_trim_matches ne unfolding s step2_substitute_reserved_chars_def by blast+
  ultimately show ?thesis by blast
qed

lemma sanitize_token_value_safe:
  assumes "sanitize_token_value U tok raw = Inr s"
  shows "is_safe_segment U s"
proof -
  let ?s = "step2_substitute_reserved_chars U (step1_normalize_and_strip U raw)"
  have s: "s = ?s" "s \<noteq> []" "to_upper U (hd (split_on 0x2E s)) \<notin> set WINDOWS_RESERVED_NAMES"
    using assms by (auto simp: sanitize_token_value_def Let_def step4_reserved_name_check_def
        split: sum.splits if_splits)
  then show ?thesis using step2_safe [OF s(1,2)] by (auto simp: is_safe_segment_def)
qed

text \<open>
  C32. Whatever text a metadata value holds, a sanitized value is one usable path segment on every
  platform: not empty, not a dot name, free of separators, reserved and invisible characters, not
  starting or ending with a dot or white space, and its stem names no Windows device.
\<close>

theorem sanitized_value_is_one_safe_segment:
  assumes "sanitize_token_value U tok raw = Inr s"
  shows "is_safe_segment U s \<and> 0x2F \<notin> set s"
  using sanitize_token_value_safe [OF assms]
  by (auto simp: is_safe_segment_def is_windows_reserved_char_def)

text \<open>Tables for ASCII, where every other character is upper case, of one script and no space.\<close>

definition ascii :: unicode where
  "ascii = \<lparr>nfc = id, white_space = (\<lambda>c. 9 \<le> c \<and> c \<le> 13 \<or> c = 32),
     to_upper = map (\<lambda>c. if 97 \<le> c \<and> c \<le> 122 then c - 32 else c),
     to_lower = map (\<lambda>c. if 65 \<le> c \<and> c \<le> 90 then c + 32 else c),
     script_of = (\<lambda>_. Common), single_script = (\<lambda>_. True)\<rparr>"

theorem sanitized_value_is_one_safe_segment_witness:
  "is_safe_segment ascii (lit ''NGC_7000'') \<and> 0x2F \<notin> set (lit ''NGC_7000'')"
  by (rule sanitized_value_is_one_safe_segment [of _ "lit ''target''" "lit '' NGC/7000.''"]) code_simp

end
