(* ===== verification/Patterns.thy ===== *)
theory Patterns
  imports SafeFilename
begin

text \<open>
  Destination patterns (\<open>crates/patterns\<close>): the token registry, structural validation, the resolver of
  token/separator patterns and of pattern strings, and the patterns per frame type.
\<close>

section \<open>Registry\<close>

datatype token_transform = SanitizeOnly | DateIso | Lower | Upper

record token_definition =
  token_name :: ustring
  source_field :: ustring
  fallback :: ustring
  transform :: token_transform

type_synonym token_registry = "ustring \<Rightarrow> token_definition option"

text \<open>Collected into a map in order: a later definition of a name replaces an earlier one.\<close>

definition from_slice :: "token_definition list \<Rightarrow> token_registry" where
  "from_slice defs = map_of (rev (map (\<lambda>d. (token_name d, d)) defs))"

definition registry_contains :: "token_registry \<Rightarrow> ustring \<Rightarrow> bool" where
  "registry_contains r k = (case r k of None \<Rightarrow> False | Some _ \<Rightarrow> True)"

definition token_def :: "string \<Rightarrow> string \<Rightarrow> token_transform \<Rightarrow> token_definition" where
  "token_def n fb t = \<lparr>token_name = lit n, source_field = lit n, fallback = lit fb, transform = t\<rparr>"

definition V1_DEFINITIONS :: "token_definition list" where
  "V1_DEFINITIONS =
    [token_def ''target'' ''unclassified'' SanitizeOnly,
     token_def ''filter'' ''nofilter'' SanitizeOnly,
     token_def ''date'' ''undated'' DateIso,
     token_def ''frame_type'' ''unknown'' Lower,
     token_def ''camera'' ''unknown-camera'' SanitizeOnly,
     token_def ''exposure'' ''unknown-exposure'' SanitizeOnly,
     token_def ''gain'' ''unknown-gain'' SanitizeOnly,
     token_def ''binning'' ''1x1'' SanitizeOnly,
     token_def ''set_temp'' ''untempered'' SanitizeOnly]"

definition V1_REGISTRY :: token_registry where
  "V1_REGISTRY = from_slice V1_DEFINITIONS"

section \<open>Patterns and their validation\<close>

record pattern_part =
  part_id :: ustring
  part_kind :: ustring
  part_value :: ustring

definition VALID_SEPARATORS :: "ustring list" where
  "VALID_SEPARATORS = [lit ''/'', lit ''-'', lit ''_'', lit '' '']"

datatype validation_warning = ConsecutiveSeparators | LeadingSeparator | TrailingSeparator | NoPathSeparator

primrec warning_code :: "validation_warning \<Rightarrow> string" where
  "warning_code ConsecutiveSeparators = ''consecutive_separators''"
| "warning_code LeadingSeparator = ''leading_separator''"
| "warning_code TrailingSeparator = ''trailing_separator''"
| "warning_code NoPathSeparator = ''no_path_separator''"

datatype validate_error = PatternEmpty | UnknownToken ustring | InvalidSeparator ustring

record validate_result =
  valid :: bool
  warnings :: "validation_warning list"
  errors :: "validate_error list"

definition part_error :: "token_registry \<Rightarrow> pattern_part \<Rightarrow> validate_error list" where
  "part_error registry part =
    (if part_kind part = lit ''token''
     then (if registry_contains registry (part_value part) then [] else [UnknownToken (part_value part)])
     else if part_kind part = lit ''separator''
     then (if part_value part \<in> set VALID_SEPARATORS then [] else [InvalidSeparator (part_value part)])
     else [InvalidSeparator (part_value part)])"

definition is_separator :: "pattern_part \<Rightarrow> bool" where
  "is_separator p \<longleftrightarrow> part_kind p = lit ''separator''"

fun has_consecutive :: "pattern_part list \<Rightarrow> bool" where
  "has_consecutive (p # q # ps) \<longleftrightarrow> is_separator p \<and> is_separator q \<or> has_consecutive (q # ps)"
| "has_consecutive _ \<longleftrightarrow> False"

definition validate :: "pattern_part list \<Rightarrow> token_registry \<Rightarrow> validate_result" where
  "validate pattern registry =
    (if pattern = [] then \<lparr>valid = False, warnings = [], errors = [PatternEmpty]\<rparr>
     else let errs = concat (map (part_error registry) pattern)
       in if errs \<noteq> [] then \<lparr>valid = False, warnings = [], errors = errs\<rparr>
          else \<lparr>valid = True,
                warnings = (if is_separator (hd pattern) then [LeadingSeparator] else [])
                  @ (if is_separator (last pattern) then [TrailingSeparator] else [])
                  @ (if has_consecutive pattern then [ConsecutiveSeparators] else [])
                  @ (if \<not> list_ex (\<lambda>p. is_separator p \<and> part_value p = lit ''/'') pattern then [NoPathSeparator] else []),
                errors = []\<rparr>)"

section \<open>Resolution\<close>

type_synonym metadata_bundle = "ustring \<Rightarrow> ustring option"

record resolver_config =
  max_segment_bytes_opt :: "nat option"
  max_path_chars_opt :: "nat option"

definition max_segment_bytes :: "resolver_config \<Rightarrow> nat" where
  "max_segment_bytes c = (case max_segment_bytes_opt c of Some n \<Rightarrow> n | None \<Rightarrow> 200)"

definition max_path_chars :: "resolver_config \<Rightarrow> nat" where
  "max_path_chars c = (case max_path_chars_opt c of Some n \<Rightarrow> n | None \<Rightarrow> 200)"

definition default_config :: resolver_config where
  "default_config = \<lparr>max_segment_bytes_opt = None, max_path_chars_opt = None\<rparr>"

record resolve_result =
  relative_path :: ustring
  missing_tokens :: "ustring list"
  result_warnings :: "validation_warning list"

datatype resolve_error =
    ResolveEmpty
  | ResolveUnknownToken ustring
  | PathTraversal ustring
  | ReservedName ustring
  | UnicodeConfusable ustring ustring
  | PathTooLong nat nat
  | EmptySegment ustring

definition map_validate_error :: "validate_error \<Rightarrow> resolve_error" where
  "map_validate_error e = (case e of
       PatternEmpty \<Rightarrow> ResolveEmpty
     | UnknownToken t \<Rightarrow> ResolveUnknownToken t
     | InvalidSeparator _ \<Rightarrow> ResolveEmpty)"

definition map_sanitize_error :: "sanitize_error \<Rightarrow> resolve_error" where
  "map_sanitize_error e = (case e of
       SanitizeTraversal s \<Rightarrow> PathTraversal s
     | SanitizeReserved s \<Rightarrow> ReservedName s
     | SanitizeConfusable t v \<Rightarrow> UnicodeConfusable t v
     | EmptyAfterSanitize _ v \<Rightarrow> EmptySegment v)"

definition apply_transform :: "unicode \<Rightarrow> ustring \<Rightarrow> token_transform \<Rightarrow> ustring" where
  "apply_transform U v t = (case t of
       SanitizeOnly \<Rightarrow> v | DateIso \<Rightarrow> v | Lower \<Rightarrow> to_lower U v | Upper \<Rightarrow> to_upper U v)"

text \<open>The list of missing tokens is passed in and returned.\<close>

definition resolve_one_token ::
  "unicode \<Rightarrow> ustring \<Rightarrow> metadata_bundle \<Rightarrow> token_registry \<Rightarrow> ustring list
   \<Rightarrow> resolve_error + ustring \<times> ustring list" where
  "resolve_one_token U name bundle registry missing =
    (case registry name of
       None \<Rightarrow> Inl (ResolveUnknownToken name)
     | Some d \<Rightarrow>
        (let raw_opt = (case bundle (source_field d) of Some s \<Rightarrow> if s = [] then None else Some s | None \<Rightarrow> None);
             raw = (case raw_opt of Some v \<Rightarrow> v | None \<Rightarrow> fallback d);
             is_fallback = (raw_opt = None);
             missing = (if is_fallback then missing @ [name] else missing)
         in case sanitize_token_value U name (apply_transform U raw (transform d)) of
             Inr sanitized \<Rightarrow> Inr (sanitized, missing)
           | Inl (EmptyAfterSanitize _ _) \<Rightarrow>
               Inr (fallback d, if is_fallback then missing else missing @ [name])
           | Inl e \<Rightarrow> Inl (map_sanitize_error e)))"

definition sanitize_literal :: "unicode \<Rightarrow> ustring \<Rightarrow> resolve_error + ustring" where
  "sanitize_literal U l =
    (case sanitize_token_value U (lit ''literal'') l of Inl e \<Rightarrow> Inl (map_sanitize_error e) | Inr s \<Rightarrow> Inr s)"

text \<open>The number of bytes of the UTF-8 encoding, and the encoding itself.\<close>

definition utf8_char :: "int \<Rightarrow> string" where
  "utf8_char c =
    (if c < 0x80 then [char_of c]
     else if c < 0x800 then [char_of (0xC0 + c div 64), char_of (0x80 + c mod 64)]
     else if c < 0x10000
     then [char_of (0xE0 + c div 4096), char_of (0x80 + c div 64 mod 64), char_of (0x80 + c mod 64)]
     else [char_of (0xF0 + c div 262144 mod 8), char_of (0x80 + c div 4096 mod 64), char_of (0x80 + c div 64 mod 64),
           char_of (0x80 + c mod 64)])"

definition utf8 :: "ustring \<Rightarrow> string" where
  "utf8 s = concat (map utf8_char s)"

fun check_segments :: "unicode \<Rightarrow> resolver_config \<Rightarrow> nat \<Rightarrow> ustring list \<Rightarrow> resolve_error + unit" where
  "check_segments U config total_chars [] = Inr ()"
| "check_segments U config total_chars (segment # segments) =
    (if segment = lit ''..'' \<or> segment = lit ''.'' then Inl (PathTraversal segment)
     else if segment = [] then check_segments U config total_chars segments
     else case step4_reserved_name_check U segment of
         Inl e \<Rightarrow> Inl (map_sanitize_error e)
       | Inr _ \<Rightarrow>
          (let byte_len = length (utf8 segment)
           in if byte_len > max_segment_bytes config then Inl (PathTooLong total_chars byte_len)
              else check_segments U config total_chars segments))"

definition check_assembled_path :: "unicode \<Rightarrow> ustring \<Rightarrow> resolver_config \<Rightarrow> resolve_error + unit" where
  "check_assembled_path U path config =
    (let total_chars = length path
     in case check_segments U config total_chars (split_on 0x2F path) of
         Inl e \<Rightarrow> Inl e
       | Inr _ \<Rightarrow> (if total_chars > max_path_chars config then Inl (PathTooLong total_chars 0) else Inr ()))"

fun resolve_parts ::
  "unicode \<Rightarrow> metadata_bundle \<Rightarrow> token_registry \<Rightarrow> pattern_part list \<Rightarrow> ustring list
   \<Rightarrow> resolve_error + ustring list \<times> ustring list" where
  "resolve_parts U metadata registry [] missing = Inr ([], missing)"
| "resolve_parts U metadata registry (part # pattern) missing =
    (case (if part_kind part = lit ''token''
           then (case resolve_one_token U (part_value part) metadata registry missing of
                   Inl e \<Rightarrow> Inl e | Inr (v, missing) \<Rightarrow> Inr ([v], missing))
           else if part_kind part = lit ''separator'' then Inr ([part_value part], missing)
           else Inr ([], missing)) of
       Inl e \<Rightarrow> Inl e
     | Inr (v, missing) \<Rightarrow>
        (case resolve_parts U metadata registry pattern missing of
           Inl e \<Rightarrow> Inl e
         | Inr (parts, missing) \<Rightarrow> Inr (v @ parts, missing)))"

definition resolve ::
  "unicode \<Rightarrow> pattern_part list \<Rightarrow> metadata_bundle \<Rightarrow> token_registry \<Rightarrow> resolver_config
   \<Rightarrow> resolve_error + resolve_result" where
  "resolve U pattern metadata registry config =
    (let validation = validate pattern registry
     in case (if valid validation then [] else errors validation) of
         e # _ \<Rightarrow> Inl (map_validate_error e)
       | [] \<Rightarrow>
          (case resolve_parts U metadata registry pattern [] of
             Inl e \<Rightarrow> Inl e
           | Inr (parts, missing) \<Rightarrow>
              (let path = concat parts
               in case check_assembled_path U path config of
                   Inl e \<Rightarrow> Inl e
                 | Inr _ \<Rightarrow> Inr \<lparr>relative_path = path, missing_tokens = missing, result_warnings = warnings validation\<rparr>)))"

definition resolve_v1 :: "unicode \<Rightarrow> pattern_part list \<Rightarrow> metadata_bundle \<Rightarrow> resolve_error + resolve_result" where
  "resolve_v1 U pattern metadata = resolve U pattern metadata V1_REGISTRY default_config"

section \<open>Pattern strings\<close>

definition brace_open :: int where "brace_open = 0x7B"
definition brace_close :: int where "brace_close = 0x7D"

text \<open>\<open>find\<close>: the text before the first occurrence of a character, and the text after it.\<close>

definition find_char :: "int \<Rightarrow> ustring \<Rightarrow> (ustring \<times> ustring) option" where
  "find_char c s =
    (if c \<in> set s then Some (takeWhile (\<lambda>x. x \<noteq> c) s, tl (dropWhile (\<lambda>x. x \<noteq> c) s)) else None)"

lemma find_char_None: "find_char c s = None \<longleftrightarrow> c \<notin> set s"
  by (simp add: find_char_def)

lemma find_char_Some: "find_char c s = Some (a, b) \<longleftrightarrow> s = a @ c # b \<and> c \<notin> set a"
proof
  assume f: "find_char c s = Some (a, b)"
  then have c: "c \<in> set s" and ab: "a = takeWhile (\<lambda>x. x \<noteq> c) s" "b = tl (dropWhile (\<lambda>x. x \<noteq> c) s)"
    by (auto simp: find_char_def split: if_splits)
  have "dropWhile (\<lambda>x. x \<noteq> c) s \<noteq> []" using c by (simp add: dropWhile_eq_Nil_conv)
  moreover from hd_dropWhile [OF this] have "hd (dropWhile (\<lambda>x. x \<noteq> c) s) = c" by simp
  ultimately have "dropWhile (\<lambda>x. x \<noteq> c) s = c # b" using ab(2) by (metis list.collapse)
  then have "s = a @ c # b" using ab(1) takeWhile_dropWhile_id by metis
  then show "s = a @ c # b \<and> c \<notin> set a" using ab(1) by (auto dest: set_takeWhileD)
next
  assume s: "s = a @ c # b \<and> c \<notin> set a"
  then have "dropWhile (\<lambda>x. x \<noteq> c) a = []" by (auto simp: dropWhile_eq_Nil_conv)
  with s show "find_char c s = Some (a, b)" by (simp add: find_char_def takeWhile_tail dropWhile_append3)
qed

function resolve_segment ::
  "unicode \<Rightarrow> metadata_bundle \<Rightarrow> token_registry \<Rightarrow> ustring \<Rightarrow> ustring list
   \<Rightarrow> resolve_error + ustring \<times> ustring list" where
  "resolve_segment U bundle registry rest missing =
    (if rest = [] then Inr ([], missing)
     else case find_char brace_open rest of
       None \<Rightarrow> (case sanitize_literal U rest of Inl e \<Rightarrow> Inl e | Inr l \<Rightarrow> Inr (l, missing))
     | Some (before, after) \<Rightarrow>
        (case (if before = [] then Inr [] else sanitize_literal U before) of
           Inl e \<Rightarrow> Inl e
         | Inr l \<Rightarrow>
            (case find_char brace_close after of
               None \<Rightarrow>
                 (case sanitize_literal U (brace_open # after) of Inl e \<Rightarrow> Inl e | Inr l2 \<Rightarrow> Inr (l @ l2, missing))
             | Some (name, rest) \<Rightarrow>
                 (case resolve_one_token U name bundle registry missing of
                    Inl e \<Rightarrow> Inl e
                  | Inr (v, missing) \<Rightarrow>
                     (case resolve_segment U bundle registry rest missing of
                        Inl e \<Rightarrow> Inl e
                      | Inr (out, missing) \<Rightarrow> Inr (l @ v @ out, missing))))))"
  by pat_completeness auto
termination
  by (relation "measure (\<lambda>(U, b, r, rest, m). length rest)") (auto simp: find_char_Some)

declare resolve_segment.simps [simp del]

fun resolve_segments ::
  "unicode \<Rightarrow> metadata_bundle \<Rightarrow> token_registry \<Rightarrow> ustring list \<Rightarrow> ustring list
   \<Rightarrow> resolve_error + ustring list \<times> ustring list" where
  "resolve_segments U bundle registry [] missing = Inr ([], missing)"
| "resolve_segments U bundle registry (raw # raws) missing =
    (if raw = [] then resolve_segments U bundle registry raws missing
     else case resolve_segment U bundle registry raw missing of
         Inl e \<Rightarrow> Inl e
       | Inr (s, missing) \<Rightarrow>
          (case resolve_segments U bundle registry raws missing of
             Inl e \<Rightarrow> Inl e
           | Inr (segments, missing) \<Rightarrow> Inr (s # segments, missing)))"

definition is_blank_text :: "unicode \<Rightarrow> ustring \<Rightarrow> bool" where
  "is_blank_text U s = (trim_matches (white_space U) s = [])"

definition resolve_pattern_str_with ::
  "unicode \<Rightarrow> ustring \<Rightarrow> metadata_bundle \<Rightarrow> token_registry \<Rightarrow> resolver_config \<Rightarrow> resolve_error + resolve_result" where
  "resolve_pattern_str_with U pattern bundle registry config =
    (if is_blank_text U pattern then Inl ResolveEmpty
     else case resolve_segments U bundle registry (split_on 0x2F pattern) [] of
         Inl e \<Rightarrow> Inl e
       | Inr (segments, missing) \<Rightarrow>
          (let path = join_on 0x2F segments
           in case check_assembled_path U path config of
               Inl e \<Rightarrow> Inl e
             | Inr _ \<Rightarrow> Inr \<lparr>relative_path = path, missing_tokens = missing, result_warnings = []\<rparr>))"

definition resolve_pattern_str :: "unicode \<Rightarrow> ustring \<Rightarrow> metadata_bundle \<Rightarrow> resolve_error + resolve_result" where
  "resolve_pattern_str U pattern bundle = resolve_pattern_str_with U pattern bundle V1_REGISTRY default_config"

section \<open>Patterns per frame type\<close>

datatype frame_type_class = ClassLight | ClassFlat | ClassDark | ClassBias | MasterFlat | MasterDark | MasterBias

primrec frame_class_as_str :: "frame_type_class \<Rightarrow> string" where
  "frame_class_as_str ClassLight = ''light''"
| "frame_class_as_str ClassFlat = ''flat''"
| "frame_class_as_str ClassDark = ''dark''"
| "frame_class_as_str ClassBias = ''bias''"
| "frame_class_as_str MasterFlat = ''master_flat''"
| "frame_class_as_str MasterDark = ''master_dark''"
| "frame_class_as_str MasterBias = ''master_bias''"

definition frame_class_from_str_name :: "string \<Rightarrow> frame_type_class option" where
  "frame_class_from_str_name s =
    (if s = ''light'' then Some ClassLight else if s = ''flat'' then Some ClassFlat
     else if s = ''dark'' then Some ClassDark else if s = ''bias'' then Some ClassBias
     else if s = ''master_flat'' then Some MasterFlat else if s = ''master_dark'' then Some MasterDark
     else if s = ''master_bias'' then Some MasterBias else None)"

definition frame_class_all :: "frame_type_class list" where
  "frame_class_all = [ClassLight, ClassFlat, ClassDark, ClassBias, MasterFlat, MasterDark, MasterBias]"

datatype base = Base_Light | Base_Flat | Base_Dark | Base_Bias

definition to_ascii_lowercase :: "ustring \<Rightarrow> ustring" where
  "to_ascii_lowercase s = map (\<lambda>c. if 65 \<le> c \<and> c \<le> 90 then c + 32 else c) s"

definition base_of :: "ustring \<Rightarrow> base option" where
  "base_of s =
    (if s \<in> {lit ''light'', lit ''light frame'', lit ''lights''} then Some Base_Light
     else if s \<in> {lit ''flat'', lit ''flat frame'', lit ''flats'', lit ''flatfield''} then Some Base_Flat
     else if s \<in> {lit ''dark'', lit ''dark frame'', lit ''darks''} then Some Base_Dark
     else if s \<in> {lit ''bias'', lit ''bias frame'', lit ''biases'', lit ''offset''} then Some Base_Bias
     else None)"

definition classify_frame :: "unicode \<Rightarrow> ustring \<Rightarrow> bool \<Rightarrow> frame_type_class option" where
  "classify_frame U frame_type is_master =
    (case base_of (to_ascii_lowercase (trim_matches (white_space U) frame_type)) of
       None \<Rightarrow> None
     | Some b \<Rightarrow> Some (case (b, is_master) of
           (Base_Light, _) \<Rightarrow> ClassLight
         | (Base_Flat, False) \<Rightarrow> ClassFlat
         | (Base_Flat, True) \<Rightarrow> MasterFlat
         | (Base_Dark, False) \<Rightarrow> ClassDark
         | (Base_Dark, True) \<Rightarrow> MasterDark
         | (Base_Bias, False) \<Rightarrow> ClassBias
         | (Base_Bias, True) \<Rightarrow> MasterBias))"

primrec default_pattern :: "frame_type_class \<Rightarrow> ustring" where
  "default_pattern ClassLight = lit ''{target}/{filter}/{date}/light/''"
| "default_pattern ClassFlat = lit ''flats/{filter}/{date}/''"
| "default_pattern ClassDark = lit ''darks/{exposure}/''"
| "default_pattern ClassBias = lit ''bias/''"
| "default_pattern MasterFlat = lit ''masters/flats/{filter}/''"
| "default_pattern MasterDark = lit ''masters/darks/{exposure}/''"
| "default_pattern MasterBias = lit ''masters/bias/''"

datatype pattern_str_error = PatternStrEmpty | PatternStrUnknownToken ustring

function tokens_in :: "ustring \<Rightarrow> ustring list" where
  "tokens_in rest =
    (case find_char brace_open rest of
       None \<Rightarrow> []
     | Some (before, after) \<Rightarrow>
        (case find_char brace_close after of
           Some (name, rest) \<Rightarrow> name # tokens_in rest
         | None \<Rightarrow> []))"
  by pat_completeness auto
termination by (relation "measure length") (auto simp: find_char_Some)

declare tokens_in.simps [simp del]

definition validate_pattern_str :: "unicode \<Rightarrow> ustring \<Rightarrow> pattern_str_error + unit" where
  "validate_pattern_str U pattern =
    (if is_blank_text U pattern then Inl PatternStrEmpty
     else case find (\<lambda>t. \<not> registry_contains V1_REGISTRY t) (tokens_in pattern) of
         Some t \<Rightarrow> Inl (PatternStrUnknownToken t)
       | None \<Rightarrow> Inr ())"

definition effective_pattern :: "unicode \<Rightarrow> frame_type_class \<Rightarrow> ustring option \<Rightarrow> ustring" where
  "effective_pattern U c override =
    (case override of
       Some p \<Rightarrow> (if \<not> isl (validate_pattern_str U p) then p else default_pattern c)
     | None \<Rightarrow> default_pattern c)"

end
