(* ===== verification/PatternProps.thy ===== *)
theory PatternProps
  imports Patterns Contain
begin

text \<open>
  Properties of resolved patterns: what the checks on the assembled path establish, that a resolved
  pattern string stays below the root it is joined to, and that validation and resolution agree on
  unknown tokens.
\<close>

section \<open>The assembled path\<close>

definition segment_fits :: "unicode \<Rightarrow> resolver_config \<Rightarrow> ustring \<Rightarrow> bool" where
  "segment_fits U config s \<longleftrightarrow> s \<noteq> lit ''.'' \<and> s \<noteq> lit ''..'' \<and> length (utf8 s) \<le> max_segment_bytes config
     \<and> (s \<noteq> [] \<longrightarrow> to_upper U (hd (split_on 0x2E s)) \<notin> set WINDOWS_RESERVED_NAMES)"

lemma utf8_simps [simp]: "utf8 [] = []" "utf8 (c # s) = utf8_char c @ utf8 s" "utf8 (s @ t) = utf8 s @ utf8 t"
  by (simp_all add: utf8_def)

lemma check_segments_Inr:
  "check_segments U config n segments = Inr () \<Longrightarrow> list_all (segment_fits U config) segments"
  by (induction segments)
    (auto simp: segment_fits_def step4_reserved_name_check_def Let_def split: if_splits sum.splits)

lemma check_assembled_path_Inr:
  "check_assembled_path U path config = Inr x \<Longrightarrow>
     list_all (segment_fits U config) (split_on 0x2F path) \<and> length path \<le> max_path_chars config"
  by (auto simp: check_assembled_path_def Let_def split: sum.splits if_splits dest: check_segments_Inr)

lemma resolve_Inr:
  assumes "resolve U pattern metadata registry config = Inr r"
  obtains parts missing where "valid (validate pattern registry)"
    "resolve_parts U metadata registry pattern [] = Inr (parts, missing)"
    "check_assembled_path U (concat parts) config = Inr ()"
    "r = \<lparr>relative_path = concat parts, missing_tokens = missing,
          result_warnings = warnings (validate pattern registry)\<rparr>"
proof -
  have "\<not> valid (validate pattern registry) \<Longrightarrow> errors (validate pattern registry) \<noteq> []"
    by (auto simp: validate_def Let_def split: if_splits)
  then show ?thesis using assms that
    by (auto simp: resolve_def Let_def split: list.splits sum.splits prod.splits if_splits)
qed

lemma resolve_pattern_str_with_Inr:
  assumes "resolve_pattern_str_with U pattern md registry config = Inr r"
  obtains segments missing where
    "resolve_segments U md registry (split_on 0x2F pattern) [] = Inr (segments, missing)"
    "check_assembled_path U (join_on 0x2F segments) config = Inr ()"
    "relative_path r = join_on 0x2F segments" "missing_tokens r = missing"
  using assms by (auto simp: resolve_pattern_str_with_def Let_def split: sum.splits prod.splits if_splits)

text \<open>
  C33. Both resolvers respect the same limits: no level of a path they return is a dot name or a Windows
  device, none is longer than the configured number of bytes, and the whole is no longer than the
  configured number of characters.
\<close>

theorem resolved_paths_respect_the_limits:
  assumes "resolve U pattern metadata registry config = Inr r
    \<or> resolve_pattern_str_with U pattern_str metadata registry config = Inr r"
  shows "list_all (segment_fits U config) (split_on 0x2F (relative_path r))
    \<and> length (relative_path r) \<le> max_path_chars config"
  using assms
  by (auto elim!: resolve_Inr resolve_pattern_str_with_Inr dest: check_assembled_path_Inr)

definition token_part :: "string \<Rightarrow> pattern_part" where
  "token_part n = \<lparr>part_id = [], part_kind = lit ''token'', part_value = lit n\<rparr>"

definition separator_part :: "string \<Rightarrow> pattern_part" where
  "separator_part n = \<lparr>part_id = [], part_kind = lit ''separator'', part_value = lit n\<rparr>"

definition example_metadata :: metadata_bundle where
  "example_metadata = [lit ''target'' \<mapsto> lit ''M/101'', lit ''filter'' \<mapsto> lit ''..'']"

theorem resolved_paths_respect_the_limits_witness:
  "list_all (segment_fits ascii default_config) (split_on 0x2F (lit ''M_101/undated''))
    \<and> length (lit ''M_101/undated'') \<le> max_path_chars default_config"
proof -
  let ?r = "resolve_v1 ascii [token_part ''target'', separator_part ''/'', token_part ''date''] example_metadata"
  have "(case ?r of Inl e \<Rightarrow> False | Inr r \<Rightarrow> relative_path r = lit ''M_101/undated'')" by code_simp
  then obtain r where r: "?r = Inr r" "relative_path r = lit ''M_101/undated''" by (auto split: sum.splits)
  then show ?thesis
    using resolved_paths_respect_the_limits [OF disjI1 [OF r(1) [unfolded resolve_v1_def]]] by simp
qed

section \<open>Levels below the root\<close>

text \<open>Text whose UTF-8 form has a slash exactly where the text has one.\<close>

definition plain_text :: "ustring \<Rightarrow> bool" where
  "plain_text s \<longleftrightarrow> (\<forall>c \<in> set s. 0 \<le> c)"

lemma utf8_char_ne [simp]: "utf8_char c \<noteq> []"
  by (simp add: utf8_char_def)

lemma utf8_Nil [simp]: "utf8 s = [] \<longleftrightarrow> s = []"
  by (cases s) simp_all

lemma char_of_high:
  assumes "128 \<le> (n :: int)" and "n < 256"
  shows "char_of n \<noteq> CHR ''/''" and "char_of n \<noteq> CHR ''.''"
  using assms by (simp_all add: char_of_eq_iff take_bit_eq_mod)

lemma char_of_low:
  assumes "0 \<le> (c :: int)" and "c < 128"
  shows "char_of c = CHR ''/'' \<longleftrightarrow> c = 0x2F" and "char_of c = CHR ''.'' \<longleftrightarrow> c = 0x2E"
  using assms by (simp_all add: char_of_eq_iff take_bit_eq_mod)

lemma byte_high:
  "128 \<le> k \<Longrightarrow> 0 \<le> m \<Longrightarrow> k + m < 256 \<Longrightarrow> char_of (k + m :: int) \<noteq> CHR ''/'' \<and> char_of (k + m) \<noteq> CHR ''.''"
  using char_of_high [of "k + m"] by simp

lemma byte_bounds: "(m :: int) mod 64 < 128" "(m :: int) mod 8 < 16" "0 \<le> (m :: int) mod 64" "0 \<le> (m :: int) mod 8"
  "0 \<le> c \<Longrightarrow> 0 \<le> c div 64" "0 \<le> c \<Longrightarrow> 0 \<le> c div 4096"
  "(c :: int) < 2048 \<Longrightarrow> c div 64 < 64" "(c :: int) < 65536 \<Longrightarrow> c div 4096 < 32"
  using pos_mod_bound [of 64 m] pos_mod_bound [of 8 m]
  by (simp_all add: div_less_iff_less_mult pos_imp_zdiv_nonneg_iff)

lemma utf8_char_high:
  assumes "128 \<le> c" and "b \<in> set (utf8_char c)"
  shows "b \<noteq> CHR ''/'' \<and> b \<noteq> CHR ''.''"
proof -
  have two: "c < 2048 \<Longrightarrow> char_of (0xC0 + c div 64) \<noteq> CHR ''/'' \<and> char_of (0xC0 + c div 64) \<noteq> CHR ''.''"
    using byte_bounds(5,7) [of c] assms(1) by (intro byte_high) auto
  have three: "c < 65536 \<Longrightarrow> char_of (0xE0 + c div 4096) \<noteq> CHR ''/'' \<and> char_of (0xE0 + c div 4096) \<noteq> CHR ''.''"
    using byte_bounds(6,8) [of c] assms(1) by (intro byte_high) auto
  have four: "char_of (0xF0 + m mod 8) \<noteq> CHR ''/'' \<and> char_of (0xF0 + m mod 8) \<noteq> CHR ''.''" for m :: int
    using byte_bounds(2,4) [of m] by (intro byte_high) auto
  have tail: "char_of (0x80 + m mod 64) \<noteq> CHR ''/'' \<and> char_of (0x80 + m mod 64) \<noteq> CHR ''.''" for m :: int
    using byte_bounds(1,3) [of m] by (intro byte_high) auto
  show ?thesis using assms two three four tail by (auto simp: utf8_char_def split: if_splits)
qed

lemma utf8_char_low: "c < 128 \<Longrightarrow> utf8_char c = [char_of c]"
  by (simp add: utf8_char_def)

lemma utf8_char_slash:
  assumes "0 \<le> c"
  shows "CHR ''/'' \<in> set (utf8_char c) \<longleftrightarrow> c = 0x2F" and "CHR ''.'' \<in> set (utf8_char c) \<longleftrightarrow> c = 0x2E"
    and "c = 0x2F \<longrightarrow> utf8_char c = ''/''"
proof -
  show "CHR ''/'' \<in> set (utf8_char c) \<longleftrightarrow> c = 0x2F" and "CHR ''.'' \<in> set (utf8_char c) \<longleftrightarrow> c = 0x2E"
    using assms utf8_char_high [of c] char_of_low [of c] by (cases "c < 128"; force simp: utf8_char_low)+
  show "c = 0x2F \<longrightarrow> utf8_char c = ''/''" by (simp add: utf8_char_low char_of_low)
qed

text \<open>The levels of the encoded path are the encoded levels.\<close>

lemma split_slash_free: "CHR ''/'' \<notin> set w \<Longrightarrow> split_slash (w @ s) = (case split_slash s of v # vs \<Rightarrow> (w @ v) # vs | [] \<Rightarrow> [])"
  by (induction w) (auto split: list.splits)

lemma split_slash_utf8: "plain_text s \<Longrightarrow> split_slash (utf8 s) = map utf8 (split_on 0x2F s)"
proof (induction s)
  case (Cons c s)
  then have IH: "split_slash (utf8 s) = map utf8 (split_on 0x2F s)" and c: "0 \<le> c" by (auto simp: plain_text_def)
  show ?case
  proof (cases "c = 0x2F")
    case True
    then show ?thesis using IH utf8_char_slash(3) [OF c] by simp
  next
    case False
    then have "split_slash (utf8_char c @ utf8 s) = (case split_slash (utf8 s) of v # vs \<Rightarrow> (utf8_char c @ v) # vs | [] \<Rightarrow> [])"
      using utf8_char_slash(1) [OF c] by (intro split_slash_free) simp
    then show ?thesis using IH False by (auto split: list.splits)
  qed
qed simp

lemma pieces_utf8: "plain_text s \<Longrightarrow> pieces (utf8 s) = map utf8 (filter (\<lambda>w. w \<noteq> []) (split_on 0x2F s))"
  by (simp add: pieces_def split_slash_utf8 filter_map comp_def)

lemma utf8_dots:
  assumes "plain_text s"
  shows "utf8 s = ''.'' \<Longrightarrow> s = lit ''.''" and "utf8 s = ''..'' \<Longrightarrow> s = lit ''..''"
proof -
  have dots: "list_all (\<lambda>c. c = 0x2E) s" if "set (utf8 s) \<subseteq> {CHR ''.''}"
    using assms that
  proof (induction s)
    case (Cons c s)
    have "CHR ''.'' \<in> set (utf8_char c)"
      using Cons.prems(2) by (cases "utf8_char c") auto
    then show ?case using Cons utf8_char_slash(2) [of c] by (auto simp: plain_text_def)
  qed simp
  have len: "length (utf8 s) = length s" if "list_all (\<lambda>c. c = 0x2E) s"
    using that by (induction s) (auto simp: utf8_char_low)
  have rep: "s = replicate (length s) 0x2E" if "list_all (\<lambda>c. c = 0x2E) s"
    using that by (induction s) auto
  show "s = lit ''.''" if d: "utf8 s = ''.''"
    using dots len rep d by (simp add: numeral_eq_Suc) (metis length_Cons list.size(3) replicate_0 replicate_Suc)
  show "s = lit ''..''" if d: "utf8 s = ''..''"
    using dots len rep d by simp (metis length_Cons list.size(3) replicate_0 replicate_Suc)
qed

text \<open>A relative path whose levels are names is contained, and denotes those levels below the root.\<close>

lemma resolve_in_root_names:
  assumes cl: "clean_ok clean" and root: "is_absolute root" and rel: "\<not> is_absolute p"
    and names: "\<forall>w \<in> set (pieces p). w \<noteq> ''.'' \<and> w \<noteq> ''..''"
  shows "\<exists>r. resolve_in_root clean root p = Inr r \<and> os_path r = os_path (clean root) @ pieces p"
proof -
  let ?r = "clean (path_join (clean root) p)"
  have "filter (\<lambda>w. w \<noteq> ''.'') (pieces p) = pieces p" using names by (simp add: filter_id_conv)
  moreover have "map to_component (pieces p) = map Normal (pieces p)" using names by (simp add: to_component_def)
  ultimately have "collapse st (components p) = collapse st (map Normal (pieces p))" for st
    using collapse_relative [OF rel] by metis
  then have path: "os_path ?r = os_path (clean root) @ pieces p"
    using os_path_join_clean [OF cl root rel] collapse_Normals [of _ "pieces p" "[]"] by simp
  have "components (clean root) = RootDir # map Normal (os_path (clean root))"
    using components_clean [OF cl root] .
  moreover have "components ?r = RootDir # map Normal (os_path ?r)"
    using components_clean [OF cl] is_absolute_clean [OF cl root] by simp
  ultimately have "path_starts_with ?r (clean root)"
    unfolding path_starts_with_def path by simp
  then show ?thesis using root path by (auto simp: resolve_in_root_def Let_def)
qed

definition safe_level :: "ustring \<Rightarrow> bool" where
  "safe_level s \<longleftrightarrow> s \<noteq> [] \<and> 0x2F \<notin> set s \<and> plain_text s"

definition registry_safe :: "token_registry \<Rightarrow> bool" where
  "registry_safe registry \<longleftrightarrow> (\<forall>k d. registry k = Some d \<longrightarrow> safe_level (fallback d))"

lemma V1_definitions_safe: "\<forall>d \<in> set V1_DEFINITIONS. safe_level (fallback d) \<and> 0x2F \<notin> set (token_name d)"
  by (simp add: V1_DEFINITIONS_def token_def_def safe_level_def plain_text_def)

lemma V1_registry_Some: "V1_REGISTRY k = Some d \<Longrightarrow> d \<in> set V1_DEFINITIONS \<and> token_name d = k"
  by (auto simp: V1_REGISTRY_def from_slice_def dest!: map_of_SomeD)

lemma V1_registry_safe: "registry_safe V1_REGISTRY"
  using V1_definitions_safe V1_registry_Some unfolding registry_safe_def by blast

lemma sanitized_level: "sanitize_token_value U tok raw = Inr s \<Longrightarrow> safe_level s"
proof -
  have c: "\<not> is_disallowed c \<Longrightarrow> 0 \<le> c" "\<not> is_windows_reserved_char c \<Longrightarrow> c \<noteq> 0x2F" for c
    by (auto simp: is_disallowed_def is_windows_reserved_char_def)
  assume "sanitize_token_value U tok raw = Inr s"
  then have "s \<noteq> []" "\<forall>c \<in> set s. \<not> is_windows_reserved_char c \<and> \<not> is_disallowed c"
    using sanitize_token_value_safe by (auto simp: is_safe_segment_def)
  then show ?thesis using c by (auto simp: safe_level_def plain_text_def)
qed

lemma sanitize_literal_level: "sanitize_literal U l = Inr s \<Longrightarrow> safe_level s"
  by (auto simp: sanitize_literal_def split: sum.splits dest: sanitized_level)

lemma resolve_one_token_level:
  "registry_safe registry \<Longrightarrow> resolve_one_token U name md registry missing = Inr (v, m) \<Longrightarrow> safe_level v"
  by (auto simp: resolve_one_token_def registry_safe_def Let_def split: option.splits sum.splits sanitize_error.splits
      dest: sanitized_level)

lemma safe_level_append:
  "safe_level a \<or> a = [] \<Longrightarrow> safe_level b \<Longrightarrow> safe_level (a @ b)"
  "safe_level a \<Longrightarrow> safe_level b \<or> b = [] \<Longrightarrow> safe_level (a @ b)"
  by (auto simp: safe_level_def plain_text_def)

lemma resolve_segment_level:
  "registry_safe registry \<Longrightarrow> resolve_segment U md registry rest missing = Inr (out, m) \<Longrightarrow>
     safe_level out \<or> rest = [] \<and> out = []"
proof (induction U md registry rest missing arbitrary: out m rule: resolve_segment.induct)
  case (1 U md registry rest missing)
  note run = "1.prems"(2) and safe = "1.prems"(1)
  show ?case
  proof (cases "rest = []")
    case True
    then show ?thesis using run by (simp add: resolve_segment.simps [of _ _ _ "[]"])
  next
    case ne: False
    show ?thesis
    proof (cases "find_char brace_open rest")
      case None
      then show ?thesis using run ne sanitize_literal_level
        by (subst (asm) resolve_segment.simps) (auto split: sum.splits)
    next
      case (Some p)
      then obtain before after where p: "find_char brace_open rest = Some (before, after)" by (cases p) auto
      obtain l where l: "(if before = [] then Inr [] else sanitize_literal U before) = Inr l"
        using run ne p by (subst (asm) resolve_segment.simps) (auto split: sum.splits if_splits)
      have l_ok: "safe_level l \<or> l = []" using l sanitize_literal_level by (auto split: if_splits)
      show ?thesis
      proof (cases "find_char brace_close after")
        case None
        then obtain l2 where l2: "sanitize_literal U (brace_open # after) = Inr l2" "out = l @ l2"
          using run ne p l by (subst (asm) resolve_segment.simps) (auto split: sum.splits)
        have "safe_level l2" using sanitize_literal_level l2(1) by blast
        then show ?thesis using l2(2) safe_level_append(1) [OF l_ok] by simp
      next
        case (Some q)
        then obtain name rest' where q: "find_char brace_close after = Some (name, rest')" by (cases q) auto
        obtain v m1 out' where v: "resolve_one_token U name md registry missing = Inr (v, m1)"
            "resolve_segment U md registry rest' m1 = Inr (out', m)" "out = l @ v @ out'"
          using run ne p l q by (subst (asm) resolve_segment.simps) (auto split: sum.splits prod.splits)
        have "safe_level out' \<or> out' = []"
          using "1.IH" [OF ne p refl l q refl v(1) refl safe v(2)] by blast
        moreover have "safe_level v" using resolve_one_token_level [OF safe v(1)] .
        ultimately have "safe_level (v @ out')" by (intro safe_level_append(2))
        then show ?thesis using v(3) safe_level_append(1) [OF l_ok] by simp
      qed
    qed
  qed
qed

lemma resolve_segments_levels:
  "registry_safe registry \<Longrightarrow> resolve_segments U md registry raws missing = Inr (segments, m) \<Longrightarrow>
     list_all safe_level segments \<and> length segments = length (filter (\<lambda>w. w \<noteq> []) raws)"
proof (induction raws arbitrary: missing segments)
  case (Cons raw raws)
  show ?case
  proof (cases "raw = []")
    case False
    then obtain s m1 segs where s: "resolve_segment U md registry raw missing = Inr (s, m1)"
        "resolve_segments U md registry raws m1 = Inr (segs, m)" "segments = s # segs"
      using Cons.prems(2) by (auto split: sum.splits prod.splits)
    then show ?thesis using Cons.IH [OF Cons.prems(1) s(2)] resolve_segment_level [OF Cons.prems(1) s(1)] False by simp
  qed (use Cons in simp)
qed simp

lemma join_on_text: "set (join_on c ws) \<subseteq> insert c (\<Union> (set ` set ws))"
  by (cases ws) (auto simp: join_on_def)

text \<open>
  C24. A destination rendered from a pattern string never leaves the root it is joined to: containment
  accepts it, and the directory levels below the root are the levels of the pattern, one for one,
  whatever the metadata holds.
\<close>

theorem resolved_pattern_stays_below_root:
  assumes "clean_ok clean" and "is_absolute root" and "resolve_pattern_str U pattern md = Inr r"
  shows "\<exists>p ns. resolve_in_root clean root (utf8 (relative_path r)) = Inr p
    \<and> os_path p = os_path (clean root) @ ns
    \<and> length ns = length (filter (\<lambda>w. w \<noteq> []) (split_on 0x2F pattern))"
proof -
  obtain segments missing where
      s: "resolve_segments U md V1_REGISTRY (split_on 0x2F pattern) [] = Inr (segments, missing)"
    and c: "check_assembled_path U (join_on 0x2F segments) default_config = Inr ()"
    and path: "relative_path r = join_on 0x2F segments"
    using assms(3) by (auto simp: resolve_pattern_str_def elim: resolve_pattern_str_with_Inr)
  have levels: "\<forall>w \<in> set segments. safe_level w"
    and len: "length segments = length (filter (\<lambda>w. w \<noteq> []) (split_on 0x2F pattern))"
    using resolve_segments_levels [OF V1_registry_safe s] by (auto simp: list_all_iff)
  let ?p = "join_on 0x2F segments"
  have plain: "plain_text ?p"
    using join_on_text [of "0x2F" segments] levels by (fastforce simp: plain_text_def safe_level_def)
  have split: "filter (\<lambda>w. w \<noteq> []) (split_on 0x2F ?p) = segments"
  proof (cases "segments = []")
    case False
    then have "split_on 0x2F ?p = segments" using levels by (intro split_join_on) (auto simp: safe_level_def)
    then show ?thesis using levels by (auto simp: filter_id_conv safe_level_def)
  qed (simp add: join_on_def)
  have pieces: "pieces (utf8 ?p) = map utf8 segments" using pieces_utf8 [OF plain] split by simp
  have rel: "\<not> is_absolute (utf8 ?p)"
  proof (cases segments)
    case (Cons w ws)
    then have w: "safe_level w" using levels by simp
    then obtain c w' where cw: "w = c # w'" by (cases w) (auto simp: safe_level_def)
    have "CHR ''/'' \<notin> set (utf8_char c)"
      using w cw utf8_char_slash(1) [of c] by (auto simp: safe_level_def plain_text_def)
    then show ?thesis using Cons cw by (cases "utf8_char c") (auto simp: join_on_def is_absolute_def)
  qed (simp add: join_on_def is_absolute_def)
  have "\<forall>w \<in> set (pieces (utf8 ?p)). w \<noteq> ''.'' \<and> w \<noteq> ''..''"
  proof
    fix v
    assume "v \<in> set (pieces (utf8 ?p))"
    then obtain w where w: "v = utf8 w" "w \<in> set segments" using pieces by auto
    have "w \<in> set (split_on 0x2F ?p)" using w(2) split by (metis filter_is_subset subsetD)
    then have "segment_fits U default_config w"
      using check_assembled_path_Inr [OF c] by (simp add: list_all_iff)
    moreover have "plain_text w" using levels w(2) by (simp add: safe_level_def)
    ultimately show "v \<noteq> ''.'' \<and> v \<noteq> ''..''" using utf8_dots w(1) by (auto simp: segment_fits_def)
  qed
  from resolve_in_root_names [OF assms(1,2) rel this]
  obtain q where "resolve_in_root clean root (utf8 ?p) = Inr q" "os_path q = os_path (clean root) @ map utf8 segments"
    using pieces by auto
  then show ?thesis using path len by (intro exI [of _ q] exI [of _ "map utf8 segments"]) simp
qed

theorem resolved_pattern_stays_below_root_witness:
  "\<exists>p ns. resolve_in_root lexical_clean ''/lib'' (utf8 (lit ''M_101/nofilter/undated/light'')) = Inr p
    \<and> os_path p = [''lib''] @ ns \<and> length ns = 4"
proof -
  let ?m = "[lit ''target'' \<mapsto> lit ''M/101'', lit ''filter'' \<mapsto> lit ''  '']"
  let ?r = "resolve_pattern_str ascii (default_pattern ClassLight) ?m"
  have "(case ?r of Inl e \<Rightarrow> False | Inr r \<Rightarrow> relative_path r = lit ''M_101/nofilter/undated/light'')" by code_simp
  then obtain r where r: "?r = Inr r" "relative_path r = lit ''M_101/nofilter/undated/light''" by (auto split: sum.splits)
  have "os_path (lexical_clean ''/lib'') = [''lib'']" by code_simp
  moreover have "length (filter (\<lambda>w. w \<noteq> []) (split_on 0x2F (default_pattern ClassLight))) = 4" by code_simp
  ultimately show ?thesis
    using resolved_pattern_stays_below_root [OF lexical_clean_ok _ r(1), of "''/lib''"] r(2)
    by (auto simp: is_absolute_def)
qed

text \<open>
  C40. A token/separator pattern may start with a separator; validation only warns. The path it resolves
  to is then absolute, so joined to a root it does not denote a place below that root.
\<close>

theorem leading_slash_resolves_to_an_absolute_path:
  assumes "resolve U (p # ps) metadata registry config = Inr r" and "is_separator p" and "part_value p = lit ''/''"
  shows "is_absolute (utf8 (relative_path r)) \<and> path_join root (utf8 (relative_path r)) = utf8 (relative_path r)
    \<and> LeadingSeparator \<in> set (result_warnings r)"
proof -
  obtain parts missing where v: "valid (validate (p # ps) registry)"
      and parts: "resolve_parts U metadata registry (p # ps) [] = Inr (parts, missing)"
      and r: "r = \<lparr>relative_path = concat parts, missing_tokens = missing,
          result_warnings = warnings (validate (p # ps) registry)\<rparr>"
    using resolve_Inr [OF assms(1)] by metis
  have "part_kind p = lit ''separator''" "lit ''token'' \<noteq> lit ''separator''"
    using assms(2) by (simp_all add: is_separator_def)
  then obtain rest where "parts = lit ''/'' # rest"
    using parts assms(3) by (auto split: sum.splits prod.splits)
  moreover have "LeadingSeparator \<in> set (warnings (validate (p # ps) registry))"
    using v assms(2) by (auto simp: validate_def Let_def split: if_splits)
  moreover have "utf8_char 47 = ''/''" using utf8_char_slash(3) [of 47] by simp
  ultimately show ?thesis using r by (simp add: is_absolute_def path_join_def)
qed

theorem leading_slash_resolves_to_an_absolute_path_witness:
  "path_join ''/lib'' (utf8 (lit ''/M31'')) = utf8 (lit ''/M31'')"
proof -
  let ?r = "resolve_v1 ascii [separator_part ''/'', token_part ''target''] [lit ''target'' \<mapsto> lit ''M31'']"
  have "(case ?r of Inl e \<Rightarrow> False | Inr r \<Rightarrow> relative_path r = lit ''/M31'')" by code_simp
  then obtain r where r: "?r = Inr r" "relative_path r = lit ''/M31''" by (auto split: sum.splits)
  show ?thesis
    using leading_slash_resolves_to_an_absolute_path [OF r(1) [unfolded resolve_v1_def], of "''/lib''"] r(2)
    by (simp add: separator_part_def is_separator_def)
qed

section \<open>Unknown tokens\<close>

lemma find_char_append_Some: "find_char c s = Some (a, b) \<Longrightarrow> find_char c (s @ t) = Some (a, b @ t)"
  by (simp add: find_char_Some)

lemma find_char_append_None: "c \<notin> set s \<Longrightarrow> find_char c (s @ t) = map_option (\<lambda>(a, b). (s @ a, b)) (find_char c t)"
proof (cases "find_char c t")
  case None
  moreover assume "c \<notin> set s"
  ultimately have "find_char c (s @ t) = None" by (simp add: find_char_None)
  then show ?thesis using None by simp
next
  case (Some p)
  obtain a b where p: "p = (a, b)" by (cases p)
  assume "c \<notin> set s"
  then have "find_char c (s @ t) = Some (s @ a, b)" using Some p by (simp add: find_char_Some)
  then show ?thesis using Some p by simp
qed

lemma tokens_in_no_open: "brace_open \<notin> set s \<Longrightarrow> tokens_in s = []"
  by (subst tokens_in.simps) (simp add: find_char_None [THEN iffD2])

lemma tokens_in_no_close: "brace_close \<notin> set s \<Longrightarrow> tokens_in s = []"
proof (subst tokens_in.simps, cases "find_char brace_open s")
  case (Some p)
  assume c: "brace_close \<notin> set s"
  obtain a b where p: "p = (a, b)" by (cases p)
  then have "s = a @ brace_open # b" using Some by (simp add: find_char_Some)
  then have "find_char brace_close b = None" using c by (simp add: find_char_None)
  then show "(case find_char brace_open s of None \<Rightarrow> [] | Some (before, after) \<Rightarrow>
      case find_char brace_close after of Some (name, rest) \<Rightarrow> name # tokens_in rest | None \<Rightarrow> []) = []"
    using Some p by simp
qed simp

lemma slash_not_brace [simp]: "0x2F \<noteq> brace_open" "0x2F \<noteq> brace_close" "brace_open \<noteq> 0x2F" "brace_close \<noteq> 0x2F"
  by (simp_all add: brace_open_def brace_close_def)

text \<open>Unless a token spans a slash, the tokens of a pattern are those of its segments.\<close>

lemma tokens_in_split:
  "\<forall>t \<in> set (tokens_in (xs @ 0x2F # ys)). 0x2F \<notin> set t \<Longrightarrow>
     tokens_in (xs @ 0x2F # ys) = tokens_in xs @ tokens_in ys"
proof (induction xs rule: tokens_in.induct)
  case (1 xs)
  show ?case
  proof (cases "find_char brace_open xs")
    case None
    then have o: "brace_open \<notin> set (xs @ [0x2F])" by (simp add: find_char_None)
    have "tokens_in ((xs @ [0x2F]) @ ys) = tokens_in ys"
      by (subst (1 2) tokens_in.simps) (simp only: find_char_append_None [OF o], simp split: option.splits prod.splits)
    then show ?thesis using None by (simp add: tokens_in_no_open find_char_None)
  next
    case (Some p)
    then obtain a b where p: "find_char brace_open xs = Some (a, b)" by (cases p) auto
    note whole = find_char_append_Some [OF p, of "0x2F # ys"]
    show ?thesis
    proof (cases "find_char brace_close b")
      case None
      then have c: "brace_close \<notin> set (b @ [0x2F])" by (simp add: find_char_None)
      have "find_char brace_close ys = None"
      proof (rule ccontr)
        assume "find_char brace_close ys \<noteq> None"
        then obtain n r where "find_char brace_close ys = Some (n, r)" by auto
        then have "find_char brace_close (b @ 0x2F # ys) = Some ((b @ [0x2F]) @ n, r)"
          using find_char_append_None [OF c, of ys] by simp
        then have "(b @ [0x2F]) @ n \<in> set (tokens_in (xs @ 0x2F # ys))"
          using whole by (subst tokens_in.simps) simp
        then show False using "1.prems" by fastforce
      qed
      then have nc: "brace_close \<notin> set (b @ 0x2F # ys)" using c by (simp add: find_char_None)
      then have "tokens_in (xs @ 0x2F # ys) = []" using whole by (subst tokens_in.simps) (simp add: find_char_None [THEN iffD2])
      moreover have "tokens_in xs = []" using p None by (subst tokens_in.simps) simp
      ultimately show ?thesis using nc by (simp add: tokens_in_no_close)
    next
      case (Some q)
      then obtain n r where q: "find_char brace_close b = Some (n, r)" by (cases q) auto
      have tw: "tokens_in (xs @ 0x2F # ys) = n # tokens_in (r @ 0x2F # ys)"
        using whole find_char_append_Some [OF q, of "0x2F # ys"] by (subst tokens_in.simps) simp
      have "tokens_in (r @ 0x2F # ys) = tokens_in r @ tokens_in ys"
        using "1.IH" [OF p refl q refl] "1.prems" tw by simp
      moreover have "tokens_in xs = n # tokens_in r" using p q by (subst tokens_in.simps) simp
      ultimately show ?thesis using tw by simp
    qed
  qed
qed

lemma tokens_in_segments:
  "\<forall>t \<in> set (tokens_in s). 0x2F \<notin> set t \<Longrightarrow> w \<in> set (split_on 0x2F s) \<Longrightarrow> set (tokens_in w) \<subseteq> set (tokens_in s)"
proof (induction "length s" arbitrary: s rule: less_induct)
  case less
  show ?case
  proof (cases "find_char 0x2F s")
    case None
    then show ?thesis using less.prems(2) by (simp add: split_on_free find_char_None)
  next
    case (Some p)
    then obtain a b where p: "s = a @ 0x2F # b" "0x2F \<notin> set a" by (cases p) (auto simp: find_char_Some)
    have t: "tokens_in s = tokens_in a @ tokens_in b" using tokens_in_split less.prems(1) p(1) by simp
    have "w = a \<or> w \<in> set (split_on 0x2F b)" using less.prems(2) p by (simp add: split_on_append split_on_free)
    then show ?thesis using less.hyps [of b] less.prems(1) p(1) t by auto
  qed
qed

lemma resolve_one_token_unknown:
  "resolve_one_token U name md registry missing = Inl (ResolveUnknownToken t) \<Longrightarrow> t = name \<and> registry t = None"
  by (auto simp: resolve_one_token_def Let_def map_sanitize_error_def split: option.splits sum.splits sanitize_error.splits)

lemma sanitize_literal_unknown [simp]: "sanitize_literal U l \<noteq> Inl (ResolveUnknownToken t)"
  by (auto simp: sanitize_literal_def map_sanitize_error_def split: sum.splits sanitize_error.splits)

lemma resolve_segment_unknown:
  "resolve_segment U md registry rest missing = Inl (ResolveUnknownToken t) \<Longrightarrow>
     t \<in> set (tokens_in rest) \<and> registry t = None"
proof (induction U md registry rest missing rule: resolve_segment.induct)
  case (1 U md registry rest missing)
  note run = "1.prems"
  have ne: "rest \<noteq> []" using run by (subst (asm) resolve_segment.simps) auto
  obtain before after where p: "find_char brace_open rest = Some (before, after)"
    using run ne by (subst (asm) resolve_segment.simps) (auto split: option.splits sum.splits)
  obtain l where l: "(if before = [] then Inr [] else sanitize_literal U before) = Inr l"
    using run ne p by (subst (asm) resolve_segment.simps) (auto split: sum.splits if_splits)
  obtain name rest' where q: "find_char brace_close after = Some (name, rest')"
    using run ne p l by (subst (asm) resolve_segment.simps) (auto split: option.splits sum.splits)
  have toks: "tokens_in rest = name # tokens_in rest'" using p q by (subst tokens_in.simps) simp
  show ?case
  proof (cases "resolve_one_token U name md registry missing")
    case (Inl e)
    then have "e = ResolveUnknownToken t"
      using run ne p l q by (subst (asm) resolve_segment.simps) simp
    then show ?thesis using resolve_one_token_unknown Inl toks by fastforce
  next
    case (Inr vm)
    then obtain v m where v: "resolve_one_token U name md registry missing = Inr (v, m)" by (cases vm) auto
    have "resolve_segment U md registry rest' m = Inl (ResolveUnknownToken t)"
      using run ne p l q v by (subst (asm) resolve_segment.simps) (auto split: sum.splits)
    then show ?thesis using "1.IH" [OF ne p refl l q refl v refl] toks by simp
  qed
qed

lemma resolve_segments_unknown:
  "resolve_segments U md registry raws missing = Inl (ResolveUnknownToken t) \<Longrightarrow>
     \<exists>raw \<in> set raws. t \<in> set (tokens_in raw) \<and> registry t = None"
  by (induction raws arbitrary: missing)
    (auto split: if_splits sum.splits prod.splits dest: resolve_segment_unknown)

lemma check_segments_known [simp]: "check_segments U config n segments \<noteq> Inl (ResolveUnknownToken t)"
  by (induction segments)
    (auto simp: Let_def map_sanitize_error_def split: if_splits sum.splits sanitize_error.splits)

lemma check_assembled_path_known [simp]: "check_assembled_path U path config \<noteq> Inl (ResolveUnknownToken t)"
  by (auto simp: check_assembled_path_def Let_def split: sum.splits if_splits)

lemma valid_pattern_tokens:
  "validate_pattern_str U p = Inr () \<Longrightarrow> \<forall>t \<in> set (tokens_in p). V1_REGISTRY t \<noteq> None \<and> 0x2F \<notin> set t"
proof
  fix t
  assume "validate_pattern_str U p = Inr ()" and "t \<in> set (tokens_in p)"
  then have "registry_contains V1_REGISTRY t"
    by (auto simp: validate_pattern_str_def find_None_iff_all split: if_splits option.splits)
  then obtain d where d: "V1_REGISTRY t = Some d" by (auto simp: registry_contains_def split: option.splits)
  then show "V1_REGISTRY t \<noteq> None \<and> 0x2F \<notin> set t" using V1_registry_Some V1_definitions_safe by auto
qed

lemma is_blank_text_iff: "is_blank_text U s \<longleftrightarrow> list_all (white_space U) s"
proof -
  have "trim_matches P xs = [] \<longleftrightarrow> list_all P xs" for P and xs :: ustring
  proof
    assume "trim_matches P xs = []"
    then have "\<forall>c \<in> set (dropWhile P xs). P c" using dropWhile_eq_Nil_conv [of P "rev (dropWhile P xs)"]
      by (auto simp: trim_matches_def dest: set_dropWhileD)
    moreover have "dropWhile P xs \<noteq> [] \<Longrightarrow> \<not> P (hd (dropWhile P xs))" by (rule hd_dropWhile)
    ultimately have "dropWhile P xs = []" using list.set_sel(1) by blast
    then show "list_all P xs" by (simp add: dropWhile_eq_Nil_conv list_all_iff)
  next
    assume "list_all P xs"
    then have "dropWhile P xs = []" by (simp add: dropWhile_eq_Nil_conv list_all_iff)
    then show "trim_matches P xs = []" unfolding trim_matches_def by (simp only: dropWhile.simps rev.simps)
  qed
  then show ?thesis by (simp add: is_blank_text_def)
qed

lemma not_isl_unit: "\<not> isl (r :: 'e + unit) \<Longrightarrow> r = Inr ()"
  by (cases r) auto

text \<open>White space is no visible ASCII character.\<close>

definition ascii_visible :: "unicode \<Rightarrow> bool" where
  "ascii_visible U \<longleftrightarrow> (\<forall>c. 0x21 \<le> c \<and> c \<le> 0x7E \<longrightarrow> \<not> white_space U c)"

lemma V1_registry_names: "t \<in> set (map token_name V1_DEFINITIONS) \<Longrightarrow> registry_contains V1_REGISTRY t"
  by (force simp: registry_contains_def V1_REGISTRY_def from_slice_def map_of_eq_None_iff split: option.splits)

lemma default_patterns_valid:
  assumes "ascii_visible U"
  shows "validate_pattern_str U (default_pattern c) = Inr ()"
proof -
  have "list_all (\<lambda>c. list_all (\<lambda>t. t \<in> set (map token_name V1_DEFINITIONS)) (tokens_in (default_pattern c))) frame_class_all"
    by code_simp
  moreover have "c \<in> set frame_class_all" by (cases c) (simp_all add: frame_class_all_def)
  ultimately have "set (tokens_in (default_pattern c)) \<subseteq> set (map token_name V1_DEFINITIONS)"
    by (auto simp: list_all_iff)
  then have "list_all (registry_contains V1_REGISTRY) (tokens_in (default_pattern c))"
    using V1_registry_names by (auto simp: list_all_iff)
  then have "find (\<lambda>t. \<not> registry_contains V1_REGISTRY t) (tokens_in (default_pattern c)) = None"
    by (simp add: find_None_iff_all list_all_iff)
  moreover have "\<not> is_blank_text U (default_pattern c)"
    using assms by (cases c) (simp_all add: is_blank_text_iff ascii_visible_def)
  ultimately show ?thesis by (simp add: validate_pattern_str_def)
qed

text \<open>
  Validating a pattern string and resolving it agree on tokens: a pattern that passes validation is
  never refused for an unknown token, and the pattern in effect for a frame type, overridden or not,
  passes validation.
\<close>

theorem validated_patterns_have_known_tokens:
  assumes "ascii_visible U"
  shows "validate_pattern_str U (effective_pattern U c override) = Inr ()
    \<and> (\<forall>pattern md t. validate_pattern_str U pattern = Inr () \<longrightarrow>
         resolve_pattern_str U pattern md \<noteq> Inl (ResolveUnknownToken t))"
proof
  show "validate_pattern_str U (effective_pattern U c override) = Inr ()"
    using default_patterns_valid [OF assms]
    by (cases override) (auto simp: effective_pattern_def dest!: not_isl_unit)
  show "\<forall>pattern md t. validate_pattern_str U pattern = Inr () \<longrightarrow>
         resolve_pattern_str U pattern md \<noteq> Inl (ResolveUnknownToken t)"
  proof (intro allI impI notI)
    fix pattern md t
    assume v: "validate_pattern_str U pattern = Inr ()"
      and r: "resolve_pattern_str U pattern md = Inl (ResolveUnknownToken t)"
    note toks = valid_pattern_tokens [OF v]
    have "resolve_segments U md V1_REGISTRY (split_on 0x2F pattern) [] = Inl (ResolveUnknownToken t)"
      using r by (auto simp: resolve_pattern_str_def resolve_pattern_str_with_def Let_def
          split: if_splits sum.splits prod.splits)
    then obtain raw where "raw \<in> set (split_on 0x2F pattern)" "t \<in> set (tokens_in raw)" "V1_REGISTRY t = None"
      using resolve_segments_unknown by blast
    then show False using toks tokens_in_segments [of pattern raw] by blast
  qed
qed

theorem validated_patterns_have_known_tokens_witness:
  "validate_pattern_str ascii (effective_pattern ascii ClassFlat (Some (lit ''{nope}/''))) = Inr ()
   \<and> effective_pattern ascii ClassFlat (Some (lit ''{nope}/'')) = default_pattern ClassFlat"
proof
  have "ascii_visible ascii" by (simp add: ascii_visible_def ascii_def)
  then show "validate_pattern_str ascii (effective_pattern ascii ClassFlat (Some (lit ''{nope}/''))) = Inr ()"
    using validated_patterns_have_known_tokens by blast
  show "effective_pattern ascii ClassFlat (Some (lit ''{nope}/'')) = default_pattern ClassFlat" by code_simp
qed

end
