(* ===== verification/Pins.thy ===== *)
theory Pins
  imports Prelude
begin

text \<open>
  The calibration pins of a light session
  (\<open>crates/platevault-model/src/session_calibration.rs\<close>): each kind is unresolved, suggested, pinned to
  exact files or declined, and a session is settled when no kind is open. Identifiers are UUIDs, here
  numbers in their byte order; dates, fingerprints and evaluations are only stored and compared, so
  they are opaque numbers. Where the program formats a message for \<open>InvalidInput\<close>, the model returns the
  reason the message is formatted from.
\<close>

type_synonym uuid = nat
type_synonym revision = nat
type_synonym opaque = nat

section \<open>Inputs and pinned files\<close>

datatype input_kind = Kind_Bias | Kind_Dark | Kind_Flat

definition input_kinds :: "input_kind list" where
  "input_kinds = [Kind_Bias, Kind_Dark, Kind_Flat]"

lemma input_kinds_complete [simp]: "k \<in> set input_kinds"
  by (cases k) (simp_all add: input_kinds_def)

datatype input_ref = RawSet (own_session: uuid) revision | Master uuid revision

record pinned_file =
  pinned_asset :: "uuid option"
  pinned_sha256 :: string
  pinned_fingerprint :: opaque

record pin_target =
  target_input :: input_ref
  captured :: "opaque option"
  target_files :: "pinned_file list"
  evaluation :: opaque

datatype pin_error =
    NoPinnedFile
  | NotSha256
  | MasterNotOneFile uuid
  | FrameNotNamed uuid
  | FrameNamedTwice uuid uuid
  | CalibratesItself uuid

definition hex_digit :: "char \<Rightarrow> bool" where
  "hex_digit c \<longleftrightarrow> c \<in> set ''0123456789abcdef''"

definition require_sha256 :: "string \<Rightarrow> 'e \<Rightarrow> 'e + unit" where
  "require_sha256 value e = (if length value = 64 \<and> list_all hex_digit value then Inr () else Inl e)"

definition frame_step :: "uuid \<Rightarrow> uuid set \<Rightarrow> pinned_file \<Rightarrow> pin_error + uuid set" where
  "frame_step session_id seen f =
    (case pinned_asset f of
       None \<Rightarrow> Inl (FrameNotNamed session_id)
     | Some asset \<Rightarrow>
         (if asset \<in> seen then Inl (FrameNamedTwice session_id asset) else Inr (insert asset seen)))"

definition target_validate :: "pin_target \<Rightarrow> pin_error + unit" where
  "target_validate t =
    (if target_files t = [] then Inl NoPinnedFile
     else and_then (try_each (\<lambda>_ f. require_sha256 (pinned_sha256 f) NotSha256) () (target_files t))
       (\<lambda>_. case target_input t of
          Master master_id _ \<Rightarrow>
            refuse_if (length (target_files t) \<noteq> 1 \<or> pinned_asset (target_files t ! 0) \<noteq> None) (MasterNotOneFile master_id)
        | RawSet session_id _ \<Rightarrow>
            and_then (try_each (frame_step session_id) {} (target_files t)) (\<lambda>_. Inr ())))"

definition validate_target :: "uuid \<Rightarrow> pin_target \<Rightarrow> pin_error + unit" where
  "validate_target session_id t =
    (if (case target_input t of RawSet own _ \<Rightarrow> own = session_id | Master _ _ \<Rightarrow> False)
     then Inl (CalibratesItself session_id)
     else target_validate t)"

section \<open>States of one kind\<close>

datatype pin_origin = PinAutomatic | PinConfirmed | PinReassigned
datatype decline_origin = DeclinedByUser | CameraDefault

datatype pin_state =
    Unresolved
  | Suggested pin_target
  | Pinned pin_target pin_origin
  | Declined decline_origin

definition pin_is_settled :: "pin_state \<Rightarrow> bool" where
  "pin_is_settled p \<longleftrightarrow> (case p of Pinned _ _ \<Rightarrow> True | Declined _ \<Rightarrow> True | _ \<Rightarrow> False)"

primrec pin_name :: "pin_state \<Rightarrow> string" where
  "pin_name Unresolved = ''unresolved''"
| "pin_name (Suggested _) = ''suggested''"
| "pin_name (Pinned _ _) = ''pinned''"
| "pin_name (Declined _) = ''declined''"

primrec pin_state_target :: "pin_state \<Rightarrow> pin_target option" where
  "pin_state_target (Suggested t) = Some t"
| "pin_state_target (Pinned t _) = Some t"
| "pin_state_target Unresolved = None"
| "pin_state_target (Declined _) = None"

datatype settled_pin = SettledPinned pin_target | SettledDeclined

primrec pin_settled :: "pin_state \<Rightarrow> settled_pin option" where
  "pin_settled (Pinned t _) = Some (SettledPinned t)"
| "pin_settled (Declined _) = Some SettledDeclined"
| "pin_settled Unresolved = None"
| "pin_settled (Suggested _) = None"

primrec settled_target :: "settled_pin \<Rightarrow> pin_target option" where
  "settled_target (SettledPinned t) = Some t"
| "settled_target SettledDeclined = None"

section \<open>The three kinds of a session\<close>

record settled_calibration =
  settled_dark :: settled_pin
  settled_flat :: settled_pin
  settled_bias :: settled_pin

fun settled_kind :: "settled_calibration \<Rightarrow> input_kind \<Rightarrow> settled_pin" where
  "settled_kind c Kind_Bias = settled_bias c"
| "settled_kind c Kind_Dark = settled_dark c"
| "settled_kind c Kind_Flat = settled_flat c"

definition settled_validate :: "settled_calibration \<Rightarrow> uuid \<Rightarrow> pin_error + unit" where
  "settled_validate c session_id =
    try_each (\<lambda>_ p. case settled_target p of None \<Rightarrow> Inr () | Some t \<Rightarrow> validate_target session_id t) ()
      [settled_dark c, settled_flat c, settled_bias c]"

record session_calibration =
  calibrated_session :: uuid
  calibration_generation :: revision
  matching_pending :: bool
  dark_pin :: pin_state
  flat_pin :: pin_state
  bias_pin :: pin_state

definition unresolved_calibration :: "uuid \<Rightarrow> session_calibration" where
  "unresolved_calibration session_id =
    \<lparr>calibrated_session = session_id, calibration_generation = 0, matching_pending = False,
     dark_pin = Unresolved, flat_pin = Unresolved, bias_pin = Unresolved\<rparr>"

fun session_kind :: "session_calibration \<Rightarrow> input_kind \<Rightarrow> pin_state" where
  "session_kind c Kind_Bias = bias_pin c"
| "session_kind c Kind_Dark = dark_pin c"
| "session_kind c Kind_Flat = flat_pin c"

definition unsettled_kinds :: "session_calibration \<Rightarrow> input_kind list" where
  "unsettled_kinds c = filter (\<lambda>k. \<not> pin_is_settled (session_kind c k)) input_kinds"

definition session_settled :: "session_calibration \<Rightarrow> settled_calibration option" where
  "session_settled c =
    (case pin_settled (dark_pin c) of None \<Rightarrow> None | Some d \<Rightarrow>
     (case pin_settled (flat_pin c) of None \<Rightarrow> None | Some f \<Rightarrow>
     (case pin_settled (bias_pin c) of None \<Rightarrow> None | Some b \<Rightarrow>
        Some \<lparr>settled_dark = d, settled_flat = f, settled_bias = b\<rparr>)))"

definition session_validate :: "session_calibration \<Rightarrow> pin_error + unit" where
  "session_validate c =
    try_each (\<lambda>_ p. case pin_state_target p of None \<Rightarrow> Inr () | Some t \<Rightarrow> validate_target (calibrated_session c) t) ()
      [dark_pin c, flat_pin c, bias_pin c]"

datatype pin_health = Intact | PinChanged | PinMissing

definition blocks_apply :: "pin_health \<Rightarrow> bool" where
  "blocks_apply h \<longleftrightarrow> h \<noteq> Intact"

datatype calibration_need = NeedUnsettled input_kind | NeedPinDrift input_kind pin_health

definition calibration_needs :: "session_calibration \<Rightarrow> (input_kind \<Rightarrow> pin_health) \<Rightarrow> calibration_need list" where
  "calibration_needs c health = List.map_filter
    (\<lambda>k. case session_kind c k of
       Pinned _ _ \<Rightarrow> (if blocks_apply (health k) then Some (NeedPinDrift k (health k)) else None)
     | Declined _ \<Rightarrow> None
     | _ \<Rightarrow> Some (NeedUnsettled k)) input_kinds"

record calibration_change =
  change_session :: uuid
  change_kind :: input_kind
  change_from :: settled_pin
  change_to :: "settled_pin option"

definition changes_since :: "session_calibration \<Rightarrow> settled_calibration \<Rightarrow> calibration_change list" where
  "changes_since c applied = List.map_filter
    (\<lambda>k. let from = settled_kind applied k; to = pin_settled (session_kind c k)
         in if to \<noteq> Some from
            then Some \<lparr>change_session = calibrated_session c, change_kind = k, change_from = from, change_to = to\<rparr>
            else None) input_kinds"

record calibration_health =
  bias_health :: pin_health
  dark_health :: pin_health
  flat_health :: pin_health

definition INTACT_HEALTH :: calibration_health where
  "INTACT_HEALTH = \<lparr>bias_health = Intact, dark_health = Intact, flat_health = Intact\<rparr>"

fun health_kind :: "calibration_health \<Rightarrow> input_kind \<Rightarrow> pin_health" where
  "health_kind h Kind_Bias = bias_health h"
| "health_kind h Kind_Dark = dark_health h"
| "health_kind h Kind_Flat = flat_health h"

definition drifted_kinds :: "calibration_health \<Rightarrow> input_kind list" where
  "drifted_kinds h = filter (\<lambda>k. blocks_apply (health_kind h k)) input_kinds"

section \<open>What the states mean\<close>

lemma all_kinds: "(\<forall>k. P k) \<longleftrightarrow> P Kind_Bias \<and> P Kind_Dark \<and> P Kind_Flat"
  by (metis input_kind.exhaust)

lemma pin_settled_iff: "pin_is_settled p \<longleftrightarrow> pin_settled p \<noteq> None"
  by (cases p) (simp_all add: pin_is_settled_def)

lemma map_filter_Nil_iff: "List.map_filter f xs = [] \<longleftrightarrow> (\<forall>x \<in> set xs. f x = None)"
  by (induction xs) (auto simp: List.map_filter_def)

lemma session_settled_iff:
  "session_settled c = Some s \<longleftrightarrow> (\<forall>k. pin_settled (session_kind c k) = Some (settled_kind s k))"
  by (cases s) (auto simp: session_settled_def all_kinds split: option.splits)

lemma session_settled_None_iff: "session_settled c = None \<longleftrightarrow> unsettled_kinds c \<noteq> []"
  by (auto simp: session_settled_def unsettled_kinds_def input_kinds_def pin_settled_iff split: option.splits)

lemma session_validate_iff:
  "session_validate c = Inr () \<longleftrightarrow>
    (\<forall>k t. pin_state_target (session_kind c k) = Some t \<longrightarrow> validate_target (calibrated_session c) t = Inr ())"
  by (auto simp: session_validate_def all_kinds split: option.splits sum.splits)

lemma settled_validate_iff:
  "settled_validate s i = Inr () \<longleftrightarrow>
    (\<forall>k t. settled_target (settled_kind s k) = Some t \<longrightarrow> validate_target i t = Inr ())"
  by (auto simp: settled_validate_def all_kinds split: option.splits sum.splits)

lemma pin_settled_target: "pin_settled p = Some q \<Longrightarrow> settled_target q = Some t \<Longrightarrow> pin_state_target p = Some t"
  by (cases p) auto

lemma frame_step_iff:
  "frame_step i seen f = Inr s' \<longleftrightarrow>
    keyed (\<lambda>f. [the (pinned_asset f)]) (\<lambda>f. pinned_asset f \<noteq> None) seen f s'"
  by (auto simp: frame_step_def keyed_def split: option.splits)

lemma distinct_map_the: "None \<notin> set ys \<Longrightarrow> distinct (map the ys) \<longleftrightarrow> distinct ys"
proof -
  assume "None \<notin> set ys"
  then have "inj_on the (set ys)" by (auto simp: inj_on_def) (metis option.collapse)
  then show ?thesis by (simp add: distinct_map)
qed

lemma target_validate_iff:
  "target_validate t = Inr () \<longleftrightarrow>
    target_files t \<noteq> [] \<and> (\<forall>f \<in> set (target_files t). length (pinned_sha256 f) = 64 \<and> list_all hex_digit (pinned_sha256 f)) \<and>
    (case target_input t of
       Master _ _ \<Rightarrow> (\<exists>f. target_files t = [f] \<and> pinned_asset f = None)
     | RawSet _ _ \<Rightarrow> None \<notin> set (map pinned_asset (target_files t)) \<and> distinct (map pinned_asset (target_files t)))"
proof -
  have digests: "try_each (\<lambda>_ f. require_sha256 (pinned_sha256 f) NotSha256) () xs = Inr () \<longleftrightarrow>
      list_all (\<lambda>f. length (pinned_sha256 f) = 64 \<and> list_all hex_digit (pinned_sha256 f)) xs" for xs
    by (rule try_each_all) (simp add: require_sha256_def)
  have frames: "(\<exists>s. try_each (frame_step i) {} xs = Inr s) \<longleftrightarrow>
      None \<notin> set (map pinned_asset xs) \<and> distinct (map pinned_asset xs)" for i xs
  proof -
    have "(\<exists>s. try_each (frame_step i) {} xs = Inr s) \<longleftrightarrow>
        distinct (map (the \<circ> pinned_asset) xs) \<and> list_all (\<lambda>f. pinned_asset f \<noteq> None) xs"
      by (simp add: try_each_runs [OF frame_step_iff] runs_single_keys comp_def)
    also have "\<dots> \<longleftrightarrow> None \<notin> set (map pinned_asset xs) \<and> distinct (map pinned_asset xs)"
    proof -
      have "list_all (\<lambda>f. pinned_asset f \<noteq> None) xs \<longleftrightarrow> None \<notin> set (map pinned_asset xs)"
        by (induction xs) auto
      then show ?thesis using distinct_map_the [of "map pinned_asset xs"] by auto
    qed
    finally show ?thesis .
  qed
  have one: "length xs = 1 \<and> pinned_asset (xs ! 0) = None \<longleftrightarrow> (\<exists>f. xs = [f] \<and> pinned_asset f = None)" for xs
    by (auto simp: length_Suc_conv)
  show ?thesis
  proof (cases "target_input t")
    case (RawSet i r)
    have "target_validate t = Inr () \<longleftrightarrow> target_files t \<noteq> [] \<and>
        try_each (\<lambda>_ f. require_sha256 (pinned_sha256 f) NotSha256) () (target_files t) = Inr () \<and>
        (\<exists>s. try_each (frame_step i) {} (target_files t) = Inr s)"
      by (auto simp: target_validate_def and_then_Inr_iff RawSet)
    then show ?thesis unfolding digests frames by (simp add: RawSet list_all_iff)
  next
    case (Master i r)
    have "target_validate t = Inr () \<longleftrightarrow> target_files t \<noteq> [] \<and>
        try_each (\<lambda>_ f. require_sha256 (pinned_sha256 f) NotSha256) () (target_files t) = Inr () \<and>
        length (target_files t) = 1 \<and> pinned_asset (target_files t ! 0) = None"
      by (auto simp: target_validate_def and_then_Inr_iff Master)
    then show ?thesis unfolding digests one by (simp add: Master list_all_iff)
  qed
qed

section \<open>Properties\<close>

text \<open>
  A session reports a pending calibration change against an applied View exactly when the
  calibration it would be built with now, all three kinds settled, is not the applied one; and each
  reported change names the applied pin of its kind and the settled pin of now.
\<close>

theorem calibration_changes_are_the_difference:
  "(changes_since c applied = [] \<longleftrightarrow> session_settled c = Some applied) \<and>
   set (changes_since c applied) =
     {\<lparr>change_session = calibrated_session c, change_kind = k, change_from = settled_kind applied k,
       change_to = pin_settled (session_kind c k)\<rparr> | k. pin_settled (session_kind c k) \<noteq> Some (settled_kind applied k)}"
proof
  show "changes_since c applied = [] \<longleftrightarrow> session_settled c = Some applied"
    by (auto simp: changes_since_def map_filter_Nil_iff session_settled_iff Let_def split: if_splits)
  show "set (changes_since c applied) =
     {\<lparr>change_session = calibrated_session c, change_kind = k, change_from = settled_kind applied k,
       change_to = pin_settled (session_kind c k)\<rparr> | k. pin_settled (session_kind c k) \<noteq> Some (settled_kind applied k)}"
    by (auto simp: changes_since_def map_filter_def Let_def image_iff split: if_splits)
qed

text \<open>
  C18. A session leaves the queue of sessions that need calibration exactly when it is settled and the
  files of every pinned kind are intact; a settled session with valid pins can be frozen: the settled
  calibration a View records validates, so it never pins the session's own frames.
\<close>

theorem queue_is_left_when_settled_and_intact:
  "(calibration_needs c health = [] \<longleftrightarrow>
      session_settled c \<noteq> None \<and> (\<forall>k t orig. session_kind c k = Pinned t orig \<longrightarrow> health k = Intact)) \<and>
   (session_validate c = Inr () \<and> session_settled c = Some s \<longrightarrow>
      settled_validate s (calibrated_session c) = Inr () \<and>
      (\<forall>k t own r. settled_kind s k = SettledPinned t \<and> target_input t = RawSet own r \<longrightarrow> own \<noteq> calibrated_session c))"
proof (intro conjI impI)
  show "calibration_needs c health = [] \<longleftrightarrow>
      session_settled c \<noteq> None \<and> (\<forall>k t orig. session_kind c k = Pinned t orig \<longrightarrow> health k = Intact)"
    by (auto simp: calibration_needs_def map_filter_Nil_iff session_settled_None_iff unsettled_kinds_def
        filter_empty_conv pin_is_settled_def blocks_apply_def split: pin_state.splits if_splits)
next
  assume "session_validate c = Inr () \<and> session_settled c = Some s"
  then have v: "\<And>k t. settled_target (settled_kind s k) = Some t \<Longrightarrow> validate_target (calibrated_session c) t = Inr ()"
    using pin_settled_target by (auto simp: session_validate_iff session_settled_iff) blast
  then show "settled_validate s (calibrated_session c) = Inr ()" by (simp add: settled_validate_iff)
  show "\<forall>k t own r. settled_kind s k = SettledPinned t \<and> target_input t = RawSet own r \<longrightarrow> own \<noteq> calibrated_session c"
  proof clarify
    fix k t r assume "settled_kind s k = SettledPinned t" "target_input t = RawSet (calibrated_session c) r"
    then show False using v [of k t] by (simp add: validate_target_def)
  qed
qed

definition example_target :: pin_target where
  "example_target = \<lparr>target_input = RawSet 3 1, captured = None,
     target_files = [\<lparr>pinned_asset = Some 31, pinned_sha256 = replicate 64 (CHR ''a''), pinned_fingerprint = 0\<rparr>],
     evaluation = 0\<rparr>"

definition example_calibration :: session_calibration where
  "example_calibration = (unresolved_calibration 7)\<lparr>dark_pin := Pinned example_target PinConfirmed,
     flat_pin := Declined DeclinedByUser, bias_pin := Declined CameraDefault\<rparr>"

definition example_settled :: settled_calibration where
  "example_settled = \<lparr>settled_dark = SettledPinned example_target, settled_flat = SettledDeclined, settled_bias = SettledDeclined\<rparr>"

theorem queue_is_left_when_settled_and_intact_witness:
  "calibration_needs example_calibration (\<lambda>k. if k = Kind_Dark then PinMissing else Intact) \<noteq> [] \<and>
   settled_validate example_settled 7 = Inr ()"
proof
  have "session_validate example_calibration = Inr ()" "session_settled example_calibration = Some example_settled"
    "calibrated_session example_calibration = 7" by code_simp+
  then show "settled_validate example_settled 7 = Inr ()"
    using queue_is_left_when_settled_and_intact [of example_calibration "\<lambda>_. Intact" example_settled] by simp
  show "calibration_needs example_calibration (\<lambda>k. if k = Kind_Dark then PinMissing else Intact) \<noteq> []"
    by code_simp
qed

end
