(* ===== verification/Evidence.thy ===== *)
theory Evidence
  imports Pins "HOL-Library.Char_ord"
begin

text \<open>
  What the library remembers of a file, and what a review decision says about it
  (\<open>crates/platevault-model/src/lib.rs\<close>, and the inclusion of a capture in a project from
  \<open>project_inputs.rs\<close>): volume and file identities, observation fingerprints, the applicable quality of
  one file and the logical quality of a capture with several copies.
\<close>

section \<open>Identities\<close>

datatype path_sensitivity = Sensitive | Insensitive | SensitivityUnknown

record volume_identity =
  filesystem :: string
  stable_id :: "string option"
  file_ids_stable :: bool
  case_sensitivity :: path_sensitivity
  normalization :: path_sensitivity

record file_identity =
  on_volume :: volume_identity
  file_id :: "string option"

datatype identity_error = VolumeUnqualified

definition volume_validate :: "volume_identity \<Rightarrow> identity_error + unit" where
  "volume_validate v =
    refuse_if (filesystem v = [] \<or> (case stable_id v of None \<Rightarrow> True | Some s \<Rightarrow> s = [])) VolumeUnqualified"

text \<open>\<open>u64::from_str\<close>: an optional plus sign and at least one decimal digit, in range.\<close>

definition digit :: "char \<Rightarrow> nat option" where
  "digit c = (if CHR ''0'' \<le> c \<and> c \<le> CHR ''9'' then Some (of_char c - 48) else None)"

fun digits_value :: "nat \<Rightarrow> string \<Rightarrow> nat option" where
  "digits_value n [] = Some n"
| "digits_value n (c # cs) = (case digit c of None \<Rightarrow> None | Some d \<Rightarrow> digits_value (10 * n + d) cs)"

definition parse_u64 :: "string \<Rightarrow> nat option" where
  "parse_u64 s =
    (let s = (case s of c # cs \<Rightarrow> if c = CHR ''+'' then cs else s | [] \<Rightarrow> [])
     in if s = [] then None
        else case digits_value 0 s of
          None \<Rightarrow> None
        | Some n \<Rightarrow> (if n < 2 ^ 64 then Some n else None))"

definition FILE_HANDLE_SEPARATOR :: char where
  "FILE_HANDLE_SEPARATOR = CHR '':''"

definition unix_file_id :: "nat \<Rightarrow> string option \<Rightarrow> string" where
  "unix_file_id inode h =
    (case h of Some h \<Rightarrow> show_nat inode @ [FILE_HANDLE_SEPARATOR] @ h | None \<Rightarrow> show_nat inode)"

definition unix_inode :: "string \<Rightarrow> nat option" where
  "unix_inode s = parse_u64 (takeWhile (\<lambda>c. c \<noteq> FILE_HANDLE_SEPARATOR) s)"

definition file_ids_match :: "string option \<Rightarrow> string option \<Rightarrow> bool" where
  "file_ids_match l r \<longleftrightarrow> l = r"

definition is_recorded :: "file_identity \<Rightarrow> file_identity \<Rightarrow> bool" where
  "is_recorded observed recorded \<longleftrightarrow> on_volume observed = on_volume recorded \<and>
     (\<not> file_ids_stable (on_volume recorded) \<or> file_ids_match (file_id observed) (file_id recorded))"

record observation_fingerprint =
  identity :: file_identity
  size_bytes :: nat
  modified_ns :: int
  content_sha256 :: "string option"

definition equivalent :: "observation_fingerprint \<Rightarrow> observation_fingerprint \<Rightarrow> bool" where
  "equivalent a b \<longleftrightarrow> on_volume (identity a) = on_volume (identity b) \<and> size_bytes a = size_bytes b \<and>
     modified_ns a = modified_ns b \<and> content_sha256 a = content_sha256 b \<and>
     (\<not> file_ids_stable (on_volume (identity a)) \<or> file_ids_match (file_id (identity a)) (file_id (identity b)))"

section \<open>Quality\<close>

datatype quality = Q_Unreviewed | Q_Usable | Q_Unusable

datatype applicable_quality =
    A_Unreviewed
  | A_Usable
  | A_Unusable
  | ChangedContent quality
  | VerificationPending quality
  | Conflicting
  | ConflictingCopies

datatype availability = Available | Offline | Missing | Unreadable | IdentityConflict | Retired | Trashed

text \<open>The fields of an asset that the decision rules read.\<close>

record asset =
  fingerprint :: observation_fingerprint
  asset_availability :: availability
  decided_quality :: quality
  quality_basis :: "observation_fingerprint option"
  verification_pending :: bool

definition speaks_for_bytes :: "asset \<Rightarrow> bool" where
  "speaks_for_bytes a \<longleftrightarrow>
    (case quality_basis a of None \<Rightarrow> False
     | Some b \<Rightarrow> content_sha256 b \<noteq> None \<and> equivalent b (fingerprint a))"

definition applicable_quality_of :: "asset \<Rightarrow> applicable_quality" where
  "applicable_quality_of a =
    (if decided_quality a \<noteq> Q_Unreviewed \<and> \<not> speaks_for_bytes a then ChangedContent (decided_quality a)
     else if decided_quality a \<noteq> Q_Unreviewed \<and> verification_pending a then VerificationPending (decided_quality a)
     else case decided_quality a of
       Q_Unreviewed \<Rightarrow> A_Unreviewed
     | Q_Usable \<Rightarrow> A_Usable
     | Q_Unusable \<Rightarrow> A_Unusable)"

fun says :: "quality \<Rightarrow> applicable_quality \<Rightarrow> bool" where
  "says wanted A_Usable = (wanted = Q_Usable)"
| "says wanted A_Unusable = (wanted = Q_Unusable)"
| "says wanted (VerificationPending previous) = (previous = wanted)"
| "says wanted _ = False"

definition is_verification_pending :: "applicable_quality \<Rightarrow> bool" where
  "is_verification_pending q \<longleftrightarrow> (case q of VerificationPending _ \<Rightarrow> True | _ \<Rightarrow> False)"

definition is_changed_content :: "applicable_quality \<Rightarrow> bool" where
  "is_changed_content q \<longleftrightarrow> (case q of ChangedContent _ \<Rightarrow> True | _ \<Rightarrow> False)"

definition logical_quality :: "asset list \<Rightarrow> applicable_quality" where
  "logical_quality copies =
    (let qualities = map applicable_quality_of copies;
         explicit = (\<lambda>wanted. list_ex (says wanted) qualities);
         unproven = list_ex verification_pending copies
     in if explicit Q_Usable \<and> explicit Q_Unusable then Conflicting
        else if A_Usable \<in> set qualities then (if unproven then VerificationPending Q_Usable else A_Usable)
        else if A_Unusable \<in> set qualities then (if unproven then VerificationPending Q_Unusable else A_Unusable)
        else case find is_verification_pending qualities of
          Some q \<Rightarrow> q
        | None \<Rightarrow>
           (case find is_changed_content qualities of
              Some q \<Rightarrow> q
            | None \<Rightarrow> A_Unreviewed))"

text \<open>
  What the library counts of a capture. Copies whose digests differ are in conflict, and a decision speaks for
  several copies only once every one that can be read has the digest.
\<close>

definition digests_of :: "asset list \<Rightarrow> string list" where
  "digests_of copies = remdups (List.map_filter (\<lambda>c. content_sha256 (fingerprint c)) copies)"

definition capture_quality :: "asset list \<Rightarrow> applicable_quality" where
  "capture_quality copies =
    (if length (digests_of copies) > 1 then ConflictingCopies
     else
      (let unproven = length copies > 1 \<and>
             list_ex (\<lambda>c. content_sha256 (fingerprint c) = None \<and> asset_availability c \<noteq> Missing) copies
       in case logical_quality copies of
            A_Usable \<Rightarrow> (if unproven then VerificationPending Q_Usable else A_Usable)
          | A_Unusable \<Rightarrow> (if unproven then VerificationPending Q_Unusable else A_Unusable)
          | q \<Rightarrow> q))"

text \<open>What a project places a capture by: the quality of its live copies, whatever their digests.\<close>

definition is_live :: "asset \<Rightarrow> bool" where
  "is_live a \<longleftrightarrow> asset_availability a \<notin> {Trashed, Retired}"

definition live_quality :: "asset list \<Rightarrow> applicable_quality option" where
  "live_quality live = (if live = [] then None else Some (logical_quality live))"

section \<open>Inclusion in a project\<close>

datatype inclusion_basis = BecauseUsable | BecauseExplicit
datatype exclusion_basis = BecauseUnusable | BecauseUser

datatype capture_inclusion = Included inclusion_basis | Excluded exclusion_basis

definition is_included :: "capture_inclusion \<Rightarrow> bool" where
  "is_included i \<longleftrightarrow> (case i of Included _ \<Rightarrow> True | Excluded _ \<Rightarrow> False)"

definition on_add :: "applicable_quality \<Rightarrow> capture_inclusion" where
  "on_add q = (if q = A_Usable then Included BecauseUsable else Excluded BecauseUnusable)"

datatype frame_choice = ChooseExclude | ChooseInclude | FollowLibrary

fun chosen :: "frame_choice \<Rightarrow> applicable_quality \<Rightarrow> capture_inclusion" where
  "chosen ChooseExclude q = Excluded BecauseUser"
| "chosen ChooseInclude q = Included BecauseExplicit"
| "chosen FollowLibrary q = on_add q"

fun admits :: "capture_inclusion \<Rightarrow> applicable_quality option \<Rightarrow> bool" where
  "admits i None = False"
| "admits (Excluded BecauseUser) (Some q) = False"
| "admits (Included BecauseExplicit) (Some q) = True"
| "admits (Excluded BecauseUnusable) (Some q) = (q = A_Usable)"
| "admits (Included BecauseUsable) (Some q) = (q = A_Usable)"

section \<open>Laws\<close>

lemma equivalent_refl: "equivalent a a"
  by (simp add: equivalent_def file_ids_match_def)

lemma equivalent_sym: "equivalent a b \<Longrightarrow> equivalent b a"
  by (auto simp: equivalent_def file_ids_match_def)

lemma equivalent_trans: "equivalent a b \<Longrightarrow> equivalent b c \<Longrightarrow> equivalent a c"
  by (auto simp: equivalent_def file_ids_match_def)

text \<open>
  Pins, manifests and bases compare fingerprints with this relation. It is an equivalence, so those
  components may treat a fingerprint as an opaque value, one number for each class.
\<close>

lemma equivalent_is_equivalence: "equivp equivalent"
  by (intro equivpI reflpI sympI transpI) (blast intro: equivalent_refl equivalent_sym equivalent_trans)+

lemma digit_char_of: "d < 10 \<Longrightarrow> digit (char_of (48 + d)) = Some d"
  by (auto simp: digit_def less_eq_char_def)

lemma digits_value_append:
  "digits_value n (xs @ ys) = (case digits_value n xs of None \<Rightarrow> None | Some m \<Rightarrow> digits_value m ys)"
  by (induction xs arbitrary: n) (auto split: option.splits)

lemma digits_value_show_nat: "digits_value 0 (show_nat n) = Some n"
proof (induction n rule: show_nat.induct)
  case (1 n)
  show ?case
  proof (cases "n < 10")
    case True
    then show ?thesis by (simp add: show_nat.simps [of n] digit_char_of)
  next
    case False
    then show ?thesis using 1 by (simp add: show_nat.simps [of n] digits_value_append digit_char_of)
  qed
qed

lemma digits_value_chars: "digits_value n s = Some m \<Longrightarrow> c \<in> set s \<Longrightarrow> digit c \<noteq> None"
  by (induction s arbitrary: n) (auto split: option.splits)

lemma show_nat_not_Nil [simp]: "show_nat n \<noteq> []"
  by (subst show_nat.simps) simp

lemma show_nat_digit: "c \<in> set (show_nat n) \<Longrightarrow> digit c \<noteq> None"
  using digits_value_chars [OF digits_value_show_nat] .

lemma parse_show_nat: "n < 2 ^ 64 \<Longrightarrow> parse_u64 (show_nat n) = Some n"
proof -
  assume n: "n < 2 ^ 64"
  obtain c cs where s: "show_nat n = c # cs" by (cases "show_nat n") auto
  then have "digit c \<noteq> None" using show_nat_digit [of c n] by simp
  moreover have "digit (CHR ''+'') = None" by code_simp
  ultimately have "c \<noteq> CHR ''+''" by auto
  then show ?thesis using n digits_value_show_nat [of n] by (simp add: parse_u64_def s)
qed

text \<open>
  The identity of a Unix entry round trips: the inode number is read back from the file id whatever
  the kernel handle is, so an id names one inode and one handle; and two ids match only where both, or
  neither, carry the same handle, so a reused inode number with another generation never matches.
\<close>

theorem unix_file_id_roundtrip:
  assumes "n < 2 ^ 64" and "m < 2 ^ 64"
  shows "unix_inode (unix_file_id n h) = Some n \<and>
    (file_ids_match (Some (unix_file_id n h)) (Some (unix_file_id m h')) \<longleftrightarrow> n = m \<and> h = h')"
proof
  have no_sep: "FILE_HANDLE_SEPARATOR \<notin> set (show_nat k)" for k
  proof -
    have "digit FILE_HANDLE_SEPARATOR = None" by code_simp
    then show ?thesis using show_nat_digit [of FILE_HANDLE_SEPARATOR k] by auto
  qed
  have all: "x \<in> set (show_nat k) \<Longrightarrow> x \<noteq> FILE_HANDLE_SEPARATOR" for k x
    using no_sep [of k] by auto
  have take: "takeWhile (\<lambda>c. c \<noteq> FILE_HANDLE_SEPARATOR) (unix_file_id k g) = show_nat k" for k g
  proof -
    have "takeWhile (\<lambda>c. c \<noteq> FILE_HANDLE_SEPARATOR) (show_nat k @ xs) =
        show_nat k @ takeWhile (\<lambda>c. c \<noteq> FILE_HANDLE_SEPARATOR) xs" for xs
      by (rule takeWhile_append2) (rule all)
    from this [of "[]"] this [of "FILE_HANDLE_SEPARATOR # the g"] show ?thesis
      by (cases g) (simp_all add: unix_file_id_def)
  qed
  have drop: "dropWhile (\<lambda>c. c \<noteq> FILE_HANDLE_SEPARATOR) (unix_file_id k g) =
      (case g of None \<Rightarrow> [] | Some h \<Rightarrow> FILE_HANDLE_SEPARATOR # h)" for k g
  proof -
    have "dropWhile (\<lambda>c. c \<noteq> FILE_HANDLE_SEPARATOR) (show_nat k @ xs) = dropWhile (\<lambda>c. c \<noteq> FILE_HANDLE_SEPARATOR) xs" for xs
      by (rule dropWhile_append2) (rule all)
    from this [of "[]"] this [of "FILE_HANDLE_SEPARATOR # the g"] show ?thesis
      by (cases g) (simp_all add: unix_file_id_def)
  qed
  show inode: "unix_inode (unix_file_id n h) = Some n"
    using assms(1) by (simp add: unix_inode_def take parse_show_nat)
  show "file_ids_match (Some (unix_file_id n h)) (Some (unix_file_id m h')) \<longleftrightarrow> n = m \<and> h = h'"
  proof
    assume "file_ids_match (Some (unix_file_id n h)) (Some (unix_file_id m h'))"
    then have e: "unix_file_id n h = unix_file_id m h'" by (simp add: file_ids_match_def)
    then have "show_nat n = show_nat m" using take by metis
    then have "n = m" using parse_show_nat assms by (metis option.inject)
    moreover have "h = h'" using drop [of n h] drop [of m h'] e by (auto split: option.splits)
    ultimately show "n = m \<and> h = h'" by simp
  qed (simp add: file_ids_match_def)
qed

theorem unix_file_id_roundtrip_witness:
  "unix_inode (unix_file_id 12 (Some ''a:b'')) = Some 12 \<and>
   \<not> file_ids_match (Some (unix_file_id 12 (Some ''a:b''))) (Some (unix_file_id 12 None))"
  using unix_file_id_roundtrip [of 12 12 "Some ''a:b''" None] by simp

lemma applicable_cases:
  "applicable_quality_of a = A_Usable \<longleftrightarrow> decided_quality a = Q_Usable \<and> speaks_for_bytes a \<and> \<not> verification_pending a"
  "says Q_Usable (applicable_quality_of a) \<longleftrightarrow> decided_quality a = Q_Usable \<and> speaks_for_bytes a"
  "says Q_Unusable (applicable_quality_of a) \<longleftrightarrow> decided_quality a = Q_Unusable \<and> speaks_for_bytes a"
  by (cases "decided_quality a"; auto simp: applicable_quality_of_def)+

lemma logical_quality_usable:
  "logical_quality copies = A_Usable \<longleftrightarrow>
    (\<exists>c \<in> set copies. decided_quality c = Q_Usable \<and> speaks_for_bytes c) \<and>
    (\<forall>c \<in> set copies. \<not> (decided_quality c = Q_Unusable \<and> speaks_for_bytes c)) \<and>
    (\<forall>c \<in> set copies. \<not> verification_pending c)"
proof -
  have found: "find P xs = Some q \<Longrightarrow> P q" for P and xs :: "applicable_quality list" and q
    by (auto dest: find_SomeD)
  have "find is_verification_pending (map applicable_quality_of copies) \<noteq> Some A_Usable"
    "find is_changed_content (map applicable_quality_of copies) \<noteq> Some A_Usable"
    by (auto dest!: found simp: is_verification_pending_def is_changed_content_def)
  then have "logical_quality copies = A_Usable \<longleftrightarrow>
      \<not> (list_ex (says Q_Usable) (map applicable_quality_of copies) \<and> list_ex (says Q_Unusable) (map applicable_quality_of copies)) \<and>
      A_Usable \<in> set (map applicable_quality_of copies) \<and> \<not> list_ex verification_pending copies"
    unfolding logical_quality_def Let_def
    by (cases "find is_verification_pending (map applicable_quality_of copies)";
        cases "find is_changed_content (map applicable_quality_of copies)") simp_all
  also have "\<dots> \<longleftrightarrow>
      (\<exists>c \<in> set copies. decided_quality c = Q_Usable \<and> speaks_for_bytes c) \<and>
      (\<forall>c \<in> set copies. \<not> (decided_quality c = Q_Unusable \<and> speaks_for_bytes c)) \<and>
      (\<forall>c \<in> set copies. \<not> verification_pending c)"
    by (simp add: list_ex_iff applicable_cases image_iff eq_commute [of A_Usable]) blast
  finally show ?thesis .
qed

lemma digests_of_set: "set (digests_of copies) = {d. \<exists>c \<in> set copies. content_sha256 (fingerprint c) = Some d}"
  by (force simp: digests_of_def map_filter_def)

lemma digests_of_length: "length (digests_of copies) = card (set (digests_of copies))"
  by (metis digests_of_def distinct_card distinct_remdups)

text \<open>
  C19. A capture that follows the library, with every live copy hashed and all of one digest, is placed by the
  next build exactly when its live copies prove it usable - some copy was decided usable for the bytes it
  holds, no copy was decided unusable for the bytes it holds, and no copy waits for its rehash - and that is
  exactly when the library counts the capture as usable. A decision on bytes that have changed since never
  counts, and an explicit choice of the user holds either way while a copy is live.
\<close>

theorem capture_is_placed_iff_proven_usable:
  assumes "\<And>c. c \<in> set copies \<Longrightarrow> content_sha256 (fingerprint c) = Some d"
  shows "(admits (on_add q) (live_quality copies) \<longleftrightarrow>
      (\<exists>c \<in> set copies. decided_quality c = Q_Usable \<and> speaks_for_bytes c) \<and>
      \<not> (\<exists>c \<in> set copies. decided_quality c = Q_Unusable \<and> speaks_for_bytes c) \<and>
      \<not> (\<exists>c \<in> set copies. verification_pending c)) \<and>
   (admits (on_add q) (live_quality copies) \<longleftrightarrow> capture_quality copies = A_Usable) \<and>
   (admits (chosen ChooseInclude q) (live_quality copies) \<longleftrightarrow> copies \<noteq> []) \<and>
   \<not> admits (chosen ChooseExclude q) (live_quality copies)"
proof -
  have placed: "admits (on_add q) (live_quality copies) \<longleftrightarrow> logical_quality copies = A_Usable"
    by (auto simp: on_add_def live_quality_def logical_quality_usable)
  have "set (digests_of copies) \<subseteq> {d}" using assms by (auto simp: digests_of_set)
  then have "length (digests_of copies) \<le> 1"
    unfolding digests_of_length by (metis card.empty card_insert_disjoint card_mono finite.emptyI finite.insertI
        empty_iff One_nat_def)
  moreover have "\<not> list_ex (\<lambda>c. content_sha256 (fingerprint c) = None \<and> asset_availability c \<noteq> Missing) copies"
    using assms by (auto simp: list_ex_iff)
  ultimately have "capture_quality copies = A_Usable \<longleftrightarrow> logical_quality copies = A_Usable"
    by (auto simp: capture_quality_def split: applicable_quality.split)
  then show ?thesis using placed by (auto simp: logical_quality_usable live_quality_def)
qed

text \<open>A copy of a known digest, decided so for the bytes it holds.\<close>

definition example_copy :: "quality \<Rightarrow> string \<Rightarrow> asset" where
  "example_copy q d =
    (let f = \<lparr>identity = \<lparr>on_volume = \<lparr>filesystem = ''ext4'', stable_id = Some ''v'', file_ids_stable = False,
               case_sensitivity = Sensitive, normalization = Sensitive\<rparr>, file_id = None\<rparr>,
             size_bytes = 1, modified_ns = 0, content_sha256 = Some d\<rparr>
     in \<lparr>fingerprint = f, asset_availability = Available, decided_quality = q,
         quality_basis = (if q = Q_Unreviewed then None else Some f), verification_pending = False\<rparr>)"

theorem capture_is_placed_iff_proven_usable_witness:
  "admits (on_add A_Usable) (live_quality [example_copy Q_Usable ''aa'', example_copy Q_Unreviewed ''aa'']) \<and>
   capture_quality [example_copy Q_Usable ''aa'', example_copy Q_Unreviewed ''aa''] = A_Usable"
proof -
  let ?cs = "[example_copy Q_Usable ''aa'', example_copy Q_Unreviewed ''aa'']"
  have same: "content_sha256 (fingerprint c) = Some ''aa''" if "c \<in> set ?cs" for c
    using that by (auto simp: example_copy_def Let_def)
  have "decided_quality (example_copy Q_Usable ''aa'') = Q_Usable \<and> speaks_for_bytes (example_copy Q_Usable ''aa'')"
    "\<not> verification_pending (example_copy q d)" "decided_quality (example_copy Q_Unreviewed ''aa'') \<noteq> Q_Unusable" for q d
    by (simp_all add: example_copy_def Let_def speaks_for_bytes_def equivalent_refl)
  then show ?thesis using capture_is_placed_iff_proven_usable [where copies = ?cs and d = "''aa''" and q = A_Usable, OF same] by auto
qed

text \<open>
  The placement of a capture does not look at the digests of its copies: with one copy proven usable and
  another of different content that nobody reviewed, the library counts conflicting copies, and a capture that
  follows the library is placed all the same.
\<close>

theorem conflicting_copies_are_placed:
  assumes "c \<in> set copies" and "decided_quality c = Q_Usable" and "speaks_for_bytes c"
    and "c' \<in> set copies" and "content_sha256 (fingerprint c') = Some d'" and "content_sha256 (fingerprint c) \<noteq> Some d'"
    and "\<And>b. b \<in> set copies \<Longrightarrow> decided_quality b \<noteq> Q_Unusable \<and> \<not> verification_pending b"
  shows "capture_quality copies = ConflictingCopies \<and> admits (on_add q) (live_quality copies)"
proof
  obtain d where d: "content_sha256 (fingerprint c) = Some d"
    using assms(3) by (auto simp: speaks_for_bytes_def equivalent_def split: option.splits)
  then have "{d, d'} \<subseteq> set (digests_of copies)" "d \<noteq> d'" using assms by (auto simp: digests_of_set)
  then have "card {d, d'} \<le> length (digests_of copies)" unfolding digests_of_length by (intro card_mono) simp_all
  then show "capture_quality copies = ConflictingCopies" using \<open>d \<noteq> d'\<close> by (simp add: capture_quality_def)
  have "logical_quality copies = A_Usable" using assms by (auto simp: logical_quality_usable)
  then show "admits (on_add q) (live_quality copies)" using assms(1) by (auto simp: on_add_def live_quality_def)
qed

theorem conflicting_copies_are_placed_witness:
  "capture_quality [example_copy Q_Usable ''aa'', example_copy Q_Unreviewed ''bb''] = ConflictingCopies \<and>
   admits (on_add A_Unreviewed) (live_quality [example_copy Q_Usable ''aa'', example_copy Q_Unreviewed ''bb''])"
  by (rule conflicting_copies_are_placed [where c = "example_copy Q_Usable ''aa''" and c' = "example_copy Q_Unreviewed ''bb''" and d' = "''bb''"])
    (auto simp: example_copy_def Let_def speaks_for_bytes_def equivalent_refl)

end
