(* ===== verification/View.thy ===== *)
theory View
  imports Evidence Contain SafeFilename
begin

text \<open>
  The applied state of a project (\<open>crates/platevault-model/src/project_view.rs\<close>): the basis a View is
  built from, the manifest of one build, reserved entry names, the journal of one Apply, foreign files
  and the leftovers of a replaced View. A native path is the text of a Unix path. Fields the code only
  stores and compares (optics, framing, file identities, header patches) are opaque. Errors carry the
  reason the message of \<open>InvalidInput\<close> is formatted from.
\<close>

section \<open>Basis\<close>

datatype view_mode = Symlinks | Copies

record copy_basis =
  copy_asset :: uuid
  decision_revision :: revision
  copy_fingerprint :: opaque

datatype copies_error = NoCopy uuid | KeyNotSmallest uuid | CopiesNotInOrder uuid

definition validate_copies :: "uuid \<Rightarrow> copy_basis list \<Rightarrow> copies_error + unit" where
  "validate_copies key copies =
    (case copies of
       [] \<Rightarrow> Inl (NoCopy key)
     | c # _ \<Rightarrow>
         (if copy_asset c \<noteq> key then Inl (KeyNotSmallest key)
          else refuse_if (list_ex (\<lambda>(a, b). copy_asset a \<ge> copy_asset b) (zip copies (tl copies))) (CopiesNotInOrder key)))"

record basis_capture =
  capture_key :: uuid
  included :: bool
  inclusion :: capture_inclusion
  copies :: "copy_basis list"
  quality_when_added :: applicable_quality

record basis_session =
  session_id :: uuid
  night :: "opaque option"
  placement_origin :: opaque
  target_id :: uuid
  captures :: "basis_capture list"
  calibration :: settled_calibration

record basis_group =
  group_id :: uuid
  group_name :: ustring
  panel :: bool
  rig_id :: uuid
  group_origin :: opaque
  optics :: opaque
  framing :: "opaque option"
  position :: nat
  sessions :: "basis_session list"

record project_basis =
  mode :: view_mode
  keyword_names :: "opaque \<times> opaque"
  groups :: "basis_group list"

definition has_group_folders :: "project_basis \<Rightarrow> bool" where
  "has_group_folders b \<longleftrightarrow> length (groups b) > 1"

definition basis_captures :: "project_basis \<Rightarrow> basis_capture list" where
  "basis_captures b = concat (map captures (concat (map sessions (groups b))))"

text \<open>A \<open>BTreeMap\<close> collected from pairs: the last of equal keys wins.\<close>

definition included_captures :: "project_basis \<Rightarrow> uuid \<Rightarrow> uuid set option" where
  "included_captures b = map_of (rev (map (\<lambda>c. (capture_key c, set (map copy_asset (copies c))))
     (filter included (basis_captures b))))"

datatype basis_error =
    GroupListedTwice uuid
  | GroupsShareName ustring
  | SessionInTwoGroups uuid
  | BadPin pin_error
  | BadCopies copies_error
  | CaptureListedTwice uuid
  | CopyAllocatedTwice uuid

definition comparison_key :: "unicode \<Rightarrow> ustring \<Rightarrow> ustring" where
  "comparison_key U name = to_lower U (nfc U (trim_matches (white_space U) name))"

definition map_error :: "('e \<Rightarrow> 'f) \<Rightarrow> 'e + 'a \<Rightarrow> 'f + 'a" where
  "map_error f r = (case r of Inl e \<Rightarrow> Inl (f e) | Inr a \<Rightarrow> Inr a)"

definition session_step :: "uuid set \<Rightarrow> basis_session \<Rightarrow> basis_error + uuid set" where
  "session_step seen s =
    (if session_id s \<in> seen then Inl (SessionInTwoGroups (session_id s))
     else case map_error BadPin (settled_validate (calibration s) (session_id s)) of
       Inl e \<Rightarrow> Inl e
     | Inr _ \<Rightarrow> Inr (insert (session_id s) seen))"

definition group_step ::
  "unicode \<Rightarrow> uuid set \<times> ustring set \<times> uuid set \<Rightarrow> basis_group \<Rightarrow> basis_error + (uuid set \<times> ustring set \<times> uuid set)" where
  "group_step U st g =
    (case st of (ids, names, seen) \<Rightarrow>
       if group_id g \<in> ids then Inl (GroupListedTwice (group_id g))
       else if comparison_key U (group_name g) \<in> names then Inl (GroupsShareName (group_name g))
       else case try_each session_step seen (sessions g) of
         Inl e \<Rightarrow> Inl e
       | Inr seen \<Rightarrow> Inr (insert (group_id g) ids, insert (comparison_key U (group_name g)) names, seen))"

definition copy_step :: "uuid set \<Rightarrow> copy_basis \<Rightarrow> basis_error + uuid set" where
  "copy_step seen c =
    (if copy_asset c \<in> seen then Inl (CopyAllocatedTwice (copy_asset c)) else Inr (insert (copy_asset c) seen))"

definition capture_step :: "uuid set \<times> uuid set \<Rightarrow> basis_capture \<Rightarrow> basis_error + (uuid set \<times> uuid set)" where
  "capture_step st c =
    (case st of (keys, seen) \<Rightarrow>
       case map_error BadCopies (validate_copies (capture_key c) (copies c)) of
         Inl e \<Rightarrow> Inl e
       | Inr _ \<Rightarrow>
           if capture_key c \<in> keys then Inl (CaptureListedTwice (capture_key c))
           else case try_each copy_step seen (copies c) of
             Inl e \<Rightarrow> Inl e
           | Inr seen \<Rightarrow> Inr (insert (capture_key c) keys, seen))"

definition basis_validate :: "unicode \<Rightarrow> project_basis \<Rightarrow> basis_error + unit" where
  "basis_validate U b =
    and_then (try_each (group_step U) ({}, {}, {}) (groups b)) (\<lambda>_.
    and_then (try_each capture_step ({}, {}) (basis_captures b)) (\<lambda>_. Inr ()))"

section \<open>Manifest\<close>

datatype manifest_state = M_Building | M_Installed | M_Previous | M_Retired | M_Discarded

fun manifest_can_become :: "manifest_state \<Rightarrow> manifest_state \<Rightarrow> bool" where
  "manifest_can_become M_Building next = (next \<in> {M_Installed, M_Discarded})"
| "manifest_can_become M_Installed next = (next \<in> {M_Previous, M_Retired})"
| "manifest_can_become M_Previous next = (next = M_Retired)"
| "manifest_can_become _ _ = False"

datatype entry_source =
    LightEntry uuid uuid
  | CalibrationFrameEntry input_kind uuid uuid
  | MasterEntry input_kind uuid revision

primrec entry_calibration_kind :: "entry_source \<Rightarrow> input_kind option" where
  "entry_calibration_kind (LightEntry _ _) = None"
| "entry_calibration_kind (CalibrationFrameEntry k _ _) = Some k"
| "entry_calibration_kind (MasterEntry k _ _) = Some k"

datatype entry_placement = PlacedSymlink | PlacedCopy | PlacedClone

primrec placement_fits :: "entry_placement \<Rightarrow> view_mode \<Rightarrow> bool" where
  "placement_fits PlacedSymlink m = (m = Symlinks)"
| "placement_fits PlacedCopy m = (m = Copies)"
| "placement_fits PlacedClone m = (m = Copies)"

record manifest_entry =
  seq :: nat
  entry_path :: string
  entry_group :: "uuid option"
  entry_night :: "opaque option"
  entry_source :: entry_source
  placement :: entry_placement
  source_sha256 :: string
  source_fingerprint :: opaque
  written :: "opaque option"
  header_patch :: "opaque list"
  patched_sha256 :: "string option"

definition copy_sha256 :: "manifest_entry \<Rightarrow> string" where
  "copy_sha256 e = (case patched_sha256 e of Some d \<Rightarrow> d | None \<Rightarrow> source_sha256 e)"

record view_manifest =
  manifest_project :: uuid
  generation :: revision
  manifest_state :: manifest_state
  manifest_operation :: uuid
  desired_revision :: revision
  basis :: project_basis
  entries :: "manifest_entry list"

datatype entry_error =
    BadBasis basis_error
  | PathEscapes
  | PathEmpty
  | SourceNotSha256
  | PlacedTwice nat string
  | OnlyCopyPatched nat
  | PlacementUnfit nat
  | PatchedNotSha256
  | WrittenWithoutDigest nat
  | DigestWithoutPatch nat
  | NotAnIncludedInput nat uuid
  | EntryListedTwice nat

definition relative_parts :: "string \<Rightarrow> entry_error + string list" where
  "relative_parts p =
    (if list_ex (\<lambda>c. c = RootDir \<or> c = ParentDir) (components p) then Inl PathEscapes
     else let parts = normal_names (components p) in if parts = [] then Inl PathEmpty else Inr parts)"

text \<open>The checks of one entry between the check of its path and that of its number.\<close>

definition check_patch :: "view_mode \<Rightarrow> manifest_entry \<Rightarrow> entry_error + unit" where
  "check_patch m e =
    (let patched = header_patch e \<noteq> []
     in if patched \<and> placement e \<noteq> PlacedCopy then Inl (OnlyCopyPatched (seq e))
        else if \<not> (placement_fits (placement e) m \<or> patched) then Inl (PlacementUnfit (seq e))
        else case (patched_sha256 e, patched) of
          (Some digest, True) \<Rightarrow> require_sha256 digest PatchedNotSha256
        | (None, True) \<Rightarrow> refuse_if (written e \<noteq> None) (WrittenWithoutDigest (seq e))
        | (Some _, False) \<Rightarrow> Inl (DigestWithoutPatch (seq e))
        | (None, False) \<Rightarrow> Inr ())"

definition check_included :: "(uuid \<Rightarrow> uuid set option) \<Rightarrow> manifest_entry \<Rightarrow> entry_error + unit" where
  "check_included inc e =
    (case entry_source e of
       LightEntry key asset \<Rightarrow>
         refuse_if (\<not> (case inc key of None \<Rightarrow> False | Some cs \<Rightarrow> asset \<in> cs)) (NotAnIncludedInput (seq e) key)
     | _ \<Rightarrow> Inr ())"

definition entry_step ::
  "view_mode \<Rightarrow> (uuid \<Rightarrow> uuid set option) \<Rightarrow> nat set \<times> string set \<Rightarrow> manifest_entry \<Rightarrow> entry_error + (nat set \<times> string set)" where
  "entry_step m inc st e =
    (case st of (seqs, paths) \<Rightarrow>
       and_then (relative_parts (entry_path e)) (\<lambda>_.
       and_then (require_sha256 (source_sha256 e) SourceNotSha256) (\<lambda>_.
       if entry_path e \<in> paths then Inl (PlacedTwice (seq e) (entry_path e))
       else and_then (check_patch m e) (\<lambda>_.
       and_then (check_included inc e) (\<lambda>_.
       if seq e \<in> seqs then Inl (EntryListedTwice (seq e))
       else Inr (insert (seq e) seqs, insert (entry_path e) paths))))))"

definition manifest_validate :: "unicode \<Rightarrow> view_manifest \<Rightarrow> entry_error + unit" where
  "manifest_validate U v =
    and_then (map_error BadBasis (basis_validate U (basis v))) (\<lambda>_.
    and_then (try_each (entry_step (mode (basis v)) (included_captures (basis v))) ({}, {}) (entries v)) (\<lambda>_. Inr ()))"

section \<open>Entry names\<close>

datatype entry_input = CaptureInput uuid | FrameInput uuid | MasterInput uuid

primrec entry_input_id :: "entry_input \<Rightarrow> uuid" where
  "entry_input_id (CaptureInput i) = i"
| "entry_input_id (FrameInput i) = i"
| "entry_input_id (MasterInput i) = i"

record entry_name =
  name_input :: entry_input
  basename :: ustring

datatype name_error = NotPlainFileName ustring | NameRefused ustring sanitize_error

definition is_control :: "int \<Rightarrow> bool" where
  "is_control c \<longleftrightarrow> 0 \<le> c \<and> c < 0x20 \<or> 0x7F \<le> c \<and> c \<le> 0x9F"

definition entry_name_new :: "unicode \<Rightarrow> entry_input \<Rightarrow> ustring \<Rightarrow> name_error + entry_name" where
  "entry_name_new U i n =
    (if n = [] \<or> list_ex (\<lambda>c. c = 0x2F \<or> c = 0x5C \<or> is_control c) n then Inl (NotPlainFileName n)
     else map_error (NameRefused n)
       (and_then (step3_traversal_check n) (\<lambda>_.
        and_then (step4_reserved_name_check U n) (\<lambda>_. Inr \<lparr>name_input = i, basename = n\<rparr>))))"

section \<open>What validation means\<close>

lemma sorted_iff_pairs: "\<not> list_ex (\<lambda>(a, b). key a \<ge> key b) (zip xs (tl xs)) \<longleftrightarrow> sorted_wrt (<) (map key xs)"
  for key :: "'a \<Rightarrow> 'b::linorder"
proof (induction xs rule: induct_list012)
  case (3 x y zs)
  then show ?case by (simp add: not_le) (auto intro: less_trans)
qed auto

definition copies_ok :: "basis_capture \<Rightarrow> bool" where
  "copies_ok c \<longleftrightarrow> copies c \<noteq> [] \<and> copy_asset (hd (copies c)) = capture_key c \<and>
     sorted_wrt (<) (map copy_asset (copies c))"

lemma validate_copies_iff:
  "validate_copies (capture_key c) (copies c) = Inr () \<longleftrightarrow> copies_ok c"
proof (cases "copies c")
  case (Cons x xs)
  have "sorted_wrt (<) (map copy_asset (x # xs)) \<longleftrightarrow> \<not> list_ex (\<lambda>(a, b). copy_asset a \<ge> copy_asset b) (zip (x # xs) (tl (x # xs)))"
    by (rule sorted_iff_pairs [symmetric])
  then show ?thesis unfolding validate_copies_def copies_ok_def Cons by (simp del: sorted_wrt.simps)
qed (simp add: validate_copies_def copies_ok_def)

lemma map_error_simps [simp]: "map_error f (Inr a) = Inr a" "map_error f (Inl e) = Inl (f e)"
  by (simp_all add: map_error_def)

lemma map_error_Inr_iff [simp]: "map_error f r = Inr a \<longleftrightarrow> r = Inr a"
  by (cases r) (simp_all add: map_error_def)

definition basis_sessions :: "project_basis \<Rightarrow> basis_session list" where
  "basis_sessions b = concat (map sessions (groups b))"

definition basis_ok :: "unicode \<Rightarrow> project_basis \<Rightarrow> bool" where
  "basis_ok U b \<longleftrightarrow>
     distinct (map group_id (groups b)) \<and>
     distinct (map (\<lambda>g. comparison_key U (group_name g)) (groups b)) \<and>
     distinct (map session_id (basis_sessions b)) \<and>
     list_all (\<lambda>s. settled_validate (calibration s) (session_id s) = Inr ()) (basis_sessions b) \<and>
     list_all copies_ok (basis_captures b) \<and>
     distinct (map capture_key (basis_captures b)) \<and>
     distinct (map copy_asset (concat (map copies (basis_captures b))))"

lemma session_step_iff:
  "session_step seen s = Inr s' \<longleftrightarrow>
    keyed (\<lambda>s. [session_id s]) (\<lambda>s. settled_validate (calibration s) (session_id s) = Inr ()) seen s s'"
  by (auto simp: session_step_def keyed_def map_error_def split: sum.splits)

lemma copy_step_iff: "copy_step seen c = Inr s' \<longleftrightarrow> keyed (\<lambda>c. [copy_asset c]) (\<lambda>_. True) seen c s'"
  by (auto simp: copy_step_def keyed_def)

lemma single_concat: "concat (map (\<lambda>x. [f x]) xs) = map f xs"
  by (induction xs) auto

lemma group_step_iff:
  "group_step U st g = Inr st' \<longleftrightarrow>
    both (keyed (\<lambda>g. [group_id g]) (\<lambda>_. True))
      (both (keyed (\<lambda>g. [comparison_key U (group_name g)]) (\<lambda>_. True))
        (keyed (\<lambda>g. map session_id (sessions g))
           (\<lambda>g. list_all (\<lambda>s. settled_validate (calibration s) (session_id s) = Inr ()) (sessions g)))) st g st'"
proof -
  obtain ids names seen where st: "st = (ids, names, seen)" by (cases st)
  have "try_each session_step seen (sessions g) = Inr s' \<longleftrightarrow>
      keyed (\<lambda>g. map session_id (sessions g))
        (\<lambda>g. list_all (\<lambda>s. settled_validate (calibration s) (session_id s) = Inr ()) (sessions g)) seen g s'" for s'
    unfolding try_each_runs [OF session_step_iff] runs_keyed single_concat by (auto simp: keyed_def)
  note inner = this
  have "group_step U st g = Inr st' \<longleftrightarrow> group_id g \<notin> ids \<and> comparison_key U (group_name g) \<notin> names \<and>
      (\<exists>s'. try_each session_step seen (sessions g) = Inr s' \<and>
        st' = (insert (group_id g) ids, insert (comparison_key U (group_name g)) names, s'))"
    by (auto simp: group_step_def st split: sum.splits)
  then show ?thesis unfolding inner st by (cases st') (auto simp: both_def keyed_def)
qed

lemma capture_step_iff:
  "capture_step st c = Inr st' \<longleftrightarrow>
    both (keyed (\<lambda>c. [capture_key c]) copies_ok) (keyed (\<lambda>c. map copy_asset (copies c)) (\<lambda>_. True)) st c st'"
proof -
  obtain keys seen where st: "st = (keys, seen)" by (cases st)
  have "try_each copy_step seen (copies c) = Inr s' \<longleftrightarrow> keyed (\<lambda>c. map copy_asset (copies c)) (\<lambda>_. True) seen c s'" for s'
    unfolding try_each_runs [OF copy_step_iff] runs_keyed single_concat by (auto simp: keyed_def list_all_iff)
  note inner = this
  have "capture_step st c = Inr st' \<longleftrightarrow>
      map_error BadCopies (validate_copies (capture_key c) (copies c)) = Inr () \<and> capture_key c \<notin> keys \<and>
      (\<exists>s'. try_each copy_step seen (copies c) = Inr s' \<and> st' = (insert (capture_key c) keys, s'))"
    by (auto simp: capture_step_def st split: sum.splits)
  then show ?thesis
    unfolding inner st map_error_Inr_iff validate_copies_iff by (cases st') (auto simp: both_def keyed_def)
qed

lemma list_all_concat_map: "list_all P (concat (map f xs)) \<longleftrightarrow> list_all (\<lambda>x. list_all P (f x)) xs"
  by (induction xs) auto

lemma concat_map_map: "concat (map (\<lambda>x. map f (g x)) xs) = map f (concat (map g xs))"
  by (induction xs) auto

lemma basis_validate_iff: "basis_validate U b = Inr () \<longleftrightarrow> basis_ok U b"
proof -
  have groups: "(\<exists>st. try_each (group_step U) ({}, {}, {}) (groups b) = Inr st) \<longleftrightarrow>
      distinct (map group_id (groups b)) \<and> distinct (map (\<lambda>g. comparison_key U (group_name g)) (groups b)) \<and>
      distinct (map session_id (basis_sessions b)) \<and>
      list_all (\<lambda>s. settled_validate (calibration s) (session_id s) = Inr ()) (basis_sessions b)"
    by (simp add: try_each_runs [OF group_step_iff] runs_both runs_keyed single_concat concat_map_map
        basis_sessions_def list_all_concat_map) (auto simp: list_all_iff)
  have captures: "(\<exists>st. try_each capture_step ({}, {}) (basis_captures b) = Inr st) \<longleftrightarrow>
      list_all copies_ok (basis_captures b) \<and> distinct (map capture_key (basis_captures b)) \<and>
      distinct (map copy_asset (concat (map copies (basis_captures b))))"
    by (simp add: try_each_runs [OF capture_step_iff] runs_both runs_keyed single_concat concat_map_map)
      (auto simp: list_all_iff)
  have "basis_validate U b = Inr () \<longleftrightarrow>
      (\<exists>st. try_each (group_step U) ({}, {}, {}) (groups b) = Inr st) \<and>
      (\<exists>st. try_each capture_step ({}, {}) (basis_captures b) = Inr st)"
    by (auto simp: basis_validate_def and_then_Inr_iff)
  then show ?thesis unfolding groups captures by (auto simp: basis_ok_def)
qed

text \<open>A path of normal components only, with at least one.\<close>

definition plain_relative :: "string \<Rightarrow> bool" where
  "plain_relative p \<longleftrightarrow> RootDir \<notin> set (components p) \<and> ParentDir \<notin> set (components p) \<and> normal_names (components p) \<noteq> []"

lemma relative_parts_iff: "relative_parts p = Inr parts \<longleftrightarrow> plain_relative p \<and> parts = normal_names (components p)"
  by (auto simp: relative_parts_def plain_relative_def list_ex_iff Let_def split: if_splits)

definition sha256_text :: "string \<Rightarrow> bool" where
  "sha256_text s \<longleftrightarrow> length s = 64 \<and> list_all hex_digit s"

lemma require_sha256_iff: "require_sha256 s e = Inr () \<longleftrightarrow> sha256_text s"
  by (simp add: require_sha256_def sha256_text_def)

text \<open>
  What a placed entry may be: a link only in a View of links, a patched copy in either mode, a plain copy
  or clone only in a View of copies; a digest of patched bytes exactly where there is a patch that has
  been written.
\<close>

definition patch_ok :: "view_mode \<Rightarrow> manifest_entry \<Rightarrow> bool" where
  "patch_ok m e \<longleftrightarrow>
     (if header_patch e = []
      then placement_fits (placement e) m \<and> patched_sha256 e = None
      else placement e = PlacedCopy \<and>
           (case patched_sha256 e of Some d \<Rightarrow> sha256_text d | None \<Rightarrow> written e = None))"

lemma check_patch_iff: "check_patch m e = Inr () \<longleftrightarrow> patch_ok m e"
  by (cases "patched_sha256 e") (auto simp: check_patch_def patch_ok_def Let_def require_sha256_iff)

definition input_ok :: "project_basis \<Rightarrow> manifest_entry \<Rightarrow> bool" where
  "input_ok b e \<longleftrightarrow>
     (\<forall>key a. entry_source e = LightEntry key a \<longrightarrow>
        (\<exists>c \<in> set (basis_captures b). included c \<and> capture_key c = key \<and> a \<in> set (map copy_asset (copies c))))"

lemma map_of_distinct_iff:
  "distinct (map key xs) \<Longrightarrow> map_of (rev (map (\<lambda>x. (key x, val x)) xs)) k = Some v \<longleftrightarrow> (\<exists>x \<in> set xs. key x = k \<and> val x = v)"
proof -
  assume d: "distinct (map key xs)"
  have "map fst (rev (map (\<lambda>x. (key x, val x)) xs)) = rev (map key xs)" by (simp add: rev_map comp_def)
  then have "distinct (map fst (rev (map (\<lambda>x. (key x, val x)) xs)))" using d by simp
  then show ?thesis by (subst map_of_eq_Some_iff) auto
qed

lemma distinct_map_filter_key: "distinct (map key xs) \<Longrightarrow> distinct (map key (filter P xs))"
  by (induction xs) auto

lemma included_captures_iff:
  assumes "basis_ok U b"
  shows "included_captures b key = Some cs \<longleftrightarrow>
    (\<exists>c \<in> set (basis_captures b). included c \<and> capture_key c = key \<and> set (map copy_asset (copies c)) = cs)"
proof -
  have "distinct (map capture_key (filter included (basis_captures b)))"
    using assms by (auto simp: basis_ok_def intro: distinct_map_filter_key)
  then show ?thesis unfolding included_captures_def by (subst map_of_distinct_iff) auto
qed

lemma check_included_iff:
  assumes "basis_ok U b"
  shows "check_included (included_captures b) e = Inr () \<longleftrightarrow> input_ok b e"
proof (cases "entry_source e")
  case (LightEntry key a)
  have "check_included (included_captures b) e = Inr () \<longleftrightarrow> (\<exists>cs. included_captures b key = Some cs \<and> a \<in> cs)"
    by (auto simp: check_included_def LightEntry split: option.splits)
  then show ?thesis unfolding included_captures_iff [OF assms] by (auto simp: input_ok_def LightEntry)
qed (simp_all add: check_included_def input_ok_def)

definition entry_ok :: "project_basis \<Rightarrow> manifest_entry \<Rightarrow> bool" where
  "entry_ok b e \<longleftrightarrow> plain_relative (entry_path e) \<and> sha256_text (source_sha256 e) \<and> patch_ok (mode b) e \<and> input_ok b e"

lemma entry_step_iff:
  assumes "basis_ok U b"
  shows "entry_step (mode b) (included_captures b) st e = Inr st' \<longleftrightarrow>
    both (keyed (\<lambda>e. [seq e]) (entry_ok b)) (keyed (\<lambda>e. [entry_path e]) (\<lambda>_. True)) st e st'"
proof -
  obtain seqs paths where st: "st = (seqs, paths)" by (cases st)
  have "entry_step (mode b) (included_captures b) st e = Inr st' \<longleftrightarrow>
      (\<exists>parts. relative_parts (entry_path e) = Inr parts) \<and> require_sha256 (source_sha256 e) SourceNotSha256 = Inr () \<and>
      entry_path e \<notin> paths \<and> check_patch (mode b) e = Inr () \<and> check_included (included_captures b) e = Inr () \<and>
      seq e \<notin> seqs \<and> st' = (insert (seq e) seqs, insert (entry_path e) paths)"
    by (auto simp: entry_step_def st and_then_Inr_iff)
  then show ?thesis
    unfolding relative_parts_iff require_sha256_iff check_patch_iff check_included_iff [OF assms] st
    by (cases st') (auto simp: both_def keyed_def entry_ok_def)
qed

definition manifest_ok :: "unicode \<Rightarrow> view_manifest \<Rightarrow> bool" where
  "manifest_ok U v \<longleftrightarrow> basis_ok U (basis v) \<and> distinct (map seq (entries v)) \<and>
     distinct (map entry_path (entries v)) \<and> list_all (entry_ok (basis v)) (entries v)"

lemma manifest_validate_iff: "manifest_validate U v = Inr () \<longleftrightarrow> manifest_ok U v"
proof (cases "basis_ok U (basis v)")
  case True
  have "(\<exists>st. try_each (entry_step (mode (basis v)) (included_captures (basis v))) ({}, {}) (entries v) = Inr st) \<longleftrightarrow>
      distinct (map seq (entries v)) \<and> distinct (map entry_path (entries v)) \<and> list_all (entry_ok (basis v)) (entries v)"
    by (simp add: try_each_runs [OF entry_step_iff [OF True]] runs_both runs_keyed single_concat) (auto simp: list_all_iff)
  moreover have "manifest_validate U v = Inr () \<longleftrightarrow> basis_validate U (basis v) = Inr () \<and>
      (\<exists>st. try_each (entry_step (mode (basis v)) (included_captures (basis v))) ({}, {}) (entries v) = Inr st)"
    by (auto simp: manifest_validate_def and_then_Inr_iff)
  ultimately show ?thesis by (simp add: manifest_ok_def basis_validate_iff)
next
  case False
  then have "basis_validate U (basis v) \<noteq> Inr ()" by (simp add: basis_validate_iff)
  then show ?thesis using False by (auto simp: manifest_validate_def and_then_Inr_iff manifest_ok_def)
qed

section \<open>Properties\<close>

text \<open>
  C16. The imperative validators of a basis and of a manifest accept exactly what the contract of a View
  says: groups once by id and by name, every session in one group with valid pins, every capture keyed
  by its smallest copy and every copy in one capture; every entry once by number and by path, on a plain
  path below the View, with proper digests, placed as the mode allows, and a light entry placing a copy
  of an included capture.
\<close>

theorem validators_decide_the_view_contract:
  "(basis_validate U b = Inr () \<longleftrightarrow> basis_ok U b) \<and> (manifest_validate U v = Inr () \<longleftrightarrow> manifest_ok U v)"
  by (simp add: basis_validate_iff manifest_validate_iff)


text \<open>
  C17. What a valid manifest promises a processing application: a View of copies holds no link; a link
  carries no patch; an entry's proven digest is its original's unless it is a written patched copy; and
  a placed light comes from exactly one capture of the basis, which the project includes.
\<close>

theorem valid_manifest_protects_originals:
  assumes "manifest_validate U v = Inr ()" and "e \<in> set (entries v)"
  shows "(mode (basis v) = Copies \<longrightarrow> placement e \<noteq> PlacedSymlink) \<and>
    (placement e = PlacedSymlink \<longrightarrow> header_patch e = []) \<and>
    (copy_sha256 e \<noteq> source_sha256 e \<longrightarrow> placement e = PlacedCopy \<and> header_patch e \<noteq> []) \<and>
    (\<forall>key a. entry_source e = LightEntry key a \<longrightarrow>
       (\<exists>!c. c \<in> set (basis_captures (basis v)) \<and> capture_key c = key) \<and>
       (\<exists>c \<in> set (basis_captures (basis v)). included c \<and> capture_key c = key \<and> a \<in> set (map copy_asset (copies c))))"
proof (intro conjI)
  have b: "basis_ok U (basis v)" and e: "entry_ok (basis v) e"
    using assms by (auto simp: manifest_validate_iff manifest_ok_def list_all_iff)
  then have p: "patch_ok (mode (basis v)) e" and i: "input_ok (basis v) e" by (auto simp: entry_ok_def)
  show "mode (basis v) = Copies \<longrightarrow> placement e \<noteq> PlacedSymlink"
    using p by (auto simp: patch_ok_def split: if_splits)
  show "placement e = PlacedSymlink \<longrightarrow> header_patch e = []" using p by (auto simp: patch_ok_def split: if_splits)
  show "copy_sha256 e \<noteq> source_sha256 e \<longrightarrow> placement e = PlacedCopy \<and> header_patch e \<noteq> []"
    using p by (auto simp: patch_ok_def copy_sha256_def split: if_splits)
  show "\<forall>key a. entry_source e = LightEntry key a \<longrightarrow>
       (\<exists>!c. c \<in> set (basis_captures (basis v)) \<and> capture_key c = key) \<and>
       (\<exists>c \<in> set (basis_captures (basis v)). included c \<and> capture_key c = key \<and> a \<in> set (map copy_asset (copies c)))"
  proof (intro allI impI)
    fix key a assume l: "entry_source e = LightEntry key a"
    then obtain c where c: "c \<in> set (basis_captures (basis v))" "included c" "capture_key c = key" "a \<in> set (map copy_asset (copies c))"
      using i by (auto simp: input_ok_def)
    have "distinct (map capture_key (basis_captures (basis v)))" using b by (simp add: basis_ok_def)
    then have "c' = c" if "c' \<in> set (basis_captures (basis v))" "capture_key c' = key" for c'
      using that c(1,3) by (auto simp: distinct_map dest: inj_onD)
    then show "(\<exists>!c. c \<in> set (basis_captures (basis v)) \<and> capture_key c = key) \<and>
       (\<exists>c \<in> set (basis_captures (basis v)). included c \<and> capture_key c = key \<and> a \<in> set (map copy_asset (copies c)))"
      using c by blast
  qed
qed

definition example_digest :: string where
  "example_digest = replicate 64 (CHR ''0'')"

definition example_path :: string where
  "example_path = ''Lights/a.fits''"

definition example_basis :: project_basis where
  "example_basis = \<lparr>mode = Copies, keyword_names = (0, 1), groups =
    [\<lparr>group_id = 1, group_name = lit ''Ha'', panel = False, rig_id = 9, group_origin = 0, optics = 0, framing = None, position = 0,
      sessions = [\<lparr>session_id = 7, night = None, placement_origin = 0, target_id = 4,
        captures = [\<lparr>capture_key = 20, included = True, inclusion = Included BecauseUsable,
           copies = [\<lparr>copy_asset = 20, decision_revision = 1, copy_fingerprint = 0\<rparr>,
                     \<lparr>copy_asset = 22, decision_revision = 1, copy_fingerprint = 0\<rparr>], quality_when_added = A_Usable\<rparr>],
        calibration = example_settled\<rparr>]\<rparr>]\<rparr>"

definition example_entry :: manifest_entry where
  "example_entry = \<lparr>seq = 0, entry_path = example_path, entry_group = Some 1, entry_night = None,
     entry_source = LightEntry 20 22, placement = PlacedClone, source_sha256 = example_digest,
     source_fingerprint = 0, written = Some 5, header_patch = [], patched_sha256 = None\<rparr>"

definition example_manifest :: view_manifest where
  "example_manifest = \<lparr>manifest_project = 1, generation = 1, manifest_state = M_Building, manifest_operation = 3,
     desired_revision = 2, basis = example_basis, entries = [example_entry]\<rparr>"

lemma example_basis_ok: "basis_ok ascii example_basis"
proof -
  have "settled_validate example_settled 7 = Inr ()" by code_simp
  then show ?thesis by (simp add: basis_ok_def example_basis_def basis_sessions_def basis_captures_def copies_ok_def)
qed

lemma example_manifest_valid: "manifest_validate ascii example_manifest = Inr ()"
proof -
  have "plain_relative example_path" "sha256_text example_digest" by code_simp+
  then have "entry_ok example_basis example_entry"
    by (simp add: entry_ok_def example_basis_def example_entry_def basis_captures_def patch_ok_def input_ok_def)
  then show ?thesis using example_basis_ok by (simp add: manifest_validate_iff manifest_ok_def example_manifest_def)
qed

theorem valid_manifest_protects_originals_witness:
  "placement example_entry \<noteq> PlacedSymlink \<and> (\<exists>!c. c \<in> set (basis_captures example_basis) \<and> capture_key c = 20)"
proof -
  have e: "example_entry \<in> set (entries example_manifest)" and m: "mode (basis example_manifest) = Copies"
    and l: "entry_source example_entry = LightEntry 20 22" and b: "basis example_manifest = example_basis"
    by (simp_all add: example_manifest_def example_basis_def example_entry_def)
  note v = valid_manifest_protects_originals [OF example_manifest_valid e]
  have "placement example_entry \<noteq> PlacedSymlink" using conjunct1 [OF v] m by blast
  moreover have "\<exists>!c. c \<in> set (basis_captures example_basis) \<and> capture_key c = 20"
    using v [THEN conjunct2, THEN conjunct2, THEN conjunct2, rule_format, OF l, THEN conjunct1] unfolding b .
  ultimately show ?thesis by (rule conjI)
qed

end
