(* ===== verification/Journal.thy ===== *)
theory Journal
  imports View
begin

text \<open>
  The durable journal of one Apply, foreign files and leftovers
  (\<open>crates/platevault-model/src/project_view.rs\<close>), the reasons an Apply stops
  (\<open>project_apply.rs\<close>), and a project's lifecycle with its operations and Wrap up steps
  (\<open>project_lifecycle.rs\<close>).
\<close>

section \<open>The journal of one Apply\<close>

datatype apply_phase =
    Reserved | SourcesVerified | BuildingPhase | BuildVerified | WaitingForRelease | OldMoved
  | NewInstalled | ManifestCommitted | ForeignTransferred | RetiringPrevious | Settled

definition PHASE_ORDER :: "apply_phase list" where
  "PHASE_ORDER = [Reserved, SourcesVerified, BuildingPhase, BuildVerified, WaitingForRelease, OldMoved,
     NewInstalled, ManifestCommitted, ForeignTransferred, RetiringPrevious, Settled]"

primrec phase_rank :: "apply_phase \<Rightarrow> nat" where
  "phase_rank Reserved = 0"
| "phase_rank SourcesVerified = 1"
| "phase_rank BuildingPhase = 2"
| "phase_rank BuildVerified = 3"
| "phase_rank WaitingForRelease = 4"
| "phase_rank OldMoved = 5"
| "phase_rank NewInstalled = 6"
| "phase_rank ManifestCommitted = 7"
| "phase_rank ForeignTransferred = 8"
| "phase_rank RetiringPrevious = 9"
| "phase_rank Settled = 10"

lemma PHASE_ORDER_rank: "PHASE_ORDER ! phase_rank p = p"
  by (cases p) (simp_all add: PHASE_ORDER_def)

lemma phase_rank_inject: "phase_rank p = phase_rank q \<longleftrightarrow> p = q"
  by (metis PHASE_ORDER_rank)

instantiation apply_phase :: linorder
begin

definition less_eq_apply_phase :: "apply_phase \<Rightarrow> apply_phase \<Rightarrow> bool" where
  "less_eq_apply_phase p q \<longleftrightarrow> phase_rank p \<le> phase_rank q"

definition less_apply_phase :: "apply_phase \<Rightarrow> apply_phase \<Rightarrow> bool" where
  "less_apply_phase p q \<longleftrightarrow> phase_rank p < phase_rank q"

instance
proof
qed (auto simp: less_eq_apply_phase_def less_apply_phase_def phase_rank_inject [symmetric])

end

lemmas phase_order_defs = less_eq_apply_phase_def less_apply_phase_def

definition can_advance_to :: "apply_phase \<Rightarrow> apply_phase \<Rightarrow> bool" where
  "can_advance_to p next \<longleftrightarrow> phase_rank next > phase_rank p"

definition before :: "apply_phase \<Rightarrow> apply_phase \<Rightarrow> bool" where
  "before p other \<longleftrightarrow> phase_rank p < phase_rank other"

datatype view_outcome = ViewApplied | ViewFailed | ViewCanceled

datatype apply_stop =
    StopCanceled | StopInterrupted | CatalogMoved | OriginalsUnverified nat | BuildingNotCleared nat
  | EntryNotPlaced | BuildUnverified nat | ViewUnreadable nat | PreviousUnreadable nat | KeptNotMoved nat
  | ProjectFolderReplaced | ViewReplaced | PreviousAppeared | AsideFailed | NotInstalledStop

definition stop_outcome :: "apply_stop \<Rightarrow> view_outcome" where
  "stop_outcome s = (case s of StopCanceled \<Rightarrow> ViewCanceled | _ \<Rightarrow> ViewFailed)"

record expected_tree =
  root_path :: string
  root_identity :: file_identity
  expected_view :: "file_identity option"
  expected_building :: "file_identity option"
  expected_previous :: "file_identity option"

record apply_journal =
  operation_id :: uuid
  project_id :: uuid
  journal_generation :: revision
  phase :: apply_phase
  settled_from :: "apply_phase option"
  journal_outcome :: "view_outcome option"
  expected :: expected_tree
  stop :: "apply_stop option"

definition outcome_fits :: "view_outcome \<Rightarrow> apply_phase \<Rightarrow> bool" where
  "outcome_fits r from =
    (case r of
       ViewApplied \<Rightarrow> phase_rank from \<ge> phase_rank ManifestCommitted
     | _ \<Rightarrow> phase_rank from < phase_rank NewInstalled)"

datatype journal_error =
    SettlingNamesOutcome
  | NeverReturns apply_phase apply_phase
  | SettlesOnce
  | CannotEnd apply_phase view_outcome
  | PhaseOutcomeDisagree uuid

definition journal_advance :: "apply_journal \<Rightarrow> apply_phase \<Rightarrow> journal_error + apply_journal" where
  "journal_advance j next =
    (if phase j = Settled \<or> next = Settled then Inl SettlingNamesOutcome
     else if \<not> can_advance_to (phase j) next then Inl (NeverReturns (phase j) next)
     else Inr (j\<lparr>phase := next\<rparr>))"

definition journal_settle :: "apply_journal \<Rightarrow> view_outcome \<Rightarrow> journal_error + apply_journal" where
  "journal_settle j r =
    (if phase j = Settled then Inl SettlesOnce
     else if \<not> outcome_fits r (phase j) then Inl (CannotEnd (phase j) r)
     else Inr (j\<lparr>settled_from := Some (phase j), phase := Settled, journal_outcome := Some r\<rparr>))"

definition journal_validate :: "apply_journal \<Rightarrow> journal_error + unit" where
  "journal_validate j =
    (case (phase j = Settled, journal_outcome j, settled_from j) of
       (False, None, None) \<Rightarrow> Inr ()
     | (True, Some r, Some from) \<Rightarrow>
         (if from \<noteq> Settled \<and> outcome_fits r from then Inr () else Inl (PhaseOutcomeDisagree (operation_id j)))
     | _ \<Rightarrow> Inl (PhaseOutcomeDisagree (operation_id j)))"

section \<open>Foreign files and leftovers\<close>

datatype foreign_state = ForeignPending | ForeignMoved | ForeignStayed | ForeignFailed
datatype foreign_failure = NameTaken | ForeignChanged | FolderNotMade | NotMoved

record foreign_item =
  foreign_seq :: nat
  foreign_path :: string
  foreign_evidence :: opaque
  ticked :: bool
  foreign_state :: foreign_state
  foreign_reason :: "foreign_failure option"

datatype foreign_error = ForeignPath entry_error | MovedWithoutTick string | FailureNamesReason string

definition foreign_validate :: "foreign_item \<Rightarrow> foreign_error + unit" where
  "foreign_validate f =
    and_then (map_error ForeignPath (relative_parts (foreign_path f))) (\<lambda>_.
      if foreign_state f = ForeignMoved \<and> \<not> ticked f then Inl (MovedWithoutTick (foreign_path f))
      else if (foreign_state f = ForeignFailed) \<noteq> (foreign_reason f \<noteq> None) then Inl (FailureNamesReason (foreign_path f))
      else Inr ())"

datatype previous_reason = ChangedCopy | UnverifiedCopy | UntickedFile | UnverifiedLink
datatype previous_review = ReviewPending | ReviewKept | ReviewMoved | ReviewTrashed

fun review_can_become :: "previous_review \<Rightarrow> previous_review \<Rightarrow> bool" where
  "review_can_become ReviewPending next = True"
| "review_can_become ReviewKept next = (next \<in> {ReviewKept, ReviewMoved, ReviewTrashed})"
| "review_can_become _ next = False"

record previous_item =
  previous_path :: string
  previous_reason :: previous_reason
  previous_evidence :: opaque
  review :: previous_review

definition leftovers_block_apply :: "previous_item list \<Rightarrow> bool" where
  "leftovers_block_apply items = list_ex (\<lambda>i. review i = ReviewPending) items"

section \<open>A project's lifecycle\<close>

datatype project_lifecycle = LifeOpen | LifeClosing | LifeClosed | LifeArchived

primrec lifecycle_display :: "project_lifecycle \<Rightarrow> string" where
  "lifecycle_display LifeOpen = ''open''"
| "lifecycle_display LifeClosing = ''closing''"
| "lifecycle_display LifeClosed = ''closed''"
| "lifecycle_display LifeArchived = ''archived''"

record close_policy =
  reopen :: bool
  wrap_up_waits_for_pending :: bool

definition CURRENT_POLICY :: close_policy where
  "CURRENT_POLICY = \<lparr>reopen = False, wrap_up_waits_for_pending = True\<rparr>"

fun policy_allows :: "close_policy \<Rightarrow> project_lifecycle \<Rightarrow> project_lifecycle \<Rightarrow> bool" where
  "policy_allows p LifeOpen to = (to \<in> {LifeClosing, LifeClosed})"
| "policy_allows p LifeClosing to = (to \<in> {LifeClosed, LifeArchived})"
| "policy_allows p LifeClosed to = (to = LifeOpen \<and> reopen p)"
| "policy_allows p LifeArchived to = (to = LifeOpen \<and> reopen p)"

definition wrap_up_opens :: "close_policy \<Rightarrow> nat \<Rightarrow> bool \<Rightarrow> bool" where
  "wrap_up_opens p pending_changes operation_running \<longleftrightarrow>
     \<not> operation_running \<and> (\<not> wrap_up_waits_for_pending p \<or> pending_changes = 0)"

definition is_open :: "project_lifecycle \<Rightarrow> bool" where
  "is_open l \<longleftrightarrow> l = LifeOpen"

definition lifecycle_can_become :: "project_lifecycle \<Rightarrow> project_lifecycle \<Rightarrow> bool" where
  "lifecycle_can_become l next = policy_allows CURRENT_POLICY l next"

definition lifecycle_transition ::
  "project_lifecycle \<Rightarrow> project_lifecycle \<Rightarrow> (project_lifecycle \<times> project_lifecycle) + project_lifecycle" where
  "lifecycle_transition l next = (if lifecycle_can_become l next then Inr next else Inl (l, next))"

datatype operation_kind = OpApply | OpCopyToOutput | OpCleanUp | OpTrash | OpArchive

definition admits_operation :: "project_lifecycle \<Rightarrow> operation_kind \<Rightarrow> bool" where
  "admits_operation l k =
    (case l of LifeOpen \<Rightarrow> True | LifeClosing \<Rightarrow> k = OpArchive | _ \<Rightarrow> False)"

datatype operation_state = OpActive | OpSettled

record project_operation =
  op_id :: uuid
  op_project :: uuid
  op_kind :: operation_kind
  op_state :: operation_state
  reserved_at :: string
  settled_at :: "string option"

definition operation_validate :: "project_operation \<Rightarrow> uuid + unit" where
  "operation_validate o' =
    (if (op_state o' = OpSettled) = (settled_at o' \<noteq> None) then Inr () else Inl (op_id o'))"

section \<open>Wrap up\<close>

datatype wrap_up_step = StepCleanUp | StepTrash | StepArchive

definition WRAP_UP_ORDER :: "wrap_up_step list" where
  "WRAP_UP_ORDER = [StepCleanUp, StepTrash, StepArchive]"

primrec previous_step :: "wrap_up_step \<Rightarrow> wrap_up_step option" where
  "previous_step StepCleanUp = None"
| "previous_step StepTrash = Some StepCleanUp"
| "previous_step StepArchive = Some StepTrash"

datatype wrap_up_outcome = Finished | Skipped

record wrap_up_record =
  wrap_step :: wrap_up_step
  wrap_outcome :: wrap_up_outcome
  wrap_operation :: "uuid option"
  recorded_at :: string

datatype wrap_up_error = RecordedTwice wrap_up_step | CameEarly wrap_up_step

definition wrap_step_step :: "wrap_up_step set \<Rightarrow> wrap_up_record \<Rightarrow> wrap_up_error + wrap_up_step set" where
  "wrap_step_step seen r =
    (if wrap_step r \<in> seen then Inl (RecordedTwice (wrap_step r)) else Inr (insert (wrap_step r) seen))"

text \<open>The set of steps is iterated in the order of the enumeration.\<close>

definition wrap_up_validate_all :: "wrap_up_record list \<Rightarrow> wrap_up_error + unit" where
  "wrap_up_validate_all records =
    and_then (try_each wrap_step_step {} records) (\<lambda>steps.
      case find (\<lambda>s. s \<in> steps \<and> (case previous_step s of None \<Rightarrow> False | Some p \<Rightarrow> p \<notin> steps)) WRAP_UP_ORDER of
        Some s \<Rightarrow> Inl (CameEarly s)
      | None \<Rightarrow> Inr ())"

definition wrap_up_complete :: "wrap_up_record list \<Rightarrow> bool" where
  "wrap_up_complete records \<longleftrightarrow>
     wrap_up_validate_all records = Inr () \<and> length records = length WRAP_UP_ORDER"

section \<open>Runs of the journal\<close>

datatype journal_call = CallAdvance apply_phase | CallSettle view_outcome

primrec journal_apply :: "apply_journal \<Rightarrow> journal_call \<Rightarrow> journal_error + apply_journal" where
  "journal_apply j (CallAdvance p) = journal_advance j p"
| "journal_apply j (CallSettle r) = journal_settle j r"

text \<open>The journals that a sequence of accepted calls leads to.\<close>

inductive journal_run :: "apply_journal \<Rightarrow> journal_call list \<Rightarrow> apply_journal \<Rightarrow> bool" for j where
  start: "journal_run j [] j"
| call: "journal_run j cs j' \<Longrightarrow> journal_apply j' c = Inr j'' \<Longrightarrow> journal_run j (cs @ [c]) j''"

definition fresh_journal :: "apply_journal \<Rightarrow> bool" where
  "fresh_journal j \<longleftrightarrow> phase j = Reserved \<and> settled_from j = None \<and> journal_outcome j = None"

definition installed_in :: "journal_call list \<Rightarrow> apply_phase \<Rightarrow> bool" where
  "installed_in cs p \<longleftrightarrow> CallAdvance p \<in> set cs"

lemma rank_bound: "phase_rank p \<le> 10"
  by (cases p) simp_all

lemma rank_Settled: "phase_rank p = 10 \<longleftrightarrow> p = Settled"
  using phase_rank_inject [of p Settled] by simp

lemma journal_advance_InrD:
  "journal_advance j p = Inr j' \<Longrightarrow> phase j \<noteq> Settled \<and> p \<noteq> Settled \<and> phase_rank (phase j) < phase_rank p \<and> j' = j\<lparr>phase := p\<rparr>"
  by (auto simp: journal_advance_def can_advance_to_def split: if_splits)

lemma journal_settle_InrD:
  "journal_settle j r = Inr j' \<Longrightarrow> phase j \<noteq> Settled \<and> outcome_fits r (phase j) \<and>
     j' = j\<lparr>settled_from := Some (phase j), phase := Settled, journal_outcome := Some r\<rparr>"
  by (auto simp: journal_settle_def split: if_splits)

text \<open>
  The phases of a run: while unsettled, the phase is the last one advanced to and every earlier one is of
  smaller rank; a settled journal keeps the phase it settled from.
\<close>

definition journal_inv :: "journal_call list \<Rightarrow> apply_journal \<Rightarrow> bool" where
  "journal_inv cs j \<longleftrightarrow>
     (if phase j = Settled
      then (\<exists>from r. settled_from j = Some from \<and> journal_outcome j = Some r \<and> from \<noteq> Settled \<and> outcome_fits r from \<and>
             length cs \<le> Suc (phase_rank from) \<and> (from = Reserved \<or> CallAdvance from \<in> set cs) \<and>
             (\<forall>p. CallAdvance p \<in> set cs \<longrightarrow> phase_rank p \<le> phase_rank from))
      else settled_from j = None \<and> journal_outcome j = None \<and> length cs \<le> phase_rank (phase j) \<and>
           (phase j = Reserved \<or> CallAdvance (phase j) \<in> set cs) \<and>
           (\<forall>p. CallAdvance p \<in> set cs \<longrightarrow> phase_rank p \<le> phase_rank (phase j)))"

lemma journal_run_inv: "journal_run j cs j' \<Longrightarrow> fresh_journal j \<Longrightarrow> journal_inv cs j'"
proof (induction rule: journal_run.induct)
  case start
  then show ?case by (simp add: fresh_journal_def journal_inv_def)
next
  case (call cs j' c j'')
  then have inv: "journal_inv cs j'" by simp
  show ?case
  proof (cases c)
    case (CallAdvance p)
    then have a: "phase j' \<noteq> Settled" "p \<noteq> Settled" "phase_rank (phase j') < phase_rank p" "j'' = j'\<lparr>phase := p\<rparr>"
      using call.hyps(2) journal_advance_InrD by auto
    show ?thesis using inv a unfolding journal_inv_def CallAdvance by (auto intro: order_trans less_imp_le)
  next
    case (CallSettle r)
    then have a: "phase j' \<noteq> Settled" "outcome_fits r (phase j')"
      "j'' = j'\<lparr>settled_from := Some (phase j'), phase := Settled, journal_outcome := Some r\<rparr>"
      using call.hyps(2) journal_settle_InrD by auto
    show ?thesis using inv a unfolding journal_inv_def CallSettle by auto
  qed
qed

lemma journal_inv_validate: "journal_inv cs j \<Longrightarrow> journal_validate j = Inr ()"
  by (auto simp: journal_inv_def journal_validate_def split: if_splits option.splits)

lemma journal_inv_outcome:
  assumes "journal_inv cs j" and "journal_outcome j = Some r"
  obtains p0 where "outcome_fits r p0" "p0 = Reserved \<or> CallAdvance p0 \<in> set cs"
    "\<forall>p. CallAdvance p \<in> set cs \<longrightarrow> phase_rank p \<le> phase_rank p0"
  using assms unfolding journal_inv_def by (cases "phase j = Settled") auto

lemma journal_inv_applied:
  assumes "journal_inv cs j" and "journal_outcome j = Some ViewApplied"
  shows "\<exists>p. CallAdvance p \<in> set cs \<and> ManifestCommitted \<le> p"
proof -
  obtain p0 where p0: "outcome_fits ViewApplied p0" "p0 = Reserved \<or> CallAdvance p0 \<in> set cs"
    using assms by (rule journal_inv_outcome)
  then have "p0 \<noteq> Reserved" by (auto simp: outcome_fits_def)
  with p0 show ?thesis by (auto simp: outcome_fits_def phase_order_defs)
qed

lemma journal_inv_not_applied:
  assumes "journal_inv cs j" and "journal_outcome j \<in> {Some ViewFailed, Some ViewCanceled}"
  shows "\<forall>p. CallAdvance p \<in> set cs \<longrightarrow> p < NewInstalled"
proof -
  obtain r where r: "journal_outcome j = Some r" "r \<noteq> ViewApplied" using assms(2) by auto
  obtain p0 where p0: "outcome_fits r p0" "\<forall>p. CallAdvance p \<in> set cs \<longrightarrow> phase_rank p \<le> phase_rank p0"
    using assms(1) r(1) by (rule journal_inv_outcome)
  then have "phase_rank p0 < 6" using r(2) by (cases r) (simp_all add: outcome_fits_def)
  with p0(2) show ?thesis by (fastforce simp: phase_order_defs)
qed

text \<open>
  C15. Whatever is asked of a new journal, its accepted calls leave a valid journal and there are at most
  ten of them; a settled journal accepts nothing more. An Apply that ended applied has committed its
  manifest; one that ended failed or canceled never recorded that the new View was installed.
\<close>

theorem journal_moves_forward_and_settles_once:
  assumes "journal_run j cs j'" and "fresh_journal j"
  shows "journal_validate j' = Inr () \<and> length cs \<le> 10 \<and>
    (phase j' = Settled \<longrightarrow> (\<forall>c j''. journal_apply j' c \<noteq> Inr j'')) \<and>
    (journal_outcome j' = Some ViewApplied \<longrightarrow> (\<exists>p. CallAdvance p \<in> set cs \<and> ManifestCommitted \<le> p)) \<and>
    (journal_outcome j' \<in> {Some ViewFailed, Some ViewCanceled} \<longrightarrow> (\<forall>p. CallAdvance p \<in> set cs \<longrightarrow> p < NewInstalled))"
proof (intro conjI)
  have inv: "journal_inv cs j'" using journal_run_inv [OF assms] .
  show "journal_validate j' = Inr ()" using journal_inv_validate [OF inv] .
  show "length cs \<le> 10"
  proof (cases "phase j' = Settled")
    case True
    then obtain p0 where f: "p0 \<noteq> Settled" "length cs \<le> Suc (phase_rank p0)" using inv by (auto simp: journal_inv_def)
    then have "phase_rank p0 < 10" using rank_bound [of p0] rank_Settled [of p0] by linarith
    then show ?thesis using f by simp
  next
    case False
    then show ?thesis using inv rank_bound [of "phase j'"] by (auto simp: journal_inv_def)
  qed
  show "phase j' = Settled \<longrightarrow> (\<forall>c j''. journal_apply j' c \<noteq> Inr j'')"
  proof (intro impI allI)
    fix c j'' assume "phase j' = Settled"
    then show "journal_apply j' c \<noteq> Inr j''" by (cases c) (simp_all add: journal_advance_def journal_settle_def)
  qed
  show "journal_outcome j' = Some ViewApplied \<longrightarrow> (\<exists>p. CallAdvance p \<in> set cs \<and> ManifestCommitted \<le> p)"
    using journal_inv_applied [OF inv] by blast
  show "journal_outcome j' \<in> {Some ViewFailed, Some ViewCanceled} \<longrightarrow> (\<forall>p. CallAdvance p \<in> set cs \<longrightarrow> p < NewInstalled)"
    using journal_inv_not_applied [OF inv] by blast
qed

definition example_identity :: file_identity where
  "example_identity = \<lparr>on_volume = \<lparr>filesystem = ''ext4'', stable_id = Some ''u'', file_ids_stable = True,
     case_sensitivity = Sensitive, normalization = Sensitive\<rparr>, file_id = Some ''1''\<rparr>"

definition example_journal :: apply_journal where
  "example_journal = \<lparr>operation_id = 3, project_id = 1, journal_generation = 1, phase = Reserved, settled_from = None,
     journal_outcome = None, expected = \<lparr>root_path = ''/p'', root_identity = example_identity, expected_view = None,
       expected_building = None, expected_previous = None\<rparr>, stop = None\<rparr>"

theorem journal_moves_forward_and_settles_once_witness:
  "journal_validate (example_journal\<lparr>phase := Settled, settled_from := Some BuildVerified, journal_outcome := Some ViewFailed\<rparr>) = Inr ()"
proof -
  have "journal_run example_journal ([CallAdvance BuildVerified] @ [CallSettle ViewFailed])
      (example_journal\<lparr>phase := Settled, settled_from := Some BuildVerified, journal_outcome := Some ViewFailed\<rparr>)"
  proof (rule journal_run.call)
    show "journal_run example_journal [CallAdvance BuildVerified] (example_journal\<lparr>phase := BuildVerified\<rparr>)"
      using journal_run.call [OF journal_run.start, of example_journal "CallAdvance BuildVerified"]
      by (simp add: journal_advance_def example_journal_def can_advance_to_def)
  qed (simp add: journal_settle_def example_journal_def outcome_fits_def)
  moreover have "fresh_journal example_journal" by (simp add: fresh_journal_def example_journal_def)
  ultimately show ?thesis using journal_moves_forward_and_settles_once by blast
qed

section \<open>Closing a project and Wrap up\<close>

lemma lifecycle_transition_Inr: "lifecycle_transition l t = Inr l' \<longleftrightarrow> l' = t \<and> lifecycle_can_become l t"
  by (auto simp: lifecycle_transition_def)

lemma try_each_transition_Cons:
  "try_each lifecycle_transition l (t # ts) = Inr l' \<longleftrightarrow>
     lifecycle_can_become l t \<and> try_each lifecycle_transition t ts = Inr l'"
  by (simp add: lifecycle_transition_def)

lemma current_policy_moves:
  "lifecycle_can_become l t \<longleftrightarrow>
     (l = LifeOpen \<and> t \<in> {LifeClosing, LifeClosed}) \<or> (l = LifeClosing \<and> t \<in> {LifeClosed, LifeArchived})"
  by (cases l) (auto simp: lifecycle_can_become_def CURRENT_POLICY_def)

definition lifecycle_rank :: "project_lifecycle \<Rightarrow> nat" where
  "lifecycle_rank l = (case l of LifeOpen \<Rightarrow> 2 | LifeClosing \<Rightarrow> 1 | _ \<Rightarrow> 0)"

lemma can_become_rank: "lifecycle_can_become l t \<Longrightarrow> lifecycle_rank t < lifecycle_rank l"
  by (auto simp: current_policy_moves lifecycle_rank_def)

lemma lifecycle_run_length:
  "try_each lifecycle_transition l ts = Inr l' \<Longrightarrow> length ts + lifecycle_rank l' \<le> lifecycle_rank l"
proof (induction ts arbitrary: l)
  case (Cons t ts)
  then have "lifecycle_rank t < lifecycle_rank l" "length ts + lifecycle_rank l' \<le> lifecycle_rank t"
    unfolding try_each_transition_Cons by (auto intro: can_become_rank)
  then show ?case by simp
qed simp

lemma lifecycle_run_not_open:
  "try_each lifecycle_transition l ts = Inr l' \<Longrightarrow> ts \<noteq> [] \<Longrightarrow> l' \<noteq> LifeOpen"
proof (induction ts arbitrary: l)
  case (Cons t ts)
  then show ?case unfolding try_each_transition_Cons
    by (cases ts) (auto simp: current_policy_moves)
qed simp

text \<open>
  C21. A project changes its lifecycle at most twice, never back to open; once it left open it admits no
  operation but the archive transfer, and that only while it is closing.
\<close>

theorem closing_is_final:
  assumes "try_each lifecycle_transition l ts = Inr l'" and "ts \<noteq> []"
  shows "length ts \<le> 2 \<and> \<not> is_open l' \<and>
    (\<forall>k. admits_operation l' k = (l' = LifeClosing \<and> k = OpArchive)) \<and>
    (admits_operation l' OpArchive \<or> (\<forall>t. lifecycle_transition l' t = Inl (l', t)))"
proof -
  have "length ts \<le> lifecycle_rank l" using lifecycle_run_length [OF assms(1)] by simp
  also have "\<dots> \<le> 2" by (simp add: lifecycle_rank_def split: project_lifecycle.split)
  finally have "length ts \<le> 2" .
  moreover have "l' \<noteq> LifeOpen" using lifecycle_run_not_open [OF assms] .
  ultimately show ?thesis
    by (cases l') (auto simp: is_open_def admits_operation_def lifecycle_transition_def current_policy_moves)
qed

theorem closing_is_final_witness:
  "try_each lifecycle_transition LifeOpen [LifeClosing, LifeArchived] = Inr LifeArchived \<and>
   \<not> admits_operation LifeArchived OpArchive"
proof -
  have r: "try_each lifecycle_transition LifeOpen [LifeClosing, LifeArchived] = Inr LifeArchived"
    by (simp add: lifecycle_transition_def lifecycle_can_become_def CURRENT_POLICY_def)
  show ?thesis using closing_is_final [OF r] r by auto
qed

lemma wrap_step_runs:
  "try_each wrap_step_step {} rs = Inr s \<longleftrightarrow> distinct (map wrap_step rs) \<and> s = set (map wrap_step rs)"
proof -
  have "wrap_step_step s x = Inr s' \<longleftrightarrow> keyed (\<lambda>x. [wrap_step x]) (\<lambda>_. True) s x s'" for s x s'
    by (auto simp: wrap_step_step_def keyed_def)
  from try_each_runs [of wrap_step_step, OF this] show ?thesis by (simp add: runs_single_keys list_all_iff)
qed

lemma wrap_up_validate_all_iff:
  "wrap_up_validate_all rs = Inr () \<longleftrightarrow>
     distinct (map wrap_step rs) \<and>
     (StepTrash \<in> set (map wrap_step rs) \<longrightarrow> StepCleanUp \<in> set (map wrap_step rs)) \<and>
     (StepArchive \<in> set (map wrap_step rs) \<longrightarrow> StepTrash \<in> set (map wrap_step rs))"
  unfolding wrap_up_validate_all_def and_then_Inr_iff wrap_step_runs
  by (auto simp: WRAP_UP_ORDER_def split: option.splits if_splits)

lemma wrap_step_UNIV: "(UNIV :: wrap_up_step set) = set WRAP_UP_ORDER"
  using wrap_up_step.exhaust by (auto simp: WRAP_UP_ORDER_def)

text \<open>
  The records are accepted exactly when the recorded steps are, in some order, the first steps of
  Clean up, Trash, Archive, each once; Wrap up is complete exactly when they are all three.
\<close>

theorem wrap_up_records_are_a_prefix:
  "(wrap_up_validate_all records = Inr () \<longleftrightarrow>
      distinct (map wrap_step records) \<and>
      set (map wrap_step records) = set (take (length records) WRAP_UP_ORDER)) \<and>
   (wrap_up_complete records \<longleftrightarrow>
      distinct (map wrap_step records) \<and> set (map wrap_step records) = UNIV)"
proof -
  let ?S = "set (map wrap_step records)"
  have card: "distinct (map wrap_step records) \<Longrightarrow> length records = card ?S"
    by (metis distinct_card length_map)
  have prefix: "(StepTrash \<in> S \<longrightarrow> StepCleanUp \<in> S) \<and> (StepArchive \<in> S \<longrightarrow> StepTrash \<in> S) \<longleftrightarrow>
      S = set (take (card S) WRAP_UP_ORDER)" for S :: "wrap_up_step set"
  proof -
    have "S \<in> Pow (set WRAP_UP_ORDER)" using wrap_step_UNIV by auto
    then have "S \<in> {{}, {StepCleanUp}, {StepTrash}, {StepArchive}, {StepCleanUp, StepTrash},
        {StepCleanUp, StepArchive}, {StepTrash, StepArchive}, {StepCleanUp, StepTrash, StepArchive}}"
      unfolding WRAP_UP_ORDER_def by (simp add: Pow_insert) blast
    then show ?thesis by (elim insertE emptyE) (simp_all add: WRAP_UP_ORDER_def doubleton_eq_iff)
  qed
  have valid: "wrap_up_validate_all records = Inr () \<longleftrightarrow>
      distinct (map wrap_step records) \<and> ?S = set (take (length records) WRAP_UP_ORDER)"
    unfolding wrap_up_validate_all_iff using prefix [of ?S] card by auto
  have three: "?S = set WRAP_UP_ORDER \<Longrightarrow> distinct (map wrap_step records) \<Longrightarrow> length records = 3"
    using card by (simp add: WRAP_UP_ORDER_def)
  have order: "length WRAP_UP_ORDER = 3" by (simp add: WRAP_UP_ORDER_def)
  have "wrap_up_complete records \<longleftrightarrow> distinct (map wrap_step records) \<and> ?S = set WRAP_UP_ORDER"
    unfolding wrap_up_complete_def valid order using three by (metis order order_refl take_all)
  with valid show ?thesis unfolding wrap_step_UNIV by blast
qed

end
