(* ===== verification/Apply.thy ===== *)
theory Apply
  imports Journal
begin

text \<open>
  One Apply: it reserves the project, builds the new View beside the old one, swaps the folders and
  settles its journal; and the recovery of an Apply that was interrupted
  (\<open>crates/platevault-core/src/apply.rs\<close>, the swap of \<open>apply/files.rs\<close>, and the journal and manifest
  rows of \<open>crates/persistence/library/src/project_view.rs\<close> with the checks and triggers of
  \<open>project_view.sql\<close>).

  A project folder has three slots, \<open>View\<close>, \<open>View (building)\<close> and \<open>View (previous)\<close>; a folder is named
  by the generation of the Apply that made it, and an empty one that a rename left by no generation. What the environment decides is an answer by tick: whether
  a database call succeeds, what a rename says, whether a folder's identity can be read, cancel and
  interrupt requests, edits of the project by other tasks, and how the work on the files of a folder ends.
  A call that breaks off ends the run where it stands, and so stands for a crash, too.

  Of the database, the model has the phases, outcomes, stops, waits and reports of \<open>apply_operations\<close> with the
  checks between them and the trigger that lets a row only move forward, the states of \<open>view_manifests\<close> with
  their transitions and their keys of one manifest a state, and the operation that holds the project. The
  other columns, the foreign keys and the triggers that lock a closed project are not modelled, and neither
  are the tables of entries, leftovers, foreign files and kept moves that the same transactions write: where
  one of those refuses a statement, the transaction fails as a whole, which is one of the failures
  \<open>commits\<close> decides.
\<close>

section \<open>The world\<close>

datatype slot = SlotView | SlotBuilding | SlotPrevious

type_synonym folder = revision

record apply_row =
  row_journal :: apply_journal
  waiting_held :: bool
  row_report :: bool

record world =
  disk :: "slot \<Rightarrow> folder option"
  apply_row :: "apply_row option"
  manifests :: "(revision \<times> manifest_state) list"
  active_operation :: "uuid option"
  run_journal :: apply_journal
  building_made :: bool
  tick :: nat

text \<open>The part of \<open>ApplyInputs\<close> that an Apply compares: the project's revision, the digest, and what it
  plans from.\<close>

record project_edit =
  edit_revision :: revision
  edit_digest :: opaque
  edit_basis :: opaque
  edit_corrected :: opaque
  edit_not_ready :: opaque

record apply_inputs =
  inputs_edit :: project_edit
  installed_generation :: "revision option"
  previous_generation :: "revision option"
  running :: "uuid option"

record os_error =
  raw_os_error :: "int option"
  resource_busy :: bool

datatype rename_answer = Granted | RenameError os_error

datatype call_answer = CallMade | CallError os_error | CallKilled

record apply_env =
  identify :: "folder \<Rightarrow> file_identity"
  root_identity_at :: "nat \<Rightarrow> file_identity option"
  observable :: "nat \<Rightarrow> bool"
  commits :: "nat \<Rightarrow> bool"
  renames :: "nat \<Rightarrow> rename_answer"
  lacks_noreplace :: bool
  calls :: "nat \<Rightarrow> call_answer"
  windows :: bool
  project_path :: string
  canceled_at :: "nat \<Rightarrow> bool"
  interrupted_at :: "nat \<Rightarrow> bool"
  edits :: "nat \<Rightarrow> project_edit"
  blocked_at :: "nat \<Rightarrow> bool"
  previous_empty :: "nat \<Rightarrow> bool"
  operation_ids :: "nat \<Rightarrow> uuid"
  source_failures :: "nat \<Rightarrow> nat"
  unproven_files :: "nat \<Rightarrow> nat"
  folder_emptied :: "nat \<Rightarrow> bool"
  creates :: "nat \<Rightarrow> bool"
  plan_entries :: nat
  placed_at :: "nat \<Rightarrow> bool"
  build_failures :: "nat \<Rightarrow> nat"
  unreadable_entries :: "nat \<Rightarrow> nat"
  kept_stop :: "nat \<Rightarrow> apply_stop option"
  kept_failures :: "nat \<Rightarrow> nat"
  poll_limit :: nat

datatype apply_error =
    DatabaseFailed
  | SchemaRefused
  | SheetOutdated
  | Blocked
  | FolderFailed
  | InstallNotRestored
  | WaitNotRestored
  | RecoveryStuck
  | KilledWhileWaiting
  | KilledInRename

section \<open>Steps\<close>

datatype 'a ended = Done 'a | Broke apply_error

type_synonym 'a act = "world \<Rightarrow> 'a ended \<times> world"

definition m_ret :: "'a \<Rightarrow> 'a act" where
  "m_ret a w = (Done a, w)"

definition m_fail :: "apply_error \<Rightarrow> 'a act" where
  "m_fail e w = (Broke e, w)"

definition m_bind :: "'a act \<Rightarrow> ('a \<Rightarrow> 'b act) \<Rightarrow> 'b act" where
  "m_bind m f w = (case m w of (Done a, w') \<Rightarrow> f a w' | (Broke e, w') \<Rightarrow> (Broke e, w'))"

definition m_get :: "(world \<Rightarrow> 'a) \<Rightarrow> 'a act" where
  "m_get f w = (Done (f w), w)"

definition m_modify :: "(world \<Rightarrow> world) \<Rightarrow> unit act" where
  "m_modify f w = (Done (), f w)"

definition ask :: "(nat \<Rightarrow> 'a) \<Rightarrow> 'a act" where
  "ask f w = (Done (f (tick w)), w\<lparr>tick := Suc (tick w)\<rparr>)"

text \<open>
  A write transaction: it fails as a whole where the database fails or the schema refuses a statement.
\<close>

definition transaction :: "apply_env \<Rightarrow> (world \<Rightarrow> world option) \<Rightarrow> unit act" where
  "transaction \<E> f w =
    (let w' = w\<lparr>tick := Suc (tick w)\<rparr> in
     if \<not> commits \<E> (tick w) then (Broke DatabaseFailed, w')
     else case f w' of None \<Rightarrow> (Broke SchemaRefused, w') | Some w'' \<Rightarrow> (Done (), w''))"

section \<open>The rows of the database\<close>

text \<open>The checks of \<open>apply_operations\<close> and its trigger: forward only, and never once settled.\<close>

definition row_checks :: "apply_row \<Rightarrow> bool" where
  "row_checks r \<longleftrightarrow>
    (let j = row_journal r; settled = (phase j = Settled) in
       settled_from j \<noteq> Some Settled \<and>
       settled = (journal_outcome j \<noteq> None) \<and>
       settled = (settled_from j \<noteq> None) \<and>
       (journal_outcome j = Some ViewApplied \<longrightarrow>
          settled_from j \<in> {Some ManifestCommitted, Some ForeignTransferred, Some RetiringPrevious}) \<and>
       (journal_outcome j \<in> {Some ViewFailed, Some ViewCanceled} \<longrightarrow>
          settled_from j \<in> {Some Reserved, Some SourcesVerified, Some BuildingPhase, Some BuildVerified,
            Some WaitingForRelease, Some OldMoved}) \<and>
       (stop j \<noteq> None) = (journal_outcome j \<noteq> None \<and> journal_outcome j \<noteq> Some ViewApplied) \<and>
       (stop j \<noteq> None \<longrightarrow> (stop j = Some StopCanceled) = (journal_outcome j = Some ViewCanceled)) \<and>
       (waiting_held r \<longrightarrow> phase j = BuildVerified) \<and>
       settled = row_report r)"

definition row_forward :: "apply_row \<Rightarrow> apply_row \<Rightarrow> bool" where
  "row_forward old new \<longleftrightarrow>
     phase (row_journal old) \<noteq> Settled \<and>
     operation_id (row_journal new) = operation_id (row_journal old) \<and>
     project_id (row_journal new) = project_id (row_journal old) \<and>
     journal_generation (row_journal new) = journal_generation (row_journal old) \<and>
     phase_rank (phase (row_journal new)) \<ge> phase_rank (phase (row_journal old))"

definition update_row :: "(apply_row \<Rightarrow> apply_row) \<Rightarrow> apply_row \<Rightarrow> apply_row option" where
  "update_row f r = (if row_forward r (f r) \<and> row_checks (f r) then Some (f r) else None)"

text \<open>The rows named by an operation id; \<open>None\<close> where no row has it and the statement must find one.\<close>

definition with_row :: "uuid \<Rightarrow> (apply_row \<Rightarrow> apply_row) \<Rightarrow> world \<Rightarrow> world option" where
  "with_row op f w =
    (case apply_row w of
       None \<Rightarrow> None
     | Some r \<Rightarrow>
         (if operation_id (row_journal r) \<noteq> op then None
          else case update_row f r of None \<Rightarrow> None | Some r' \<Rightarrow> Some (w\<lparr>apply_row := Some r'\<rparr>)))"

definition row_advanced :: "apply_phase \<Rightarrow> expected_tree option \<Rightarrow> apply_row \<Rightarrow> apply_row" where
  "row_advanced p e r =
     r\<lparr>row_journal := (row_journal r)\<lparr>phase := p,
         expected := (case e of None \<Rightarrow> expected (row_journal r) | Some e \<Rightarrow> e)\<rparr>,
       waiting_held := False\<rparr>"

definition db_advance :: "uuid \<Rightarrow> apply_phase \<Rightarrow> expected_tree option \<Rightarrow> world \<Rightarrow> world option" where
  "db_advance op p e = with_row op (row_advanced p e)"

definition row_settled :: "view_outcome \<Rightarrow> apply_stop option \<Rightarrow> apply_row \<Rightarrow> apply_row" where
  "row_settled r st row =
     row\<lparr>row_journal := (row_journal row)\<lparr>settled_from := Some (phase (row_journal row)), phase := Settled,
           journal_outcome := Some r, stop := st\<rparr>,
         waiting_held := False, row_report := True\<rparr>"

text \<open>A row that is settled already is not matched, and the statement succeeds.\<close>

definition settle_journal_row :: "uuid \<Rightarrow> view_outcome \<Rightarrow> apply_stop option \<Rightarrow> world \<Rightarrow> world option" where
  "settle_journal_row op r st w =
    (case apply_row w of
       Some row \<Rightarrow>
         (if operation_id (row_journal row) = op \<and> phase (row_journal row) \<noteq> Settled
          then with_row op (row_settled r st) w else Some w)
     | None \<Rightarrow> Some w)"

definition settle_operation :: "uuid \<Rightarrow> world \<Rightarrow> world option" where
  "settle_operation op w =
    (if active_operation w \<noteq> Some op then None
     else if (case apply_row w of None \<Rightarrow> False
              | Some r \<Rightarrow> operation_id (row_journal r) = op \<and> phase (row_journal r) \<noteq> Settled) then None
     else Some (w\<lparr>active_operation := None\<rparr>))"

text \<open>The manifests of the project: at most one in each of the states that own a folder.\<close>

definition states_unique :: "(revision \<times> manifest_state) list \<Rightarrow> bool" where
  "states_unique ms \<longleftrightarrow>
     list_all (\<lambda>s. length (filter (\<lambda>m. snd m = s) ms) \<le> 1) [M_Building, M_Installed, M_Previous]"

definition set_states ::
  "(revision \<times> manifest_state \<Rightarrow> bool) \<Rightarrow> manifest_state \<Rightarrow> world \<Rightarrow> world option" where
  "set_states P s w =
    (let ms = map (\<lambda>m. if P m then (fst m, s) else m) (manifests w) in
     if list_all (\<lambda>m. P m \<longrightarrow> snd m = s \<or> manifest_can_become (snd m) s) (manifests w) \<and> states_unique ms
     then Some (w\<lparr>manifests := ms\<rparr>) else None)"

definition set_manifest_state :: "revision \<Rightarrow> manifest_state \<Rightarrow> world \<Rightarrow> world option" where
  "set_manifest_state g s = set_states (\<lambda>m. fst m = g) s"

definition retire_previous :: "world \<Rightarrow> world option" where
  "retire_previous = set_states (\<lambda>m. snd m = M_Previous) M_Retired"

definition generation_in :: "manifest_state \<Rightarrow> (revision \<times> manifest_state) list \<Rightarrow> revision option" where
  "generation_in s ms = map_option fst (find (\<lambda>m. snd m = s) ms)"

definition opt_then :: "world option \<Rightarrow> (world \<Rightarrow> world option) \<Rightarrow> world option" where
  "opt_then o' f = (case o' of None \<Rightarrow> None | Some w \<Rightarrow> f w)"

definition discard_apply :: "apply_journal \<Rightarrow> view_outcome \<Rightarrow> apply_stop \<Rightarrow> world \<Rightarrow> world option" where
  "discard_apply j r st w =
     opt_then (set_manifest_state (journal_generation j) M_Discarded w) (\<lambda>w.
     opt_then (settle_journal_row (operation_id j) r (Some st) w) (settle_operation (operation_id j)))"

definition commit_apply :: "apply_journal \<Rightarrow> world \<Rightarrow> world option" where
  "commit_apply j w =
     opt_then (set_states (\<lambda>m. snd m = M_Installed) M_Previous w) (\<lambda>w.
     opt_then (set_manifest_state (journal_generation j) M_Installed w)
       (db_advance (operation_id j) ManifestCommitted None))"

definition settle_apply :: "apply_journal \<Rightarrow> bool \<Rightarrow> world \<Rightarrow> world option" where
  "settle_apply j previous_gone w =
     opt_then (if previous_gone then retire_previous w else Some w) (\<lambda>w.
     opt_then (settle_journal_row (operation_id j) ViewApplied None w) (settle_operation (operation_id j)))"

definition record_apply_wait :: "uuid \<Rightarrow> world \<Rightarrow> world option" where
  "record_apply_wait op w =
    (case apply_row w of
       None \<Rightarrow> None
     | Some r \<Rightarrow>
         (if phase (row_journal r) \<noteq> BuildVerified then None
          else with_row op (\<lambda>r. r\<lparr>waiting_held := True\<rparr>) w))"

text \<open>The inputs as one read snapshot sees them.\<close>

definition read_inputs :: "apply_env \<Rightarrow> apply_inputs act" where
  "read_inputs \<E> w =
    (let w' = w\<lparr>tick := Suc (tick w)\<rparr> in
     if commits \<E> (tick w)
     then (Done \<lparr>inputs_edit = edits \<E> (tick w), installed_generation = generation_in M_Installed (manifests w),
            previous_generation = generation_in M_Previous (manifests w), running = active_operation w\<rparr>, w')
     else (Broke DatabaseFailed, w'))"

record apply_reservation =
  reserve_project :: uuid
  reserve_revision :: revision
  reserve_digest :: opaque
  reserve_expected :: expected_tree
  previous_gone :: bool

text \<open>
  \<open>reserve\<close> inside its transaction; other tasks may have edited the project since the sheet was read. The
  journal of an earlier Apply is settled once its operation is, and only the latest is kept here.
\<close>

definition highest_generation :: "(revision \<times> manifest_state) list \<Rightarrow> revision" where
  "highest_generation ms = Max (insert 0 (set (map fst ms)))"

definition reserve_row :: "apply_reservation \<Rightarrow> uuid \<Rightarrow> world \<Rightarrow> world option" where
  "reserve_row rv op w =
    (if active_operation w \<noteq> None then None
     else opt_then (if previous_gone rv then retire_previous w else Some w) (\<lambda>w.
       let g = highest_generation (manifests w) + 1;
           ms = manifests w @ [(g, M_Building)];
           j = \<lparr>operation_id = op, project_id = reserve_project rv, journal_generation = g, phase = Reserved,
                settled_from = None, journal_outcome = None, expected = reserve_expected rv, stop = None\<rparr>
       in if \<not> states_unique ms then None
          else Some (w\<lparr>manifests := ms, active_operation := Some op,
            apply_row := Some \<lparr>row_journal = j, waiting_held = False, row_report = False\<rparr>\<rparr>)))"

definition reserve_apply :: "apply_env \<Rightarrow> apply_reservation \<Rightarrow> unit act" where
  "reserve_apply \<E> rv w =
    (let e = edits \<E> (tick w) in
     if commits \<E> (tick w) \<and> (edit_revision e \<noteq> reserve_revision rv \<or> edit_digest e \<noteq> reserve_digest rv)
     then (Broke SheetOutdated, w\<lparr>tick := Suc (tick w)\<rparr>)
     else transaction \<E> (reserve_row rv (operation_ids \<E> (tick w))) w)"

section \<open>The folders\<close>

definition held_by_a_tool :: "bool \<Rightarrow> os_error \<Rightarrow> bool" where
  "held_by_a_tool win e \<longleftrightarrow> (win \<and> raw_os_error e \<in> {Some 5, Some 32, Some 33}) \<or> resource_busy e"

text \<open>
  A rename that never replaces. Where the volume can do it, it is one step: where the source is missing or the
  destination is taken it fails, with an error of the system that is not the one of a folder in use. Where
  the volume has no such rename, \<open>mkdir\<close> claims the destination, and the folder is renamed over the empty
  placeholder this made. Each of those calls may fail, or be the last one of the process; a failed rename
  removes the placeholder, where it can. Windows always has the rename.
\<close>

definition rename_error :: os_error where
  "rename_error = \<lparr>raw_os_error = None, resource_busy = False\<rparr>"

definition falls_back :: "apply_env \<Rightarrow> bool" where
  "falls_back \<E> \<longleftrightarrow> lacks_noreplace \<E> \<and> \<not> windows \<E>"

text \<open>Generations count from 1; an empty folder that a rename made is none of them.\<close>

definition placeholder :: folder where
  "placeholder = 0"

definition os_call :: "apply_env \<Rightarrow> (world \<Rightarrow> os_error + world) \<Rightarrow> (os_error + unit) act" where
  "os_call \<E> f w =
    (let w' = w\<lparr>tick := Suc (tick w)\<rparr> in
     case calls \<E> (tick w) of
       CallKilled \<Rightarrow> (Broke KilledInRename, w')
     | CallError e \<Rightarrow> (Done (Inl e), w')
     | CallMade \<Rightarrow> (case f w' of Inl e \<Rightarrow> (Done (Inl e), w') | Inr w'' \<Rightarrow> (Done (Inr ()), w'')))"

definition or_error :: "(os_error + unit) act \<Rightarrow> (os_error + unit) act \<Rightarrow> (os_error + unit) act" where
  "or_error m n = m_bind m (\<lambda>r. case r of Inl e \<Rightarrow> m_ret (Inl e) | Inr _ \<Rightarrow> n)"

definition create_folder :: "slot \<Rightarrow> folder \<Rightarrow> world \<Rightarrow> os_error + world" where
  "create_folder s f w =
    (if disk w s \<noteq> None then Inl rename_error else Inr (w\<lparr>disk := (disk w)(s := Some f)\<rparr>))"

text \<open>The rename of the system replaces an empty folder, and no other.\<close>

definition rename_over :: "slot \<Rightarrow> slot \<Rightarrow> world \<Rightarrow> os_error + world" where
  "rename_over a b w =
    (if disk w a = None \<or> disk w b \<notin> {None, Some placeholder} then Inl rename_error
     else Inr (w\<lparr>disk := (disk w)(a := None, b := disk w a)\<rparr>))"

definition remove_empty :: "slot \<Rightarrow> world \<Rightarrow> os_error + world" where
  "remove_empty s w =
    (if disk w s \<noteq> Some placeholder then Inl rename_error else Inr (w\<lparr>disk := (disk w)(s := None)\<rparr>))"

definition holds_placeholder :: "slot \<Rightarrow> world \<Rightarrow> os_error + world" where
  "holds_placeholder s w = (if disk w s = Some placeholder then Inr w else Inl rename_error)"

text \<open>
  A failed rename lists the placeholder, compares it with the handle on it, and removes it; what becomes of
  that is not reported. The error is the one of the rename; its kind and text are not modelled.
\<close>

definition rename_over_placeholder :: "apply_env \<Rightarrow> slot \<Rightarrow> slot \<Rightarrow> (os_error + unit) act" where
  "rename_over_placeholder \<E> a b =
     m_bind (os_call \<E> (rename_over a b)) (\<lambda>r.
       case r of
         Inr _ \<Rightarrow> m_ret (Inr ())
       | Inl e \<Rightarrow>
           m_bind (or_error (os_call \<E> (holds_placeholder b))
                  (or_error (os_call \<E> (holds_placeholder b)) (os_call \<E> (remove_empty b))))
             (\<lambda>_. m_ret (Inl e)))"

definition claim_and_rename :: "apply_env \<Rightarrow> slot \<Rightarrow> slot \<Rightarrow> (os_error + unit) act" where
  "claim_and_rename \<E> a b =
     or_error (os_call \<E> (\<lambda>w. if disk w a = None then Inl rename_error else Inr w))
    (or_error (os_call \<E> (create_folder b placeholder))
    (or_error (os_call \<E> (holds_placeholder b))
       (rename_over_placeholder \<E> a b)))"

definition rename_at_once :: "slot \<Rightarrow> slot \<Rightarrow> (os_error + unit) act" where
  "rename_at_once a b w =
    (if disk w a = None \<or> disk w b \<noteq> None then (Done (Inl rename_error), w)
     else (Done (Inr ()), w\<lparr>disk := (disk w)(a := None, b := disk w a)\<rparr>))"

definition rename_noreplace :: "apply_env \<Rightarrow> slot \<Rightarrow> slot \<Rightarrow> (os_error + unit) act" where
  "rename_noreplace \<E> a b =
     m_bind (ask (renames \<E>)) (\<lambda>answer.
       case answer of
         RenameError e \<Rightarrow> m_ret (Inl e)
       | Granted \<Rightarrow> (if falls_back \<E> then claim_and_rename \<E> a b else rename_at_once a b))"

text \<open>
  \<open>observe_folder_identity\<close>: no identity where there is no folder or it cannot be read. A folder whose
  \<open>symlink_metadata\<close> fails, for whatever reason, is taken for absent.
\<close>

definition observe_folder_identity :: "apply_env \<Rightarrow> slot \<Rightarrow> file_identity option act" where
  "observe_folder_identity \<E> s w =
    (Done (if observable \<E> (tick w) then map_option (identify \<E>) (disk w s) else None),
     w\<lparr>tick := Suc (tick w)\<rparr>)"

definition slot_is :: "apply_env \<Rightarrow> slot \<Rightarrow> file_identity option \<Rightarrow> bool act" where
  "slot_is \<E> s i =
    (case i of
       None \<Rightarrow> m_ret False
     | Some recorded \<Rightarrow>
         m_bind (observe_folder_identity \<E> s) (\<lambda>seen.
           m_ret (case seen of None \<Rightarrow> False | Some observed \<Rightarrow> is_recorded observed recorded)))"

definition slot_there :: "apply_env \<Rightarrow> slot \<Rightarrow> bool act" where
  "slot_there \<E> s = m_bind (ask (observable \<E>)) (\<lambda>answers. m_get (\<lambda>w. answers \<and> disk w s \<noteq> None))"

text \<open>Emptying a folder removes it, unless the system keeps it; a folder that is not there stays so.\<close>

definition empty_slot :: "apply_env \<Rightarrow> slot \<Rightarrow> unit act" where
  "empty_slot \<E> s =
     m_bind (ask (folder_emptied \<E>)) (\<lambda>gone.
       m_modify (\<lambda>w. if gone then w\<lparr>disk := (disk w)(s := None)\<rparr> else w))"

definition clear_building :: "apply_env \<Rightarrow> nat act" where
  "clear_building \<E> =
     m_bind (ask (unproven_files \<E>)) (\<lambda>k.
       if k = 0 then m_bind (empty_slot \<E> SlotBuilding) (\<lambda>_. m_ret 0) else m_ret k)"

section \<open>One Apply\<close>

definition advance :: "apply_env \<Rightarrow> apply_phase \<Rightarrow> expected_tree option \<Rightarrow> unit act" where
  "advance \<E> p e =
     m_bind (m_get run_journal) (\<lambda>j.
     m_bind (transaction \<E> (db_advance (operation_id j) p e)) (\<lambda>_.
     m_modify (\<lambda>w. w\<lparr>run_journal := j\<lparr>phase := p,
       expected := (case e of None \<Rightarrow> expected j | Some e \<Rightarrow> e)\<rparr>\<rparr>)))"

text \<open>The outcome a run reports; \<open>None\<close> where it was interrupted and the journal stays unsettled.\<close>

type_synonym report = "view_outcome option"

definition end_apply :: "apply_env \<Rightarrow> apply_stop \<Rightarrow> report act" where
  "end_apply \<E> st =
     m_bind (m_get building_made) (\<lambda>made.
     m_bind (if stop_outcome st = ViewCanceled \<and> made then clear_building \<E> else m_ret 0) (\<lambda>_.
     m_bind (m_get run_journal) (\<lambda>j.
     m_bind (m_modify (\<lambda>w. w\<lparr>run_journal := j\<lparr>stop := Some st\<rparr>\<rparr>)) (\<lambda>_.
     m_bind (transaction \<E> (discard_apply j (stop_outcome st) st)) (\<lambda>_.
     m_ret (Some (stop_outcome st)))))))"

definition cancel :: "apply_env \<Rightarrow> report act" where
  "cancel \<E> = end_apply \<E> StopCanceled"

definition unless_interrupted :: "apply_env \<Rightarrow> report act \<Rightarrow> report act" where
  "unless_interrupted \<E> m = m_bind (ask (interrupted_at \<E>)) (\<lambda>i. if i then m_ret None else m)"

record reserved =
  reserved_revision :: revision
  reserved_basis_digest :: opaque
  reserved_generation :: "revision option"

definition reserved_of :: "apply_inputs \<Rightarrow> apply_inputs \<Rightarrow> reserved option" where
  "reserved_of b a =
    (let eb = inputs_edit b; ea = inputs_edit a in
     if edit_revision ea = edit_revision eb \<and> edit_basis ea = edit_basis eb \<and>
        edit_corrected ea = edit_corrected eb \<and> edit_not_ready ea = edit_not_ready eb \<and>
        installed_generation a = installed_generation b
     then Some \<lparr>reserved_revision = edit_revision ea, reserved_basis_digest = edit_digest ea,
                reserved_generation = installed_generation a\<rparr>
     else None)"

definition reserved_holds :: "reserved \<Rightarrow> apply_inputs \<Rightarrow> uuid \<Rightarrow> bool" where
  "reserved_holds r now op \<longleftrightarrow>
     edit_revision (inputs_edit now) = reserved_revision r \<and>
     edit_digest (inputs_edit now) = reserved_basis_digest r \<and>
     installed_generation now = reserved_generation r \<and> running now = Some op"

definition still_reserved :: "apply_env \<Rightarrow> reserved \<Rightarrow> bool act" where
  "still_reserved \<E> r =
     m_bind (read_inputs \<E>) (\<lambda>now. m_bind (m_get run_journal) (\<lambda>j. m_ret (reserved_holds r now (operation_id j))))"

section \<open>Moving the old View aside\<close>

datatype aside = AsideMoved | AsideCanceled | AsideRefused

datatype attempt = AttemptEnded aside | Held

definition move_aside :: "apply_env \<Rightarrow> attempt act" where
  "move_aside \<E> =
     m_bind (rename_noreplace \<E> SlotView SlotPrevious) (\<lambda>r.
       m_ret (case r of
          Inr _ \<Rightarrow> AttemptEnded AsideMoved
        | Inl e \<Rightarrow> (if held_by_a_tool (windows \<E>) e then Held else AttemptEnded AsideRefused)))"

text \<open>
  The wait has no limit of its own; the run is killed after some number of polls, which any number can be.
\<close>

fun wait_aside :: "apply_env \<Rightarrow> nat \<Rightarrow> aside act" where
  "wait_aside \<E> 0 = m_fail KilledWhileWaiting"
| "wait_aside \<E> (Suc n) =
     m_bind (ask (canceled_at \<E>)) (\<lambda>c. if c then m_ret AsideCanceled else
     m_bind (ask (canceled_at \<E>)) (\<lambda>c. if c then m_ret AsideCanceled else
     m_bind (move_aside \<E>) (\<lambda>a.
       case a of AttemptEnded r \<Rightarrow> m_ret r | Held \<Rightarrow> wait_aside \<E> n)))"

definition move_old_view_aside :: "apply_env \<Rightarrow> (aside \<times> bool) act" where
  "move_old_view_aside \<E> =
     m_bind (move_aside \<E>) (\<lambda>a.
       case a of
         AttemptEnded r \<Rightarrow> m_ret (r, False)
       | Held \<Rightarrow>
           m_bind (m_get run_journal) (\<lambda>j.
           m_bind (transaction \<E> (record_apply_wait (operation_id j))) (\<lambda>_.
           m_bind (wait_aside \<E> (poll_limit \<E>)) (\<lambda>r. m_ret (r, True)))))"

definition restore_old_view :: "apply_env \<Rightarrow> (os_error + unit) act" where
  "restore_old_view \<E> = rename_noreplace \<E> SlotPrevious SlotView"

definition after_wait :: "apply_env \<Rightarrow> reserved \<Rightarrow> report option act" where
  "after_wait \<E> r =
     m_bind (advance \<E> WaitingForRelease None) (\<lambda>_.
     m_bind (still_reserved \<E> r) (\<lambda>ok.
       if ok then m_bind (advance \<E> OldMoved None) (\<lambda>_. m_ret None)
       else m_bind (restore_old_view \<E>) (\<lambda>restored.
         case restored of
           Inl _ \<Rightarrow> m_fail WaitNotRestored
         | Inr _ \<Rightarrow> m_bind (end_apply \<E> CatalogMoved) (\<lambda>rep. m_ret (Some rep)))))"

definition set_old_view_aside :: "apply_env \<Rightarrow> reserved \<Rightarrow> report option act" where
  "set_old_view_aside \<E> r =
     m_bind (move_old_view_aside \<E>) (\<lambda>(a, waited).
       case a of
         AsideMoved \<Rightarrow>
           (if waited then after_wait \<E> r
            else m_bind (advance \<E> OldMoved None) (\<lambda>_. m_ret None))
       | AsideCanceled \<Rightarrow> m_bind (cancel \<E>) (\<lambda>rep. m_ret (Some rep))
       | AsideRefused \<Rightarrow> m_bind (end_apply \<E> AsideFailed) (\<lambda>rep. m_ret (Some rep)))"

section \<open>Making way\<close>

text \<open>
  The kept files leave the previous View one by one; how that ends is the environment's: a stop before
  anything moved, or the number of files that could not move.
\<close>

definition clear_previous :: "apply_env \<Rightarrow> bool act" where
  "clear_previous \<E> =
     m_bind (empty_slot \<E> SlotPrevious) (\<lambda>_.
     m_bind (slot_there \<E> SlotPrevious) (\<lambda>there. m_ret (\<not> there)))"

definition kept_moved :: "apply_env \<Rightarrow> nat \<Rightarrow> apply_stop option act" where
  "kept_moved \<E> failed =
     m_bind (clear_previous \<E>) (\<lambda>gone.
       if failed \<noteq> 0 then m_ret (Some (KeptNotMoved failed))
       else if gone then m_bind (transaction \<E> retire_previous) (\<lambda>_. m_ret None)
       else m_ret None)"

definition move_kept :: "apply_env \<Rightarrow> apply_stop option act" where
  "move_kept \<E> =
     m_bind (ask (kept_stop \<E>)) (\<lambda>st.
       case st of
         Some s \<Rightarrow> m_ret (Some s)
       | None \<Rightarrow>
           m_bind (transaction \<E> Some) (\<lambda>_.
           m_bind (ask (kept_failures \<E>)) (kept_moved \<E>)))"

definition make_way :: "apply_env \<Rightarrow> bool \<Rightarrow> apply_stop option act" where
  "make_way \<E> old =
     m_bind (move_kept \<E>) (\<lambda>st.
       case st of
         Some s \<Rightarrow> m_ret (Some s)
       | None \<Rightarrow>
           (if old then m_ret None
            else m_bind (slot_there \<E> SlotPrevious) (\<lambda>there. m_ret (if there then Some PreviousAppeared else None))))"

definition root_is :: "apply_env \<Rightarrow> file_identity \<Rightarrow> bool act" where
  "root_is \<E> recorded =
     m_bind (ask (root_identity_at \<E>)) (\<lambda>seen.
       m_ret (case seen of None \<Rightarrow> False | Some observed \<Rightarrow> is_recorded observed recorded))"

definition swap_ready :: "apply_env \<Rightarrow> expected_tree \<Rightarrow> apply_stop option act" where
  "swap_ready \<E> e =
     m_bind (root_is \<E> (root_identity e)) (\<lambda>same. if \<not> same then m_ret (Some ProjectFolderReplaced) else
     m_bind (slot_is \<E> SlotView (expected_view e)) (\<lambda>same. if \<not> same then m_ret (Some ViewReplaced) else
     m_bind (slot_there \<E> SlotPrevious) (\<lambda>there. m_ret (if there then Some PreviousAppeared else None))))"

section \<open>Finishing an installed View\<close>

definition settle_installed :: "apply_env \<Rightarrow> bool \<Rightarrow> report act" where
  "settle_installed \<E> gone =
     m_bind (m_get run_journal) (\<lambda>j.
     m_bind (transaction \<E> (settle_apply j gone)) (\<lambda>_. m_ret (Some ViewApplied)))"

definition retire_old :: "apply_env \<Rightarrow> report act" where
  "retire_old \<E> =
     m_bind (empty_slot \<E> SlotPrevious) (\<lambda>_.
     m_bind (slot_there \<E> SlotPrevious) (\<lambda>there. settle_installed \<E> (\<not> there)))"

definition retire_and_settle :: "apply_env \<Rightarrow> apply_inputs \<Rightarrow> report act" where
  "retire_and_settle \<E> inputs =
     (case previous_generation inputs of
        None \<Rightarrow> settle_installed \<E> True
      | Some _ \<Rightarrow>
          m_bind (m_get (phase \<circ> run_journal)) (\<lambda>p.
            if before p RetiringPrevious
            then m_bind (advance \<E> RetiringPrevious None) (\<lambda>_. unless_interrupted \<E> (retire_old \<E>))
            else retire_old \<E>))"

text \<open>The ticked foreign files move into the new View, each move claimed and recorded in the database.\<close>

definition transfer_foreign :: "apply_env \<Rightarrow> report act" where
  "transfer_foreign \<E> =
     m_bind (read_inputs \<E>) (\<lambda>inputs.
     m_bind (transaction \<E> Some) (\<lambda>_.
     m_bind (m_get (phase \<circ> run_journal)) (\<lambda>p.
       if before p ForeignTransferred
       then m_bind (transaction \<E> Some) (\<lambda>_.
            m_bind (advance \<E> ForeignTransferred None) (\<lambda>_.
            unless_interrupted \<E> (retire_and_settle \<E> inputs)))
       else retire_and_settle \<E> inputs)))"

definition finish_installed :: "apply_env \<Rightarrow> report act" where
  "finish_installed \<E> =
     m_bind (m_get run_journal) (\<lambda>j.
       if before (phase j) ManifestCommitted
       then m_bind (transaction \<E> (commit_apply j)) (\<lambda>_.
            m_bind (m_modify (\<lambda>w. w\<lparr>run_journal := j\<lparr>phase := ManifestCommitted\<rparr>\<rparr>)) (\<lambda>_.
            unless_interrupted \<E> (transfer_foreign \<E>)))
       else transfer_foreign \<E>)"

section \<open>The swap\<close>

definition install_refused :: "apply_env \<Rightarrow> bool \<Rightarrow> report act" where
  "install_refused \<E> old =
     (if old
      then m_bind (restore_old_view \<E>) (\<lambda>restored.
             case restored of
               Inl _ \<Rightarrow> m_fail InstallNotRestored
             | Inr _ \<Rightarrow> end_apply \<E> NotInstalledStop)
      else end_apply \<E> NotInstalledStop)"

definition install :: "apply_env \<Rightarrow> bool \<Rightarrow> report act" where
  "install \<E> old =
     m_bind (rename_noreplace \<E> SlotBuilding SlotView) (\<lambda>r.
       case r of
         Inl _ \<Rightarrow> install_refused \<E> old
       | Inr _ \<Rightarrow>
           m_bind (advance \<E> NewInstalled None) (\<lambda>_. unless_interrupted \<E> (finish_installed \<E>)))"

definition install_after :: "apply_env \<Rightarrow> report option \<Rightarrow> report act" where
  "install_after \<E> stopped =
     (case stopped of Some rep \<Rightarrow> m_ret rep | None \<Rightarrow> unless_interrupted \<E> (install \<E> True))"

definition swap_over_old :: "apply_env \<Rightarrow> reserved \<Rightarrow> expected_tree \<Rightarrow> report act" where
  "swap_over_old \<E> r e =
     m_bind (swap_ready \<E> e) (\<lambda>st.
       case st of
         Some s \<Rightarrow> end_apply \<E> s
       | None \<Rightarrow> m_bind (set_old_view_aside \<E> r) (install_after \<E>))"

definition swap_when_clear :: "apply_env \<Rightarrow> reserved \<Rightarrow> expected_tree \<Rightarrow> apply_stop option \<Rightarrow> report act" where
  "swap_when_clear \<E> r e st =
     (case st of
        Some s \<Rightarrow> end_apply \<E> s
      | None \<Rightarrow> (if expected_view e = None then install \<E> False else swap_over_old \<E> r e))"

definition swap :: "apply_env \<Rightarrow> reserved \<Rightarrow> report act" where
  "swap \<E> r =
     m_bind (still_reserved \<E> r) (\<lambda>ok. if \<not> ok then end_apply \<E> CatalogMoved else
     m_bind (m_get (expected \<circ> run_journal)) (\<lambda>e.
     m_bind (ask (canceled_at \<E>)) (\<lambda>c. if c then cancel \<E> else
     m_bind (make_way \<E> (expected_view e \<noteq> None)) (swap_when_clear \<E> r e))))"

section \<open>The build\<close>

text \<open>
  A fresh folder for the build, after an earlier one is cleared; the number of files in it that are not
  this Apply's own, where there are any.
\<close>

definition create_building :: "apply_env \<Rightarrow> (nat + file_identity) act" where
  "create_building \<E> =
     m_bind (ask (creates \<E>)) (\<lambda>ok.
     m_bind (m_get (\<lambda>w. disk w SlotBuilding \<noteq> None)) (\<lambda>there.
       if \<not> ok \<or> there then m_fail FolderFailed
       else m_bind (m_get (journal_generation \<circ> run_journal)) (\<lambda>g.
            m_bind (m_modify (\<lambda>w. w\<lparr>disk := (disk w)(SlotBuilding := Some g)\<rparr>)) (\<lambda>_.
            m_bind (observe_folder_identity \<E> SlotBuilding) (\<lambda>i.
              case i of None \<Rightarrow> m_fail FolderFailed | Some i \<Rightarrow> m_ret (Inr i))))))"

definition make_building :: "apply_env \<Rightarrow> (nat + file_identity) act" where
  "make_building \<E> =
     m_bind (slot_there \<E> SlotBuilding) (\<lambda>there.
     m_bind (if there then clear_building \<E> else m_ret 0) (\<lambda>k.
       if k \<noteq> 0 then m_ret (Inl k) else create_building \<E>))"

text \<open>Placing the entries of the plan one by one; the report where that ends the run.\<close>

fun place_entries :: "apply_env \<Rightarrow> nat \<Rightarrow> report option act" where
  "place_entries \<E> 0 = m_ret None"
| "place_entries \<E> (Suc n) =
     m_bind (ask (canceled_at \<E>)) (\<lambda>c. if c then m_bind (cancel \<E>) (\<lambda>rep. m_ret (Some rep)) else
     m_bind (ask (placed_at \<E>)) (\<lambda>ok.
       if ok then place_entries \<E> n
       else m_bind (end_apply \<E> EntryNotPlaced) (\<lambda>rep. m_ret (Some rep))))"

definition verify_and_swap :: "apply_env \<Rightarrow> reserved \<Rightarrow> report act" where
  "verify_and_swap \<E> r =
     m_bind (ask (build_failures \<E>)) (\<lambda>n. if n \<noteq> 0 then end_apply \<E> (BuildUnverified n) else
     m_bind (ask (unreadable_entries \<E>)) (\<lambda>n. if n \<noteq> 0 then end_apply \<E> (ViewUnreadable n) else
     m_bind (advance \<E> BuildVerified None) (\<lambda>_.
     unless_interrupted \<E> (swap \<E> r))))"

definition fill_building :: "apply_env \<Rightarrow> reserved \<Rightarrow> report act" where
  "fill_building \<E> r =
     m_bind (place_entries \<E> (plan_entries \<E>)) (\<lambda>stopped.
       case stopped of Some rep \<Rightarrow> m_ret rep | None \<Rightarrow> verify_and_swap \<E> r)"

definition build_in :: "apply_env \<Rightarrow> reserved \<Rightarrow> nat + file_identity \<Rightarrow> report act" where
  "build_in \<E> r made =
     (case made of
        Inl k \<Rightarrow> end_apply \<E> (BuildingNotCleared k)
      | Inr i \<Rightarrow>
          m_bind (m_modify (\<lambda>w. w\<lparr>building_made := True\<rparr>)) (\<lambda>_.
          m_bind (m_get (expected \<circ> run_journal)) (\<lambda>e.
          m_bind (advance \<E> BuildingPhase (Some (e\<lparr>expected_building := Some i\<rparr>))) (\<lambda>_.
          unless_interrupted \<E> (fill_building \<E> r)))))"

definition build :: "apply_env \<Rightarrow> reserved \<Rightarrow> report act" where
  "build \<E> r =
     unless_interrupted \<E> (
     m_bind (ask (source_failures \<E>)) (\<lambda>n. if n \<noteq> 0 then end_apply \<E> (OriginalsUnverified n) else
     m_bind (advance \<E> SourcesVerified None) (\<lambda>_.
     unless_interrupted \<E> (m_bind (make_building \<E>) (build_in \<E> r)))))"

section \<open>An Apply\<close>

record apply_request =
  request_project :: uuid
  request_revision :: revision
  request_digest :: opaque

definition prepare_tree :: "apply_env \<Rightarrow> bool \<Rightarrow> expected_tree act" where
  "prepare_tree \<E> gone =
     m_bind (ask (creates \<E>)) (\<lambda>ok. if \<not> ok then m_fail FolderFailed else
     m_bind (if gone then empty_slot \<E> SlotPrevious else m_ret ()) (\<lambda>_.
     m_bind (ask (root_identity_at \<E>)) (\<lambda>root.
       case root of
         None \<Rightarrow> m_fail FolderFailed
       | Some root \<Rightarrow>
           m_bind (slot_there \<E> SlotView) (\<lambda>there.
             if \<not> there
             then m_ret \<lparr>root_path = project_path \<E>, root_identity = root, expected_view = None, expected_building = None, expected_previous = None\<rparr>
             else m_bind (observe_folder_identity \<E> SlotView) (\<lambda>i.
               case i of
                 None \<Rightarrow> m_fail FolderFailed
               | Some i \<Rightarrow>
                   m_ret \<lparr>root_path = project_path \<E>, root_identity = root, expected_view = Some i, expected_building = None, expected_previous = None\<rparr>)))))"

definition reservation :: "apply_request \<Rightarrow> bool \<Rightarrow> expected_tree \<Rightarrow> apply_reservation" where
  "reservation q gone e =
     \<lparr>reserve_project = request_project q, reserve_revision = request_revision q, reserve_digest = request_digest q,
      reserve_expected = e, previous_gone = gone\<rparr>"

text \<open>The run starts from the journal the reservation recorded.\<close>

definition commit_reservation :: "apply_env \<Rightarrow> apply_inputs \<Rightarrow> apply_reservation \<Rightarrow> apply_inputs act" where
  "commit_reservation \<E> inputs rv =
     m_bind (reserve_apply \<E> rv) (\<lambda>_.
     m_bind (m_modify (\<lambda>w. case apply_row w of
         None \<Rightarrow> w
       | Some r \<Rightarrow> w\<lparr>run_journal := row_journal r, building_made := False\<rparr>)) (\<lambda>_.
     m_ret inputs))"

text \<open>\<open>check\<close> finds the blockers of the sheet, and whether the previous View is absent or holds no file.\<close>

definition reserve :: "apply_env \<Rightarrow> apply_request \<Rightarrow> apply_inputs act" where
  "reserve \<E> q =
     m_bind (read_inputs \<E>) (\<lambda>inputs.
       if edit_revision (inputs_edit inputs) \<noteq> request_revision q \<or> edit_digest (inputs_edit inputs) \<noteq> request_digest q
       then m_fail SheetOutdated
       else m_bind (ask (blocked_at \<E>)) (\<lambda>blocked. if blocked \<or> running inputs \<noteq> None then m_fail Blocked else
         m_bind (ask (previous_empty \<E>)) (\<lambda>empty.
         m_bind (slot_there \<E> SlotPrevious) (\<lambda>there.
         m_bind (prepare_tree \<E> (\<not> there \<or> empty)) (\<lambda>e.
         commit_reservation \<E> inputs (reservation q (\<not> there \<or> empty) e))))))"

definition run :: "apply_env \<Rightarrow> apply_inputs \<Rightarrow> report act" where
  "run \<E> inputs =
     m_bind (read_inputs \<E>) (\<lambda>after.
       case reserved_of inputs after of
         None \<Rightarrow> end_apply \<E> CatalogMoved
       | Some r \<Rightarrow> build \<E> r)"

definition apply_with :: "apply_env \<Rightarrow> apply_request \<Rightarrow> report act" where
  "apply_with \<E> q = m_bind (reserve \<E> q) (run \<E>)"

section \<open>Recovery\<close>

datatype recovered = RecInstalled | RecNotInstalled | RecStuck

definition recover_folders :: "apply_env \<Rightarrow> expected_tree \<Rightarrow> apply_phase \<Rightarrow> recovered act" where
  "recover_folders \<E> e p =
     (if before p BuildVerified then m_ret RecNotInstalled else
      m_bind (slot_is \<E> SlotView (expected_building e)) (\<lambda>is_new. if is_new then m_ret RecInstalled else
      m_bind (slot_there \<E> SlotView) (\<lambda>there.
        if \<not> before p NewInstalled
        then m_bind (if there then m_ret False else slot_is \<E> SlotBuilding (expected_building e)) (\<lambda>built.
               if built
               then m_bind (rename_noreplace \<E> SlotBuilding SlotView) (\<lambda>r.
                      m_ret (case r of Inr _ \<Rightarrow> RecInstalled | Inl _ \<Rightarrow> RecStuck))
               else m_ret RecStuck)
        else m_bind (if there then m_ret False else slot_is \<E> SlotPrevious (expected_view e)) (\<lambda>aside.
               if aside
               then m_bind (rename_noreplace \<E> SlotPrevious SlotView) (\<lambda>r.
                      m_ret (case r of Inr _ \<Rightarrow> RecNotInstalled | Inl _ \<Rightarrow> RecStuck))
               else m_ret RecNotInstalled))))"

text \<open>The claims of moves of kept files that an interruption left are settled in the database.\<close>

definition settle_kept_claims :: "apply_env \<Rightarrow> unit act" where
  "settle_kept_claims \<E> = transaction \<E> Some"

definition unattended :: "apply_env \<Rightarrow> apply_env" where
  "unattended \<E> = \<E>\<lparr>canceled_at := \<lambda>_. False, interrupted_at := \<lambda>_. False\<rparr>"

definition install_recovered :: "apply_env \<Rightarrow> apply_phase \<Rightarrow> report act" where
  "install_recovered \<E> p =
     m_bind (if before p NewInstalled then advance \<E> NewInstalled None else m_ret ()) (\<lambda>_. finish_installed \<E>)"

definition settle_recovered :: "apply_env \<Rightarrow> apply_phase \<Rightarrow> recovered \<Rightarrow> report act" where
  "settle_recovered \<E> p installed =
     (case installed of
        RecInstalled \<Rightarrow> m_bind (settle_kept_claims \<E>) (\<lambda>_. install_recovered \<E> p)
      | RecNotInstalled \<Rightarrow> m_bind (settle_kept_claims \<E>) (\<lambda>_. end_apply \<E> StopInterrupted)
      | RecStuck \<Rightarrow> m_fail RecoveryStuck)"

definition recover_run :: "apply_env \<Rightarrow> apply_journal \<Rightarrow> report act" where
  "recover_run \<E> j =
     m_bind (recover_folders \<E> (expected j) (phase j)) (\<lambda>installed.
     m_bind (read_inputs \<E>) (\<lambda>_.
     m_bind (m_modify (\<lambda>w. w\<lparr>run_journal := j, building_made := False\<rparr>)) (\<lambda>_.
     settle_recovered \<E> (phase j) installed)))"

text \<open>Nobody cancels or interrupts a recovery.\<close>

definition recover :: "apply_env \<Rightarrow> apply_journal \<Rightarrow> report act" where
  "recover \<E> = recover_run (unattended \<E>)"

definition unsettled_applies :: "apply_env \<Rightarrow> apply_journal list act" where
  "unsettled_applies \<E> =
     m_bind (transaction \<E> Some) (\<lambda>_.
     m_get (\<lambda>w. case apply_row w of
        None \<Rightarrow> []
      | Some r \<Rightarrow> (if phase (row_journal r) \<noteq> Settled then [row_journal r] else [])))"

fun recover_each :: "apply_env \<Rightarrow> apply_journal list \<Rightarrow> report list act" where
  "recover_each \<E> [] = m_ret []"
| "recover_each \<E> (j # js) =
     m_bind (recover \<E> j) (\<lambda>rep. m_bind (recover_each \<E> js) (\<lambda>reps. m_ret (rep # reps)))"

definition recover_applies :: "apply_env \<Rightarrow> report list act" where
  "recover_applies \<E> = m_bind (unsettled_applies \<E>) (recover_each \<E>)"

end
