(* ===== verification/ApplyLaws.thy ===== *)
theory ApplyLaws
  imports Apply
begin

text \<open>
  Reasoning about the steps of an Apply: weakest preconditions with a second postcondition for a run that
  breaks off, the stages a project goes through, and for every function of \<open>Apply\<close> the stages it leads
  from and to.
\<close>

section \<open>Weakest preconditions\<close>

definition wp :: "'a act \<Rightarrow> ('a \<Rightarrow> world \<Rightarrow> bool) \<Rightarrow> (apply_error \<Rightarrow> world \<Rightarrow> bool) \<Rightarrow> world \<Rightarrow> bool" where
  "wp m Q E w \<longleftrightarrow> (case m w of (Done a, w') \<Rightarrow> Q a w' | (Broke e, w') \<Rightarrow> E e w')"

lemma wp_ret [simp]: "wp (m_ret a) Q E = Q a"
  by (rule ext) (simp add: wp_def m_ret_def)

lemma wp_fail [simp]: "wp (m_fail e) Q E w = E e w"
  by (simp add: wp_def m_fail_def)

lemma wp_get [simp]: "wp (m_get f) Q E w = Q (f w) w"
  by (simp add: wp_def m_get_def)

lemma wp_modify [simp]: "wp (m_modify h) Q E w = Q () (h w)"
  by (simp add: wp_def m_modify_def)

lemma wp_ask [simp]: "wp (ask k) Q E w = Q (k (tick w)) (w\<lparr>tick := Suc (tick w)\<rparr>)"
  by (simp add: wp_def ask_def)

lemma wp_bind [simp]: "wp (m_bind m f) Q E = wp m (\<lambda>a. wp (f a) Q E) E"
  by (rule ext) (simp add: wp_def m_bind_def split: prod.split ended.split)

lemma wp_if [simp]: "wp (if b then m else n) Q E w \<longleftrightarrow> (b \<longrightarrow> wp m Q E w) \<and> (\<not> b \<longrightarrow> wp n Q E w)"
  by simp

lemma wp_mono:
  assumes "wp m Q E w" and "\<And>a w'. Q a w' \<Longrightarrow> Q' a w'" and "\<And>e w'. E e w' \<Longrightarrow> E' e w'"
  shows "wp m Q' E' w"
  using assms by (auto simp: wp_def split: prod.splits ended.splits)

lemma wp_transaction:
  "wp (transaction \<E> f) Q E w =
     (let w' = w\<lparr>tick := Suc (tick w)\<rparr> in
      if \<not> commits \<E> (tick w) then E DatabaseFailed w'
      else case f w' of None \<Rightarrow> E SchemaRefused w' | Some w'' \<Rightarrow> Q () w'')"
  by (simp add: wp_def transaction_def Let_def split: option.split)

lemma wp_apply_inputs:
  "wp (read_inputs \<E>) Q E w =
     (let w' = w\<lparr>tick := Suc (tick w)\<rparr> in
      if commits \<E> (tick w)
      then Q \<lparr>inputs_edit = edits \<E> (tick w), installed_generation = generation_in M_Installed (manifests w),
            previous_generation = generation_in M_Previous (manifests w), running = active_operation w\<rparr> w'
      else E DatabaseFailed w')"
  by (simp add: wp_def read_inputs_def Let_def)

lemma wp_rename:
  assumes "\<not> falls_back \<E>"
  shows "wp (rename_noreplace \<E> a b) Q E w =
     (let w' = w\<lparr>tick := Suc (tick w)\<rparr> in
      case renames \<E> (tick w) of
        RenameError e \<Rightarrow> Q (Inl e) w'
      | Granted \<Rightarrow>
          (if disk w a = None \<or> disk w b \<noteq> None then Q (Inl rename_error) w'
           else Q (Inr ()) (w'\<lparr>disk := (disk w)(a := None, b := disk w a)\<rparr>)))"
  using assms by (auto simp: wp_def rename_noreplace_def rename_at_once_def m_bind_def ask_def m_ret_def Let_def split: rename_answer.split)

lemma wp_slot_there:
  "wp (slot_there \<E> s) Q E w = Q (observable \<E> (tick w) \<and> disk w s \<noteq> None) (w\<lparr>tick := Suc (tick w)\<rparr>)"
  by (simp add: slot_there_def)

lemma wp_observe:
  "wp (observe_folder_identity \<E> s) Q E w =
     Q (if observable \<E> (tick w) then map_option (identify \<E>) (disk w s) else None) (w\<lparr>tick := Suc (tick w)\<rparr>)"
  by (simp add: wp_def observe_folder_identity_def)

section \<open>Manifests\<close>

definition gens :: "manifest_state \<Rightarrow> (revision \<times> manifest_state) list \<Rightarrow> revision list" where
  "gens s ms = map fst (filter (\<lambda>m. snd m = s) ms)"

definition opt_list :: "'a option \<Rightarrow> 'a list" where
  "opt_list x = (case x of None \<Rightarrow> [] | Some a \<Rightarrow> [a])"

lemma opt_list_simps [simp]: "opt_list None = []" "opt_list (Some a) = [a]"
  by (simp_all add: opt_list_def)

lemma opt_list_inject [simp]: "opt_list x = opt_list y \<longleftrightarrow> x = y"
  by (cases x; cases y) auto

lemma opt_list_length [simp]: "length (opt_list x) \<le> Suc 0"
  by (cases x) auto

lemma generation_in_gens: "generation_in s ms = (case gens s ms of [] \<Rightarrow> None | g # _ \<Rightarrow> Some g)"
  by (induction ms) (auto simp: generation_in_def gens_def)

lemma states_unique_gens:
  "states_unique ms \<longleftrightarrow> length (gens M_Building ms) \<le> 1 \<and> length (gens M_Installed ms) \<le> 1 \<and> length (gens M_Previous ms) \<le> 1"
  by (simp add: states_unique_def gens_def)

lemma gens_set: "set (gens s ms) = {k. (k, s) \<in> set ms}"
  by (force simp: gens_def)

lemma gens_single: "gens s ms = [g] \<Longrightarrow> (g, s) \<in> set ms"
  using gens_set [of s ms] by auto

definition restate :: "(revision \<times> manifest_state \<Rightarrow> bool) \<Rightarrow> manifest_state \<Rightarrow> (revision \<times> manifest_state) list \<Rightarrow> (revision \<times> manifest_state) list" where
  "restate P s = map (\<lambda>m. if P m then (fst m, s) else m)"

lemma restate_fst [simp]: "map fst (restate P s ms) = map fst ms"
  by (simp add: restate_def)

lemma restate_fst_set: "fst ` set (restate P s ms) = fst ` set ms"
  by (metis restate_fst set_map)

lemma gens_restate:
  "gens t (restate P s ms) =
     (if t = s then map fst (filter (\<lambda>m. P m \<or> snd m = s) ms) else map fst (filter (\<lambda>m. snd m = t \<and> \<not> P m) ms))"
  by (induction ms) (auto simp: gens_def restate_def)

lemma set_states_restate:
  "set_states P s w =
     (if list_all (\<lambda>m. P m \<longrightarrow> snd m = s \<or> manifest_can_become (snd m) s) (manifests w) \<and> states_unique (restate P s (manifests w))
      then Some (w\<lparr>manifests := restate P s (manifests w)\<rparr>) else None)"
  by (simp add: set_states_def restate_def Let_def)

text \<open>Restating all manifests of a state moves its generations.\<close>

lemma gens_restate_state:
  "gens t (restate (\<lambda>m. snd m = a) s ms) =
     (if t = s then map fst (filter (\<lambda>m. snd m = a \<or> snd m = s) ms) else if t = a then [] else gens t ms)"
  by (induction ms) (auto simp: gens_def restate_def)

lemma gens_restate_from_empty:
  "gens a ms = [] \<Longrightarrow> gens s (restate (\<lambda>m. snd m = a) s ms) = gens s ms"
  unfolding gens_restate_state by (auto simp: gens_def filter_empty_conv intro!: arg_cong [where f = "map fst"] filter_cong)

lemma gens_restate_into_empty:
  "gens s ms = [] \<Longrightarrow> gens s (restate (\<lambda>m. snd m = a) s ms) = gens a ms"
  unfolding gens_restate_state by (auto simp: gens_def filter_empty_conv intro!: arg_cong [where f = "map fst"] filter_cong)

text \<open>Restating the one manifest of a generation, known to be in a state.\<close>

lemma restate_generation:
  assumes "distinct (map fst ms)" and "gens a ms = [g]"
  shows "restate (\<lambda>m. fst m = g) s ms = restate (\<lambda>m. snd m = a) s ms"
proof -
  have a: "(g, a) \<in> set ms" using gens_single [OF assms(2)] .
  have "fst m = g \<longleftrightarrow> snd m = a" if "m \<in> set ms" for m
  proof
    assume "fst m = g"
    then show "snd m = a" using a that assms(1) by (metis eq_key_imp_eq_value prod.collapse)
  next
    assume "snd m = a"
    then have "fst m \<in> set (gens a ms)" using that by (simp add: gens_set) (metis prod.collapse)
    then show "fst m = g" using assms(2) by simp
  qed
  then show ?thesis by (auto simp: restate_def)
qed

section \<open>Stages\<close>

text \<open>
  One Apply: how the system identifies folders, the old View and whether the reservation saw it, the
  generation installed before, and the generation and the operation of this Apply.
\<close>

record apply_case =
  case_identify :: "folder \<Rightarrow> file_identity"
  case_old :: "folder option"
  case_seen :: bool
  case_installed :: "revision option"
  case_generation :: revision
  case_operation :: uuid

definition case_view :: "apply_case \<Rightarrow> folder option" where
  "case_view C = (if case_seen C then case_old C else None)"

definition fits :: "apply_case \<Rightarrow> apply_journal \<Rightarrow> bool" where
  "fits C j \<longleftrightarrow> operation_id j = case_operation C \<and> journal_generation j = case_generation C \<and>
     expected_view (expected j) = map_option (case_identify C) (case_view C) \<and>
     (2 \<le> phase_rank (phase j) \<longrightarrow> expected_building (expected j) = Some (case_identify C (case_generation C)))"

definition known_manifests :: "apply_case \<Rightarrow> (revision \<times> manifest_state) list \<Rightarrow> bool" where
  "known_manifests C ms \<longleftrightarrow> distinct (map fst ms) \<and> length (gens M_Previous ms) \<le> 1 \<and>
     highest_generation ms = case_generation C"

definition before_commit :: "apply_case \<Rightarrow> (revision \<times> manifest_state) list \<Rightarrow> bool" where
  "before_commit C ms \<longleftrightarrow> known_manifests C ms \<and>
     gens M_Building ms = [case_generation C] \<and> gens M_Installed ms = opt_list (case_installed C)"

definition after_commit :: "apply_case \<Rightarrow> (revision \<times> manifest_state) list \<Rightarrow> bool" where
  "after_commit C ms \<longleftrightarrow> known_manifests C ms \<and> gens M_Building ms = [] \<and> gens M_Installed ms = [case_generation C]"

definition known_folders :: "apply_case \<Rightarrow> (slot \<Rightarrow> folder option) \<Rightarrow> bool" where
  "known_folders C d \<longleftrightarrow> (\<forall>s f. d s = Some f \<longrightarrow> f \<le> case_generation C)"

definition at_home :: "apply_case \<Rightarrow> (slot \<Rightarrow> folder option) \<Rightarrow> bool" where
  "at_home C d \<longleftrightarrow> d SlotView = case_old C"

definition set_aside :: "apply_case \<Rightarrow> (slot \<Rightarrow> folder option) \<Rightarrow> (revision \<times> manifest_state) list \<Rightarrow> bool" where
  "set_aside C d ms \<longleftrightarrow> case_view C \<noteq> None \<and> d SlotView = None \<and> d SlotPrevious = case_old C \<and>
     gens M_Previous ms = []"

definition new_in_place :: "apply_case \<Rightarrow> (slot \<Rightarrow> folder option) \<Rightarrow> (revision \<times> manifest_state) list \<Rightarrow> bool" where
  "new_in_place C d ms \<longleftrightarrow> d SlotView = Some (case_generation C) \<and>
     (case_old C \<noteq> None \<longrightarrow> d SlotPrevious = case_old C \<and> gens M_Previous ms = [])"

definition disk_at :: "apply_case \<Rightarrow> apply_phase \<Rightarrow> (slot \<Rightarrow> folder option) \<Rightarrow> (revision \<times> manifest_state) list \<Rightarrow> bool" where
  "disk_at C p d ms \<longleftrightarrow>
     (if phase_rank p < 3 then at_home C d
      else if phase_rank p < 6 then at_home C d \<or> set_aside C d ms \<or> new_in_place C d ms
      else if phase_rank p = 6 then new_in_place C d ms
      else d SlotView = Some (case_generation C))"

definition manifests_at :: "apply_case \<Rightarrow> apply_phase \<Rightarrow> (revision \<times> manifest_state) list \<Rightarrow> bool" where
  "manifests_at C p ms \<longleftrightarrow> (if phase_rank p < 7 then before_commit C ms else after_commit C ms)"

definition row_at :: "apply_case \<Rightarrow> apply_phase \<Rightarrow> apply_row \<Rightarrow> bool" where
  "row_at C p r \<longleftrightarrow> row_checks r \<and> fits C (row_journal r) \<and> phase (row_journal r) = p \<and> p \<noteq> Settled"

definition stage_at :: "apply_case \<Rightarrow> apply_phase \<Rightarrow> world \<Rightarrow> bool" where
  "stage_at C p w \<longleftrightarrow> (\<exists>r. apply_row w = Some r \<and> row_at C p r) \<and>
     active_operation w = Some (case_operation C) \<and> known_folders C (disk w) \<and>
     manifests_at C p (manifests w) \<and> disk_at C p (disk w) (manifests w)"

definition settled_stage :: "apply_case \<Rightarrow> world \<Rightarrow> bool" where
  "settled_stage C w \<longleftrightarrow> active_operation w = None \<and> known_folders C (disk w) \<and>
     known_manifests C (manifests w) \<and> gens M_Building (manifests w) = [] \<and>
     (\<exists>r. apply_row w = Some r \<and> phase (row_journal r) = Settled \<and>
        journal_generation (row_journal r) = case_generation C \<and> journal_outcome (row_journal r) \<noteq> None \<and>
        (if journal_outcome (row_journal r) = Some ViewApplied
         then disk w SlotView = Some (case_generation C) \<and> gens M_Installed (manifests w) = [case_generation C]
         else disk w SlotView = case_old C \<and> gens M_Installed (manifests w) = opt_list (case_installed C)))"

definition settled_with :: "apply_case \<Rightarrow> view_outcome \<Rightarrow> world \<Rightarrow> bool" where
  "settled_with C out w \<longleftrightarrow> settled_stage C w \<and> (\<exists>r. apply_row w = Some r \<and> journal_outcome (row_journal r) = Some out)"

definition stage :: "apply_case \<Rightarrow> world \<Rightarrow> bool" where
  "stage C w \<longleftrightarrow> (\<exists>p. stage_at C p w) \<or> settled_stage C w"

definition synced :: "world \<Rightarrow> bool" where
  "synced w \<longleftrightarrow> (\<exists>r. apply_row w = Some r \<and> run_journal w = row_journal r)"

definition running_at ::
  "apply_case \<Rightarrow> apply_phase \<Rightarrow> ((slot \<Rightarrow> folder option) \<Rightarrow> (revision \<times> manifest_state) list \<Rightarrow> bool) \<Rightarrow> world \<Rightarrow> bool" where
  "running_at C p D w \<longleftrightarrow> stage_at C p w \<and> synced w \<and> D (disk w) (manifests w)"

text \<open>
  Where a manifest is installed and its View is gone from disk, the commit of a new one needs the previous
  manifest to be retired, which a run that cannot see \<open>View (previous)\<close> does not check.
\<close>

definition case_errors :: "apply_case \<Rightarrow> apply_error set" where
  "case_errors C = {e. e = SchemaRefused \<and> case_old C = None \<and> case_installed C \<noteq> None}"

text \<open>A run that breaks off leaves a stage behind, for one of the named errors.\<close>

definition fails :: "apply_case \<Rightarrow> apply_error set \<Rightarrow> apply_error \<Rightarrow> world \<Rightarrow> bool" where
  "fails C S e w \<longleftrightarrow> e \<in> S \<union> case_errors C \<and> stage C w"

definition db_errors :: "apply_env \<Rightarrow> apply_error set" where
  "db_errors \<E> = {e. e = DatabaseFailed \<and> (\<exists>n. \<not> commits \<E> n)}"

lemma stage_tick [simp]:
  "stage_at C p (w\<lparr>tick := n\<rparr>) = stage_at C p w" "settled_stage C (w\<lparr>tick := n\<rparr>) = settled_stage C w"
  "stage C (w\<lparr>tick := n\<rparr>) = stage C w" "synced (w\<lparr>tick := n\<rparr>) = synced w"
  "running_at C p D (w\<lparr>tick := n\<rparr>) = running_at C p D w"
  by (simp_all add: stage_at_def settled_stage_def stage_def synced_def running_at_def)

lemma stage_memory [simp]:
  "stage_at C p (w\<lparr>run_journal := j\<rparr>) = stage_at C p w" "stage_at C p (w\<lparr>building_made := b\<rparr>) = stage_at C p w"
  "settled_stage C (w\<lparr>run_journal := j\<rparr>) = settled_stage C w"
  "settled_stage C (w\<lparr>building_made := b\<rparr>) = settled_stage C w"
  "stage C (w\<lparr>run_journal := j\<rparr>) = stage C w" "stage C (w\<lparr>building_made := b\<rparr>) = stage C w"
  "running_at C p D (w\<lparr>building_made := b\<rparr>) = running_at C p D w"
  by (simp_all add: stage_at_def settled_stage_def stage_def running_at_def synced_def)

lemma running_stage: "running_at C p D w \<Longrightarrow> stage C w"
  by (auto simp: running_at_def stage_def)

lemma running_cond: "running_at C p D w \<Longrightarrow> D (disk w) (manifests w)"
  by (simp add: running_at_def)

lemma running_weaken: "running_at C p D w \<Longrightarrow> D' (disk w) (manifests w) \<Longrightarrow> running_at C p D' w"
  by (simp add: running_at_def)

lemma running_journal:
  assumes "running_at C p D w"
  shows "phase (run_journal w) = p" "p \<noteq> Settled" "operation_id (run_journal w) = case_operation C"
    "journal_generation (run_journal w) = case_generation C"
    "expected_view (expected (run_journal w)) = map_option (case_identify C) (case_view C)"
    "2 \<le> phase_rank p \<Longrightarrow> expected_building (expected (run_journal w)) = Some (case_identify C (case_generation C))"
  using assms by (auto simp: running_at_def stage_at_def synced_def row_at_def fits_def)

section \<open>The database\<close>

lemma wp_db:
  assumes "db_errors \<E> \<subseteq> S" and "stage C w" and "\<exists>w'. f (w\<lparr>tick := Suc (tick w)\<rparr>) = Some w' \<and> Q () w'"
  shows "wp (transaction \<E> f) Q (fails C S) w"
  using assms unfolding wp_transaction Let_def by (auto simp: db_errors_def fails_def)

lemma row_checks_open:
  assumes "phase (row_journal r) \<noteq> Settled"
  shows "row_checks r \<longleftrightarrow> settled_from (row_journal r) = None \<and> journal_outcome (row_journal r) = None \<and>
    stop (row_journal r) = None \<and> \<not> row_report r \<and> (waiting_held r \<longrightarrow> phase (row_journal r) = BuildVerified)"
proof -
  have "(phase (row_journal r) = Settled) = False" using assms by simp
  then show ?thesis unfolding row_checks_def Let_def
    by (cases "journal_outcome (row_journal r)"; cases "settled_from (row_journal r)"; cases "stop (row_journal r)") (simp_all, blast)
qed

lemma row_checks_advanced:
  assumes "row_checks r" and "phase (row_journal r) \<noteq> Settled" and "q \<noteq> Settled"
  shows "row_checks (row_advanced q e r)"
proof -
  have "phase (row_journal (row_advanced q e r)) \<noteq> Settled" using assms(3) by (simp add: row_advanced_def)
  then show ?thesis using assms(1) unfolding row_checks_open [OF assms(2)]
    by (subst row_checks_open) (simp_all add: row_advanced_def)
qed

lemma row_checks_settled:
  assumes "row_checks r" and "phase (row_journal r) \<noteq> Settled" and "outcome_fits out (phase (row_journal r))"
    and "(st \<noteq> None) = (out \<noteq> ViewApplied)" and "st \<noteq> None \<Longrightarrow> (st = Some StopCanceled) = (out = ViewCanceled)"
  shows "row_checks (row_settled out st r)"
proof (cases out)
  case ViewApplied
  then have "st = None" "7 \<le> phase_rank (phase (row_journal r))" using assms(3,4) by (simp_all add: outcome_fits_def)
  then show ?thesis using assms(2) ViewApplied
    by (cases "phase (row_journal r)") (simp_all add: row_checks_def row_settled_def)
next
  case ViewFailed
  then obtain s where "st = Some s" "s \<noteq> StopCanceled" "phase_rank (phase (row_journal r)) < 6"
    using assms(3-5) by (auto simp: outcome_fits_def)
  then show ?thesis using assms(2) ViewFailed
    by (cases "phase (row_journal r)") (simp_all add: row_checks_def row_settled_def)
next
  case ViewCanceled
  then have "st = Some StopCanceled" "phase_rank (phase (row_journal r)) < 6"
    using assms(3-5) by (auto simp: outcome_fits_def)
  then show ?thesis using assms(2) ViewCanceled
    by (cases "phase (row_journal r)") (simp_all add: row_checks_def row_settled_def)
qed

lemma with_row_advanced:
  assumes "apply_row w = Some r" and "row_checks r" and "phase (row_journal r) = p" "p \<noteq> Settled" "q \<noteq> Settled"
    and "phase_rank p \<le> phase_rank q" and "operation_id (row_journal r) = op"
  shows "db_advance op q e w = Some (w\<lparr>apply_row := Some (row_advanced q e r)\<rparr>)"
  using assms row_checks_advanced [of r q e]
  by (simp add: db_advance_def with_row_def update_row_def row_forward_def) (simp add: row_advanced_def)

section \<open>Advancing and ending\<close>

lemma row_at_advanced:
  assumes "row_at C p r" and "q \<noteq> Settled"
    and "case e of None \<Rightarrow> 2 \<le> phase_rank q \<longrightarrow> 2 \<le> phase_rank p
         | Some e \<Rightarrow> expected_view e = map_option (case_identify C) (case_view C) \<and>
             expected_building e = Some (case_identify C (case_generation C))"
  shows "row_at C q (row_advanced q e r)"
  using assms row_checks_advanced [of r q e]
  by (auto simp: row_at_def fits_def row_advanced_def split: option.splits)

lemma wp_advance:
  assumes at: "running_at C p D w" and S: "db_errors \<E> \<subseteq> S"
    and q: "phase_rank p \<le> phase_rank q" "q \<noteq> Settled" "phase_rank p < 7 \<longleftrightarrow> phase_rank q < 7"
    and e: "case e of None \<Rightarrow> 2 \<le> phase_rank q \<longrightarrow> 2 \<le> phase_rank p
         | Some e \<Rightarrow> expected_view e = map_option (case_identify C) (case_view C) \<and>
             expected_building e = Some (case_identify C (case_generation C))"
    and D: "\<And>d ms. D d ms \<Longrightarrow> disk_at C q d ms"
    and Q: "\<And>w'. running_at C q D w' \<Longrightarrow> Q () w'"
  shows "wp (advance \<E> q e) Q (fails C S) w"
proof -
  obtain r where r: "apply_row w = Some r" "row_at C p r" "run_journal w = row_journal r"
    using at by (auto simp: running_at_def stage_at_def synced_def)
  have stage: "stage C w" using running_stage [OF at] .
  have row: "row_at C q (row_advanced q e r)" using row_at_advanced [OF r(2) q(2) e] .
  have op: "operation_id (run_journal w) = case_operation C" using running_journal [OF at] by simp
  have adv: "db_advance (case_operation C) q e (w\<lparr>tick := n\<rparr>) = Some (w\<lparr>tick := n, apply_row := Some (row_advanced q e r)\<rparr>)" for n
    using r q(1,2) by (intro with_row_advanced [THEN trans]) (auto simp: row_at_def fits_def)
  let ?w = "\<lambda>n. w\<lparr>tick := n, apply_row := Some (row_advanced q e r),
    run_journal := (run_journal w)\<lparr>phase := q, expected := (case e of None \<Rightarrow> expected (run_journal w) | Some e \<Rightarrow> e)\<rparr>\<rparr>"
  have "stage_at C q (?w n)" for n
    using at row q(3) D by (auto simp: running_at_def stage_at_def manifests_at_def)
  moreover have "synced (?w n)" for n by (cases e) (simp_all add: synced_def r(3) row_advanced_def)
  ultimately have "running_at C q D (?w n)" for n using running_cond [OF at] by (simp add: running_at_def)
  then have "Q () (?w n)" for n using Q by blast
  then show ?thesis unfolding advance_def
    by (simp add: op) (rule wp_db [OF S stage], simp add: adv)
qed

lemma settle_row_Some:
  assumes "apply_row w = Some r" and "row_at C p r" and "outcome_fits out p"
    and "(st \<noteq> None) = (out \<noteq> ViewApplied)" and "st \<noteq> None \<Longrightarrow> (st = Some StopCanceled) = (out = ViewCanceled)"
  shows "settle_journal_row (case_operation C) out st w = Some (w\<lparr>apply_row := Some (row_settled out st r)\<rparr>)"
proof -
  have "row_checks (row_settled out st r)" using assms by (intro row_checks_settled) (auto simp: row_at_def)
  then show ?thesis using assms(1,2) rank_bound [of p]
    by (simp add: settle_journal_row_def with_row_def update_row_def row_forward_def row_at_def fits_def)
      (simp add: row_settled_def)
qed

lemma row_settled_fields [simp]:
  "phase (row_journal (row_settled out st r)) = Settled"
  "operation_id (row_journal (row_settled out st r)) = operation_id (row_journal r)"
  "journal_generation (row_journal (row_settled out st r)) = journal_generation (row_journal r)"
  "journal_outcome (row_journal (row_settled out st r)) = Some out"
  by (simp_all add: row_settled_def)

lemma stop_outcome_not_applied: "stop_outcome st \<noteq> ViewApplied"
  by (cases st) (simp_all add: stop_outcome_def)

lemma stop_outcome_canceled: "(st = StopCanceled) = (stop_outcome st = ViewCanceled)"
  by (cases st) (simp_all add: stop_outcome_def)

lemma known_restate: "known_manifests C ms \<Longrightarrow> length (gens M_Previous (restate P s ms)) \<le> 1 \<Longrightarrow> known_manifests C (restate P s ms)"
  by (simp add: known_manifests_def highest_generation_def restate_fst_set)

lemma discard_states:
  assumes "before_commit C (manifests w)"
  obtains ms where "set_manifest_state (case_generation C) M_Discarded w = Some (w\<lparr>manifests := ms\<rparr>)"
    "known_manifests C ms" "gens M_Building ms = []" "gens M_Installed ms = opt_list (case_installed C)"
proof -
  let ?ms = "manifests w" and ?g = "case_generation C"
  have b: "distinct (map fst ?ms)" "gens M_Building ?ms = [?g]" "known_manifests C ?ms"
    "gens M_Installed ?ms = opt_list (case_installed C)" "length (gens M_Previous ?ms) \<le> 1"
    using assms by (auto simp: before_commit_def known_manifests_def)
  let ?r = "restate (\<lambda>m. fst m = ?g) M_Discarded ?ms"
  have r: "?r = restate (\<lambda>m. snd m = M_Building) M_Discarded ?ms" using restate_generation [OF b(1,2)] .
  have g: "gens M_Building ?r = []" "gens M_Installed ?r = opt_list (case_installed C)"
    "gens M_Previous ?r = gens M_Previous ?ms"
    using b by (simp_all add: r gens_restate_state)
  have "snd m = M_Building" if "m \<in> set ?ms" "fst m = ?g" for m
    using that gens_single [OF b(2)] b(1) by (metis eq_key_imp_eq_value prod.collapse)
  then have "list_all (\<lambda>m. fst m = ?g \<longrightarrow> snd m = M_Discarded \<or> manifest_can_become (snd m) M_Discarded) ?ms"
    by (auto simp: list_all_iff)
  then have "set_manifest_state ?g M_Discarded w = Some (w\<lparr>manifests := ?r\<rparr>)"
    using g b(5) by (simp add: set_manifest_state_def set_states_restate states_unique_gens)
  moreover have "known_manifests C ?r" using b(3,5) g(3) by (intro known_restate) simp_all
  ultimately show ?thesis using that g by blast
qed

lemma wp_discard:
  assumes at: "stage_at C p w" and j: "operation_id j = case_operation C" "journal_generation j = case_generation C"
    and S: "db_errors \<E> \<subseteq> S" and p: "phase_rank p < 6" and home: "at_home C (disk w)"
    and Q: "\<And>w'. settled_with C (stop_outcome st) w' \<Longrightarrow> Q () w'"
  shows "wp (transaction \<E> (discard_apply j (stop_outcome st) st)) Q (fails C S) w"
proof (rule wp_db [OF S])
  show "stage C w" using at by (auto simp: stage_def)
  let ?w = "w\<lparr>tick := Suc (tick w)\<rparr>"
  obtain r where r: "apply_row w = Some r" "row_at C p r" using at by (auto simp: stage_at_def)
  have "before_commit C (manifests ?w)" using at p by (simp add: stage_at_def manifests_at_def)
  then obtain ms where ms: "set_manifest_state (case_generation C) M_Discarded ?w = Some (?w\<lparr>manifests := ms\<rparr>)"
    "known_manifests C ms" "gens M_Building ms = []" "gens M_Installed ms = opt_list (case_installed C)"
    by (rule discard_states)
  let ?v = "?w\<lparr>manifests := ms\<rparr>"
  have settle: "settle_journal_row (case_operation C) (stop_outcome st) (Some st) ?v =
      Some (?v\<lparr>apply_row := Some (row_settled (stop_outcome st) (Some st) r)\<rparr>)"
  proof (rule settle_row_Some)
    show "row_at C p r" using r by simp
    show "outcome_fits (stop_outcome st) p" using p stop_outcome_not_applied [of st]
      by (cases "stop_outcome st") (simp_all add: outcome_fits_def)
  qed (simp_all add: r stop_outcome_not_applied stop_outcome_canceled)
  let ?u = "?v\<lparr>apply_row := Some (row_settled (stop_outcome st) (Some st) r), active_operation := None\<rparr>"
  have "discard_apply j (stop_outcome st) st ?w = Some ?u"
    using at by (simp add: discard_apply_def j ms(1) opt_then_def settle settle_operation_def stage_at_def)
  moreover have "settled_with C (stop_outcome st) ?u"
    using at r ms home stop_outcome_not_applied [of st]
    by (simp add: settled_with_def settled_stage_def stage_at_def row_at_def fits_def at_home_def)
  ultimately show "\<exists>w'. discard_apply j (stop_outcome st) st ?w = Some w' \<and> Q () w'" using Q by blast
qed

lemma wp_empty_slot:
  assumes "\<And>n. Q () (w\<lparr>tick := n\<rparr>)" and "\<And>n. Q () (w\<lparr>tick := n, disk := (disk w)(s := None)\<rparr>)"
  shows "wp (empty_slot \<E> s) Q E w"
  using assms by (simp add: empty_slot_def)

lemma wp_clear_building:
  assumes "\<And>k n. Q k (w\<lparr>tick := n\<rparr>)" and "\<And>n. Q 0 (w\<lparr>tick := n, disk := (disk w)(SlotBuilding := None)\<rparr>)"
  shows "wp (clear_building \<E>) Q E w"
  unfolding clear_building_def by (auto intro!: wp_empty_slot simp: assms)

lemma disk_at_building [simp]: "disk_at C p (d(SlotBuilding := f)) ms = disk_at C p d ms"
  by (simp add: disk_at_def at_home_def set_aside_def new_in_place_def)

lemma known_folders_upd: "known_folders C d \<Longrightarrow> (\<And>f. x = Some f \<Longrightarrow> f \<le> case_generation C) \<Longrightarrow> known_folders C (d(s := x))"
  by (simp add: known_folders_def)

lemma stage_at_building:
  "stage_at C p w \<Longrightarrow> (\<And>f. x = Some f \<Longrightarrow> f \<le> case_generation C) \<Longrightarrow> stage_at C p (w\<lparr>disk := (disk w)(SlotBuilding := x)\<rparr>)"
  by (simp add: stage_at_def known_folders_upd)

lemma wp_end:
  assumes at: "running_at C p D w" and S: "db_errors \<E> \<subseteq> S" and p: "phase_rank p < 6"
    and home: "\<And>d ms. D d ms \<Longrightarrow> at_home C d"
    and Q: "\<And>rep w'. rep = Some (stop_outcome st) \<Longrightarrow> settled_with C (stop_outcome st) w' \<Longrightarrow> Q rep w'"
  shows "wp (end_apply \<E> st) Q (fails C S) w"
proof -
  have st: "stage_at C p w" using at by (simp add: running_at_def)
  have h: "at_home C (disk w)" using home [OF running_cond [OF at]] .
  have j: "operation_id (run_journal w) = case_operation C" "journal_generation (run_journal w) = case_generation C"
    using running_journal [OF at] by simp_all
  have "wp (if stop_outcome st = ViewCanceled \<and> building_made w then clear_building \<E> else m_ret 0)
      (\<lambda>_ v. stage_at C p v \<and> at_home C (disk v) \<and> run_journal v = run_journal w) (fails C S) w"
    using st h stage_at_building [OF st, of None] by (auto intro!: wp_clear_building simp: at_home_def) (simp_all add: stage_at_def)
  then show ?thesis unfolding end_apply_def wp_bind wp_get
  proof (rule wp_mono)
    fix k v assume v: "stage_at C p v \<and> at_home C (disk v) \<and> run_journal v = run_journal w"
    show "wp (m_modify (run_journal_update (\<lambda>_. (run_journal v)\<lparr>stop := Some st\<rparr>)))
       (\<lambda>_. wp (transaction \<E> (discard_apply (run_journal v) (stop_outcome st) st))
         (\<lambda>_. wp (m_ret (Some (stop_outcome st))) Q (fails C S)) (fails C S)) (fails C S) v"
      unfolding wp_modify wp_ret using v by (intro wp_discard [where C = C and p = p]) (auto simp: j S p intro: Q)
  qed
qed

lemma generation_holder:
  assumes "distinct (map fst ms)" and "gens a ms = [g]" and "m \<in> set ms" and "fst m = g"
  shows "snd m = a"
  using assms(3,4) gens_single [OF assms(2)] assms(1) by (metis eq_key_imp_eq_value prod.collapse)

lemma commit_states:
  assumes "before_commit C ms" and "length (gens M_Previous (restate (\<lambda>m. snd m = M_Installed) M_Previous ms)) \<le> 1"
    and "manifests w = ms"
  obtains ms' ms'' where "set_states (\<lambda>m. snd m = M_Installed) M_Previous w = Some (w\<lparr>manifests := ms'\<rparr>)"
    "set_manifest_state (case_generation C) M_Installed (w\<lparr>manifests := ms'\<rparr>) = Some (w\<lparr>manifests := ms''\<rparr>)"
    "after_commit C ms''"
proof -
  let ?g = "case_generation C"
  have b: "distinct (map fst ms)" "gens M_Building ms = [?g]" "known_manifests C ms"
    "gens M_Installed ms = opt_list (case_installed C)"
    using assms(1) by (auto simp: before_commit_def known_manifests_def)
  define ms' where "ms' = restate (\<lambda>m. snd m = M_Installed) M_Previous ms"
  have g': "gens M_Building ms' = [?g]" "gens M_Installed ms' = []" "length (gens M_Previous ms') \<le> 1"
    using b assms(2) unfolding ms'_def by (simp_all add: gens_restate_state)
  have k': "known_manifests C ms'" using b(3) g'(3) unfolding ms'_def by (intro known_restate) simp_all
  have d': "distinct (map fst ms')" using k' by (simp add: known_manifests_def)
  have 1: "set_states (\<lambda>m. snd m = M_Installed) M_Previous w = Some (w\<lparr>manifests := ms'\<rparr>)"
    using g' by (simp add: set_states_restate assms(3) ms'_def [symmetric] states_unique_gens list_all_iff)
  define ms'' where "ms'' = restate (\<lambda>m. fst m = ?g) M_Installed ms'"
  have r: "ms'' = restate (\<lambda>m. snd m = M_Building) M_Installed ms'"
    unfolding ms''_def using restate_generation [OF d' g'(1)] .
  have g'': "gens M_Building ms'' = []" "gens M_Installed ms'' = [?g]" "gens M_Previous ms'' = gens M_Previous ms'"
    using g' gens_restate_into_empty [OF g'(2)] by (simp_all add: r gens_restate_state)
  have "list_all (\<lambda>m. fst m = ?g \<longrightarrow> snd m = M_Installed \<or> manifest_can_become (snd m) M_Installed) ms'"
    using generation_holder [OF d' g'(1)] by (auto simp: list_all_iff)
  then have 2: "set_manifest_state ?g M_Installed (w\<lparr>manifests := ms'\<rparr>) = Some (w\<lparr>manifests := ms''\<rparr>)"
    using g'' g'(3) by (simp add: set_manifest_state_def set_states_restate ms''_def [symmetric] states_unique_gens)
  have "known_manifests C ms''" using k' g''(3) g'(3) unfolding ms''_def by (intro known_restate) simp_all
  then have "after_commit C ms''" using g'' by (simp add: after_commit_def)
  with 1 2 show ?thesis by (rule that)
qed

lemma commit_refused:
  assumes "before_commit C (manifests w)" and "new_in_place C (disk w) (manifests w)"
    and "\<not> length (gens M_Previous (restate (\<lambda>m. snd m = M_Installed) M_Previous (manifests w))) \<le> 1"
  shows "SchemaRefused \<in> case_errors C" "commit_apply j (w\<lparr>tick := n\<rparr>) = None"
proof -
  have i: "gens M_Installed (manifests w) = opt_list (case_installed C)" "length (gens M_Previous (manifests w)) \<le> 1"
    using assms(1) by (auto simp: before_commit_def known_manifests_def)
  have "case_installed C \<noteq> None"
    using assms(3) gens_restate_from_empty [of M_Installed "manifests w" M_Previous] i by (cases "case_installed C") simp_all
  moreover have "case_old C = None"
    using assms(2,3) gens_restate_into_empty [of M_Previous "manifests w" M_Installed] i(1) by (auto simp: new_in_place_def)
  ultimately show "SchemaRefused \<in> case_errors C" by (simp add: case_errors_def)
  show "commit_apply j (w\<lparr>tick := n\<rparr>) = None"
    using assms(3) by (simp add: commit_apply_def set_states_restate states_unique_gens opt_then_def)
qed

definition new_there :: "apply_case \<Rightarrow> (slot \<Rightarrow> folder option) \<Rightarrow> (revision \<times> manifest_state) list \<Rightarrow> bool" where
  "new_there C d ms \<longleftrightarrow> d SlotView = Some (case_generation C)"

lemma wp_commit:
  assumes at: "running_at C NewInstalled (new_in_place C) w" and S: "db_errors \<E> \<subseteq> S"
    and Q: "\<And>w'. stage_at C ManifestCommitted w' \<Longrightarrow> new_there C (disk w') (manifests w') \<Longrightarrow>
      \<exists>r. apply_row w' = Some r \<and> row_journal r = (run_journal w)\<lparr>phase := ManifestCommitted\<rparr> \<Longrightarrow> Q () w'"
  shows "wp (transaction \<E> (commit_apply (run_journal w))) Q (fails C S) w"
proof (cases "length (gens M_Previous (restate (\<lambda>m. snd m = M_Installed) M_Previous (manifests w))) \<le> 1")
  case False
  have "before_commit C (manifests w)" "new_in_place C (disk w) (manifests w)"
    using at by (simp_all add: running_at_def stage_at_def manifests_at_def)
  from commit_refused [OF this False] show ?thesis
    using S running_stage [OF at] unfolding wp_transaction by (auto simp: fails_def db_errors_def Let_def)
next
  case one: True
  show ?thesis
proof (rule wp_db [OF S running_stage [OF at]])
  let ?w = "w\<lparr>tick := Suc (tick w)\<rparr>"
  obtain r where r: "apply_row w = Some r" "row_at C NewInstalled r" "run_journal w = row_journal r"
    using at by (auto simp: running_at_def stage_at_def synced_def)
  have ip: "new_in_place C (disk w) (manifests w)" using running_cond [OF at] .
  have bc: "before_commit C (manifests w)" using at by (simp add: running_at_def stage_at_def manifests_at_def)
  have j: "operation_id (run_journal w) = case_operation C" "journal_generation (run_journal w) = case_generation C"
    using running_journal [OF at] by simp_all
  obtain ms' ms where ms: "set_states (\<lambda>m. snd m = M_Installed) M_Previous ?w = Some (?w\<lparr>manifests := ms'\<rparr>)"
    "set_manifest_state (case_generation C) M_Installed (?w\<lparr>manifests := ms'\<rparr>) = Some (?w\<lparr>manifests := ms\<rparr>)"
    "after_commit C ms"
    using commit_states [of C "manifests w" ?w] bc one by auto
  let ?r = "row_advanced ManifestCommitted None r"
  let ?v = "?w\<lparr>manifests := ms, apply_row := Some ?r\<rparr>"
  have "db_advance (case_operation C) ManifestCommitted None (?w\<lparr>manifests := ms\<rparr>) = Some ?v"
    using r by (intro with_row_advanced [THEN trans]) (auto simp: row_at_def fits_def)
  then have "commit_apply (run_journal w) ?w = Some ?v"
    by (simp add: commit_apply_def opt_then_def j ms)
  moreover have "row_at C ManifestCommitted ?r" using r(2) by (rule row_at_advanced) simp_all
  then have "stage_at C ManifestCommitted ?v"
    using at ip ms(3) by (simp add: running_at_def stage_at_def manifests_at_def disk_at_def new_in_place_def)
  moreover have "new_there C (disk ?v) (manifests ?v)" using ip by (simp add: new_in_place_def new_there_def)
  moreover have "row_journal ?r = (run_journal w)\<lparr>phase := ManifestCommitted\<rparr>" by (simp add: row_advanced_def r(3))
  ultimately show "\<exists>w'. commit_apply (run_journal w) ?w = Some w' \<and> Q () w'"
    by (intro exI [of _ ?v] conjI Q) auto
qed
qed

section \<open>Finishing\<close>

text \<open>How a run ends: with the outcome its journal settled with, or interrupted in some stage.\<close>

definition ended :: "apply_case \<Rightarrow> apply_env \<Rightarrow> report \<Rightarrow> world \<Rightarrow> bool" where
  "ended C \<E> rep w \<longleftrightarrow>
     (case rep of
        None \<Rightarrow> stage C w \<and> (\<exists>n. interrupted_at \<E> n)
      | Some out \<Rightarrow> settled_with C out w)"

lemma ended_settled: "rep = Some out \<Longrightarrow> settled_with C out w \<Longrightarrow> ended C \<E> rep w"
  by (simp add: ended_def)

lemma ended_stage: "ended C \<E> rep w \<Longrightarrow> stage C w"
  by (auto simp: ended_def stage_def settled_with_def split: option.splits)

lemma wp_unless_interrupted:
  assumes "stage C w" and "wp m (ended C \<E>) F (w\<lparr>tick := Suc (tick w)\<rparr>)"
  shows "wp (unless_interrupted \<E> m) (ended C \<E>) F w"
  using assms by (auto simp: unless_interrupted_def ended_def)

lemma retire_previous_states:
  assumes "known_manifests C (manifests w)"
    and "length (gens M_Building (manifests w)) \<le> 1" "length (gens M_Installed (manifests w)) \<le> 1"
  obtains ms where "retire_previous w = Some (w\<lparr>manifests := ms\<rparr>)" "known_manifests C ms"
    "gens M_Building ms = gens M_Building (manifests w)" "gens M_Installed ms = gens M_Installed (manifests w)"
    "gens M_Previous ms = []" "fst ` set ms = fst ` set (manifests w)"
proof -
  let ?ms = "restate (\<lambda>m. snd m = M_Previous) M_Retired (manifests w)"
  have g: "gens M_Building ?ms = gens M_Building (manifests w)" "gens M_Installed ?ms = gens M_Installed (manifests w)"
    "gens M_Previous ?ms = []" by (simp_all add: gens_restate_state)
  have "retire_previous w = Some (w\<lparr>manifests := ?ms\<rparr>)"
    using assms g by (simp add: retire_previous_def set_states_restate states_unique_gens list_all_iff)
  moreover have "known_manifests C ?ms" using assms(1) g(3) by (intro known_restate) simp_all
  ultimately show ?thesis using that g by (simp add: restate_fst_set)
qed

lemma wp_settle_installed:
  assumes at: "running_at C p (new_there C) w" and S: "db_errors \<E> \<subseteq> S" and p: "7 \<le> phase_rank p"
  shows "wp (settle_installed \<E> gone) (ended C \<E>) (fails C S) w"
  unfolding settle_installed_def wp_bind wp_get
proof (rule wp_db [OF S running_stage [OF at]])
  let ?w = "w\<lparr>tick := Suc (tick w)\<rparr>"
  obtain r where r: "apply_row w = Some r" "row_at C p r" "run_journal w = row_journal r"
    using at by (auto simp: running_at_def stage_at_def synced_def)
  have j: "operation_id (run_journal w) = case_operation C" using running_journal [OF at] by simp
  have ac: "after_commit C (manifests ?w)" using at p by (simp add: running_at_def stage_at_def manifests_at_def)
  obtain ms where ms: "(if gone then retire_previous ?w else Some ?w) = Some (?w\<lparr>manifests := ms\<rparr>)" "after_commit C ms"
  proof (cases gone)
    case True
    show ?thesis
      by (rule retire_previous_states [of C ?w]) (use ac True in \<open>auto simp: after_commit_def intro: that\<close>)
  next
    case False
    then show ?thesis using ac by (intro that [of "manifests ?w"]) simp_all
  qed
  let ?v = "?w\<lparr>manifests := ms\<rparr>" and ?r = "row_settled ViewApplied None r"
  have settle: "settle_journal_row (case_operation C) ViewApplied None ?v = Some (?v\<lparr>apply_row := Some ?r\<rparr>)"
    using r p by (intro settle_row_Some) (auto simp: outcome_fits_def)
  let ?u = "?v\<lparr>apply_row := Some ?r, active_operation := None\<rparr>"
  have "settle_apply (run_journal w) gone ?w = Some ?u"
    using at by (simp add: settle_apply_def j ms(1) opt_then_def settle settle_operation_def running_at_def stage_at_def)
  moreover have "settled_with C ViewApplied ?u"
    using at r ms(2) running_cond [OF at]
    by (simp add: settled_with_def settled_stage_def running_at_def stage_at_def row_at_def fits_def after_commit_def new_there_def)
  ultimately show "\<exists>w'. settle_apply (run_journal w) gone ?w = Some w' \<and>
      wp (m_ret (Some ViewApplied)) (ended C \<E>) (fails C S) w'"
    by (auto intro: ended_settled)
qed

lemma running_previous_gone:
  "running_at C p (new_there C) w \<Longrightarrow> 7 \<le> phase_rank p \<Longrightarrow>
     running_at C p (new_there C) (w\<lparr>disk := (disk w)(SlotPrevious := None)\<rparr>)"
  by (auto simp: running_at_def stage_at_def synced_def new_there_def disk_at_def known_folders_def)

lemma running_tick_first:
  "running_at C p D (w\<lparr>tick := n, disk := d\<rparr>) = running_at C p D (w\<lparr>disk := d\<rparr>)"
  by (simp add: running_at_def stage_at_def synced_def)

lemma wp_retire_old:
  assumes "running_at C p (new_there C) w" and "db_errors \<E> \<subseteq> S" and "7 \<le> phase_rank p"
  shows "wp (retire_old \<E>) (ended C \<E>) (fails C S) w"
  unfolding retire_old_def
  using assms running_previous_gone [OF assms(1,3)]
  by (auto intro!: wp_empty_slot wp_settle_installed [where p = p] simp: wp_slot_there running_tick_first)

lemma new_there_disk_at: "7 \<le> phase_rank q \<Longrightarrow> new_there C d ms \<Longrightarrow> disk_at C q d ms"
  by (simp add: disk_at_def new_there_def)

lemma wp_retire_and_settle:
  assumes at: "running_at C p (new_there C) w" and S: "db_errors \<E> \<subseteq> S" and p: "7 \<le> phase_rank p"
  shows "wp (retire_and_settle \<E> inputs) (ended C \<E>) (fails C S) w"
proof (cases "previous_generation inputs")
  case None
  then show ?thesis using assms by (simp add: retire_and_settle_def wp_settle_installed)
next
  case (Some k)
  have ph: "phase (run_journal w) = p" using running_journal [OF at] by simp
  show ?thesis
  proof (cases "before p RetiringPrevious")
    case True
    have "wp (advance \<E> RetiringPrevious None) (\<lambda>_. wp (unless_interrupted \<E> (retire_old \<E>)) (ended C \<E>) (fails C S)) (fails C S) w"
    proof (rule wp_advance [OF at S])
      fix v assume v: "running_at C RetiringPrevious (new_there C) v"
      show "wp (unless_interrupted \<E> (retire_old \<E>)) (ended C \<E>) (fails C S) v"
        using v by (intro wp_unless_interrupted wp_retire_old [where p = RetiringPrevious] running_stage [OF v]) (simp_all add: S)
    qed (use p True in \<open>simp_all add: before_def new_there_disk_at\<close>)
    then show ?thesis using Some True by (simp add: retire_and_settle_def ph)
  next
    case False
    then show ?thesis using Some assms by (simp add: retire_and_settle_def ph wp_retire_old)
  qed
qed

lemma wp_read:
  assumes "db_errors \<E> \<subseteq> S" and "stage C w" and "Q () (w\<lparr>tick := Suc (tick w)\<rparr>)"
  shows "wp (transaction \<E> Some) Q (fails C S) w"
  using assms by (intro wp_db) simp_all

lemma wp_inputs:
  assumes "db_errors \<E> \<subseteq> S" and "stage C w"
    and "\<And>i. installed_generation i = generation_in M_Installed (manifests w) \<Longrightarrow> running i = active_operation w \<Longrightarrow>
      Q i (w\<lparr>tick := Suc (tick w)\<rparr>)"
  shows "wp (read_inputs \<E>) Q (fails C S) w"
  using assms unfolding wp_apply_inputs Let_def by (auto simp: fails_def db_errors_def)

lemma wp_transfer_foreign:
  assumes at: "running_at C p (new_there C) w" and S: "db_errors \<E> \<subseteq> S" and p: "7 \<le> phase_rank p"
  shows "wp (transfer_foreign \<E>) (ended C \<E>) (fails C S) w"
proof -
  have ph: "phase (run_journal w) = p" using running_journal [OF at] by simp
  have st: "stage C w" using running_stage [OF at] .
  have adv: "wp (advance \<E> ForeignTransferred None)
      (\<lambda>_. wp (unless_interrupted \<E> (retire_and_settle \<E> i)) (ended C \<E>) (fails C S)) (fails C S) v"
    if v: "running_at C p (new_there C) v" and b: "before p ForeignTransferred" for i v
  proof (rule wp_advance [OF v S])
    fix u assume u: "running_at C ForeignTransferred (new_there C) u"
    show "wp (unless_interrupted \<E> (retire_and_settle \<E> i)) (ended C \<E>) (fails C S) u"
      using u by (intro wp_unless_interrupted wp_retire_and_settle [where p = ForeignTransferred] running_stage [OF u]) (simp_all add: S)
  qed (use p b in \<open>simp_all add: before_def new_there_disk_at\<close>)
  show ?thesis unfolding transfer_foreign_def wp_bind
    by (intro wp_inputs wp_read S st) (use at p S st in \<open>auto simp: ph intro!: wp_read adv wp_retire_and_settle\<close>)
qed

lemma wp_finish_committed:
  assumes "stage_at C ManifestCommitted w" and "new_there C (disk w) (manifests w)"
    and "apply_row w = Some r" "row_journal r = j\<lparr>phase := ManifestCommitted\<rparr>" and S: "db_errors \<E> \<subseteq> S"
  shows "wp (unless_interrupted \<E> (transfer_foreign \<E>)) (ended C \<E>) (fails C S) (w\<lparr>run_journal := j\<lparr>phase := ManifestCommitted\<rparr>\<rparr>)"
proof -
  have "running_at C ManifestCommitted (new_there C) (w\<lparr>run_journal := j\<lparr>phase := ManifestCommitted\<rparr>\<rparr>)"
    using assms by (simp add: running_at_def synced_def)
  then show ?thesis using running_stage [of C ManifestCommitted "new_there C"]
    by (intro wp_unless_interrupted wp_transfer_foreign [where p = ManifestCommitted]) (blast, simp_all add: S)
qed

lemma wp_finish_installed:
  assumes at: "running_at C p D w" and S: "db_errors \<E> \<subseteq> S" and p: "6 \<le> phase_rank p"
    and D: "\<And>d ms. D d ms \<Longrightarrow> disk_at C p d ms"
  shows "wp (finish_installed \<E>) (ended C \<E>) (fails C S) w"
proof -
  have ph: "phase (run_journal w) = p" "p \<noteq> Settled" using running_journal [OF at] by simp_all
  show ?thesis
  proof (cases "before p ManifestCommitted")
    case True
    then have pn: "p = NewInstalled" using p by (cases p) (simp_all add: before_def)
    have ip: "running_at C NewInstalled (new_in_place C) w"
      using at D by (auto simp: pn running_at_def disk_at_def)
    have "wp (transaction \<E> (commit_apply (run_journal w)))
        (\<lambda>_. wp (m_modify (\<lambda>v. v\<lparr>run_journal := (run_journal w)\<lparr>phase := ManifestCommitted\<rparr>\<rparr>))
          (\<lambda>_. wp (unless_interrupted \<E> (transfer_foreign \<E>)) (ended C \<E>) (fails C S)) (fails C S)) (fails C S) w"
      by (rule wp_commit [OF ip S]) (auto intro!: wp_finish_committed S)
    then show ?thesis using True by (simp add: finish_installed_def ph)
  next
    case False
    then have "running_at C p (new_there C) w" "7 \<le> phase_rank p"
      using at D by (auto simp: running_at_def disk_at_def before_def new_there_def)
    then show ?thesis using False S by (simp add: finish_installed_def ph wp_transfer_foreign)
  qed
qed

section \<open>The swap\<close>

definition run_errors :: "apply_env \<Rightarrow> apply_error set" where
  "run_errors \<E> = db_errors \<E> \<union> {InstallNotRestored, WaitNotRestored, KilledWhileWaiting, FolderFailed}"

lemma db_run_errors: "db_errors \<E> \<subseteq> run_errors \<E>"
  by (auto simp: run_errors_def)

definition built :: "apply_case \<Rightarrow> (slot \<Rightarrow> folder option) \<Rightarrow> (revision \<times> manifest_state) list \<Rightarrow> bool" where
  "built C d ms \<longleftrightarrow> at_home C d \<and> d SlotBuilding = Some (case_generation C)"

text \<open>After the kept files have left: the previous manifest is retired where its folder is gone.\<close>

definition way_made :: "apply_case \<Rightarrow> (slot \<Rightarrow> folder option) \<Rightarrow> (revision \<times> manifest_state) list \<Rightarrow> bool" where
  "way_made C d ms \<longleftrightarrow> built C d ms \<and> (d SlotPrevious = None \<longrightarrow> gens M_Previous ms = [])"

definition moved_aside :: "apply_case \<Rightarrow> (slot \<Rightarrow> folder option) \<Rightarrow> (revision \<times> manifest_state) list \<Rightarrow> bool" where
  "moved_aside C d ms \<longleftrightarrow> set_aside C d ms \<and> d SlotBuilding = Some (case_generation C)"

text \<open>What a rename between the slots does to a stage between the build and the installation.\<close>

lemma running_rename:
  assumes "running_at C p D w" and "3 \<le> phase_rank p" "phase_rank p < 6"
    and "D' d (manifests w)" and "at_home C d \<or> set_aside C d (manifests w) \<or> new_in_place C d (manifests w)"
    and "\<forall>s. d s = None \<or> (\<exists>t. d s = disk w t)"
  shows "running_at C p D' (w\<lparr>tick := n, disk := d\<rparr>)"
proof -
  have "known_folders C (disk w)" using assms(1) by (simp add: running_at_def stage_at_def)
  then have "known_folders C d" using assms(6) unfolding known_folders_def by (metis option.distinct(1))
  then show ?thesis using assms(1-5) by (auto simp: running_at_def stage_at_def synced_def disk_at_def)
qed

lemma stop_apply:
  assumes "running_at C p D w" and "phase_rank p < 6" and "\<And>d ms. D d ms \<Longrightarrow> at_home C d"
  shows "wp (end_apply \<E> st) (ended C \<E>) (fails C (run_errors \<E>)) w"
  by (rule wp_end [OF assms(1) db_run_errors assms(2,3)]) (auto intro: ended_settled)

lemma wp_restore_old_view:
  assumes at: "running_at C p D w" and p: "3 \<le> phase_rank p" "phase_rank p < 6"
    and D: "\<And>d ms. D d ms \<Longrightarrow> set_aside C d ms" and native: "\<not> falls_back \<E>"
  shows "wp (restore_old_view \<E>) (\<lambda>r w'. case r of Inl _ \<Rightarrow> stage C w' | Inr _ \<Rightarrow> running_at C p (\<lambda>d ms. at_home C d) w') F w"
proof -
  have sa: "set_aside C (disk w) (manifests w)" using D running_cond [OF at] .
  let ?d = "(disk w)(SlotPrevious := None, SlotView := disk w SlotPrevious)"
  have d: "\<forall>s. ?d s = None \<or> (\<exists>t. ?d s = disk w t)" by auto
  have "at_home C ?d" using sa by (simp add: at_home_def set_aside_def)
  then have "running_at C p (\<lambda>d ms. at_home C d) (w\<lparr>tick := n, disk := ?d\<rparr>)" for n
    using running_rename [OF at p _ _ d, of "\<lambda>d ms. at_home C d"] by blast
  then show ?thesis using running_stage [OF at]
    by (simp add: restore_old_view_def wp_rename [OF native] Let_def split: rename_answer.split)
qed

lemma wp_move_aside:
  assumes at: "running_at C p (way_made C) w" and p: "3 \<le> phase_rank p" "phase_rank p < 6" and old: "case_view C \<noteq> None" and native: "\<not> falls_back \<E>"
  shows "wp (move_aside \<E>) (\<lambda>a w'. running_at C p (if a = AttemptEnded AsideMoved then moved_aside C else way_made C) w') F w"
proof -
  have wf: "way_made C (disk w) (manifests w)" using running_cond [OF at] .
  show ?thesis
  proof (cases "disk w SlotPrevious")
    case (Some f)
    then show ?thesis using at by (auto simp: move_aside_def wp_rename [OF native] Let_def split: rename_answer.split)
  next
    case None
  let ?d = "(disk w)(SlotView := None, SlotPrevious := disk w SlotView)"
  have d: "\<forall>s. ?d s = None \<or> (\<exists>t. ?d s = disk w t)" by auto
  have ma: "moved_aside C ?d (manifests w)" using wf old None
    by (simp add: moved_aside_def set_aside_def way_made_def built_def at_home_def)
  then have "set_aside C ?d (manifests w)" by (simp only: moved_aside_def)
  then have "running_at C p (moved_aside C) (w\<lparr>tick := n, disk := ?d\<rparr>)" for n
    by (intro running_rename [where D = "way_made C"] at p ma d disjI2 disjI1)
  then show ?thesis using at
    by (auto simp: move_aside_def wp_rename [OF native] Let_def split: rename_answer.split)
  qed
qed

lemma wp_wait_aside:
  assumes "running_at C p (way_made C) w" and "3 \<le> phase_rank p" "phase_rank p < 6" and "case_view C \<noteq> None" and "\<not> falls_back \<E>"
  shows "wp (wait_aside \<E> n) (\<lambda>a w'. running_at C p (if a = AsideMoved then moved_aside C else way_made C) w')
    (fails C (run_errors \<E>)) w"
  using assms(1)
proof (induction n arbitrary: w)
  case 0
  then show ?case using running_stage [OF 0] by (simp add: fails_def run_errors_def)
next
  case (Suc n)
  have "wp (move_aside \<E>) (\<lambda>a. wp (case a of AttemptEnded r \<Rightarrow> m_ret r | Held \<Rightarrow> wait_aside \<E> n)
      (\<lambda>a w'. running_at C p (if a = AsideMoved then moved_aside C else way_made C) w') (fails C (run_errors \<E>)))
      (fails C (run_errors \<E>)) (w\<lparr>tick := k\<rparr>)" for k
  proof (rule wp_mono [OF wp_move_aside])
    show "running_at C p (way_made C) (w\<lparr>tick := k\<rparr>)" using Suc.prems by simp
    fix a w' assume "running_at C p (if a = AttemptEnded AsideMoved then moved_aside C else way_made C) w'"
    then show "wp (case a of AttemptEnded r \<Rightarrow> m_ret r | Held \<Rightarrow> wait_aside \<E> n)
      (\<lambda>a w'. running_at C p (if a = AsideMoved then moved_aside C else way_made C) w') (fails C (run_errors \<E>)) w'"
      using Suc.IH by (cases a) simp_all
  qed (use assms in simp_all)
  then show ?case using Suc.prems by simp
qed

lemma wp_record_wait:
  assumes at: "running_at C BuildVerified D w" and Q: "\<And>w'. running_at C BuildVerified D w' \<Longrightarrow> Q () w'"
  shows "wp (transaction \<E> (record_apply_wait (operation_id (run_journal w)))) Q (fails C (run_errors \<E>)) w"
proof (rule wp_db [OF db_run_errors running_stage [OF at]])
  obtain r where r: "apply_row w = Some r" "row_at C BuildVerified r" "run_journal w = row_journal r"
    using at by (auto simp: running_at_def stage_at_def synced_def)
  let ?r = "r\<lparr>waiting_held := True\<rparr>"
  let ?v = "w\<lparr>tick := Suc (tick w), apply_row := Some ?r\<rparr>"
  have "row_checks ?r" using r(2) row_checks_open [of r] row_checks_open [of ?r] by (simp add: row_at_def)
  then have "row_at C BuildVerified ?r" "record_apply_wait (operation_id (run_journal w)) (w\<lparr>tick := Suc (tick w)\<rparr>) = Some ?v"
    using r by (simp_all add: row_at_def record_apply_wait_def with_row_def update_row_def row_forward_def)
  moreover then have "running_at C BuildVerified D ?v"
    using at r by (simp add: running_at_def stage_at_def synced_def)
  ultimately show "\<exists>w'. record_apply_wait (operation_id (run_journal w)) (w\<lparr>tick := Suc (tick w)\<rparr>) = Some w' \<and> Q () w'"
    using Q by blast
qed

lemma wp_move_old_view_aside:
  assumes at: "running_at C BuildVerified (way_made C) w" and old: "case_view C \<noteq> None" and native: "\<not> falls_back \<E>"
  shows "wp (move_old_view_aside \<E>)
    (\<lambda>(a, waited) w'. running_at C BuildVerified (if a = AsideMoved then moved_aside C else way_made C) w')
    (fails C (run_errors \<E>)) w"
  unfolding move_old_view_aside_def wp_bind
proof (rule wp_mono [OF wp_move_aside [OF at _ _ old native]])
  fix a w' assume w': "running_at C BuildVerified (if a = AttemptEnded AsideMoved then moved_aside C else way_made C) w'"
  let ?Q = "\<lambda>(a, waited) w'. running_at C BuildVerified (if a = AsideMoved then moved_aside C else way_made C) w'"
  show "wp (case a of AttemptEnded r \<Rightarrow> m_ret (r, False)
       | Held \<Rightarrow> m_bind (m_get run_journal) (\<lambda>j.
           m_bind (transaction \<E> (record_apply_wait (operation_id j))) (\<lambda>_.
           m_bind (wait_aside \<E> (poll_limit \<E>)) (\<lambda>r. m_ret (r, True))))) ?Q (fails C (run_errors \<E>)) w'"
  proof (cases a)
    case (AttemptEnded r)
    then show ?thesis using w' by simp
  next
    case Held
    have "wp (transaction \<E> (record_apply_wait (operation_id (run_journal w'))))
      (\<lambda>_. wp (wait_aside \<E> (poll_limit \<E>)) (\<lambda>r. wp (m_ret (r, True)) ?Q (fails C (run_errors \<E>))) (fails C (run_errors \<E>)))
      (fails C (run_errors \<E>)) w'"
    proof (rule wp_record_wait)
      show "running_at C BuildVerified (way_made C) w'" using w' Held by simp
      fix v assume "running_at C BuildVerified (way_made C) v"
      then show "wp (wait_aside \<E> (poll_limit \<E>)) (\<lambda>r. wp (m_ret (r, True)) ?Q (fails C (run_errors \<E>))) (fails C (run_errors \<E>)) v"
        using old native by (intro wp_mono [OF wp_wait_aside [where p = BuildVerified]]) simp_all
    qed
    then show ?thesis using Held by simp
  qed
qed simp_all

lemma wp_still_reserved:
  assumes "stage C w" and "\<And>ok n. Q ok (w\<lparr>tick := n\<rparr>)"
  shows "wp (still_reserved \<E> r) Q (fails C (run_errors \<E>)) w"
  unfolding still_reserved_def wp_bind using assms by (intro wp_inputs db_run_errors) auto

text \<open>The old View is set aside and the run goes on, or the run has ended.\<close>

definition aside_result :: "apply_case \<Rightarrow> apply_env \<Rightarrow> report option \<Rightarrow> world \<Rightarrow> bool" where
  "aside_result C \<E> x w \<longleftrightarrow>
     (case x of None \<Rightarrow> running_at C OldMoved (moved_aside C) w | Some rep \<Rightarrow> ended C \<E> rep w)"

lemma moved_aside_disk_at: "3 \<le> phase_rank q \<Longrightarrow> phase_rank q < 6 \<Longrightarrow> moved_aside C d ms \<Longrightarrow> disk_at C q d ms"
  by (simp add: moved_aside_def disk_at_def)

lemma wp_record_old_moved:
  assumes at: "running_at C p (moved_aside C) w" and p: "3 \<le> phase_rank p" "phase_rank p \<le> 5"
  shows "wp (advance \<E> OldMoved None) (\<lambda>_. aside_result C \<E> None) (fails C (run_errors \<E>)) w"
  by (rule wp_advance [OF at db_run_errors]) (use p in \<open>simp_all add: aside_result_def moved_aside_disk_at\<close>)

lemma wp_after_wait:
  assumes at: "running_at C BuildVerified (moved_aside C) w" and native: "\<not> falls_back \<E>"
  shows "wp (after_wait \<E> r) (aside_result C \<E>) (fails C (run_errors \<E>)) w"
  unfolding after_wait_def wp_bind
proof (rule wp_advance [OF at db_run_errors])
  fix v assume v: "running_at C WaitingForRelease (moved_aside C) v"
  have restore: "wp (restore_old_view \<E>) (\<lambda>x. wp (case x of Inl _ \<Rightarrow> m_fail WaitNotRestored
         | Inr _ \<Rightarrow> m_bind (end_apply \<E> CatalogMoved) (\<lambda>rep. m_ret (Some rep))) (aside_result C \<E>) (fails C (run_errors \<E>)))
      (fails C (run_errors \<E>)) (v\<lparr>tick := n\<rparr>)" for n
  proof (rule wp_mono [OF wp_restore_old_view])
    show "running_at C WaitingForRelease (moved_aside C) (v\<lparr>tick := n\<rparr>)" using v by simp
    fix x v' assume v': "case x of Inl _ \<Rightarrow> stage C v' | Inr _ \<Rightarrow> running_at C WaitingForRelease (\<lambda>d ms. at_home C d) v'"
    show "wp (case x of Inl _ \<Rightarrow> m_fail WaitNotRestored
         | Inr _ \<Rightarrow> m_bind (end_apply \<E> CatalogMoved) (\<lambda>rep. m_ret (Some rep))) (aside_result C \<E>) (fails C (run_errors \<E>)) v'"
    proof (cases x)
      case (Inl e)
      then show ?thesis using v' by (simp add: fails_def run_errors_def)
    next
      case (Inr u)
      then show ?thesis using v' by (auto intro!: stop_apply simp: aside_result_def)
    qed
  qed (simp_all add: moved_aside_def native)
  show "wp (still_reserved \<E> r) (\<lambda>ok. wp (if ok then m_bind (advance \<E> OldMoved None) (\<lambda>_. m_ret None)
       else m_bind (restore_old_view \<E>) (\<lambda>restored. case restored of Inl _ \<Rightarrow> m_fail WaitNotRestored
         | Inr _ \<Rightarrow> m_bind (end_apply \<E> CatalogMoved) (\<lambda>rep. m_ret (Some rep)))) (aside_result C \<E>) (fails C (run_errors \<E>)))
    (fails C (run_errors \<E>)) v"
    using v running_stage [OF v] restore
    by (intro wp_still_reserved) (auto intro!: wp_record_old_moved [where p = WaitingForRelease])
qed (simp_all add: moved_aside_disk_at)

lemma wp_set_old_view_aside:
  assumes at: "running_at C BuildVerified (way_made C) w" and old: "case_view C \<noteq> None" and native: "\<not> falls_back \<E>"
  shows "wp (set_old_view_aside \<E> r) (aside_result C \<E>) (fails C (run_errors \<E>)) w"
  unfolding set_old_view_aside_def wp_bind
proof (rule wp_mono [OF wp_move_old_view_aside [OF at old native]], clarify)
  fix a waited v assume v: "running_at C BuildVerified (if a = AsideMoved then moved_aside C else way_made C) v"
  have home: "\<And>d ms. way_made C d ms \<Longrightarrow> at_home C d" by (simp add: way_made_def built_def)
  show "wp (case a of AsideMoved \<Rightarrow> if waited then after_wait \<E> r else m_bind (advance \<E> OldMoved None) (\<lambda>_. m_ret None)
       | AsideCanceled \<Rightarrow> m_bind (cancel \<E>) (\<lambda>rep. m_ret (Some rep))
       | AsideRefused \<Rightarrow> m_bind (end_apply \<E> AsideFailed) (\<lambda>rep. m_ret (Some rep)))
     (aside_result C \<E>) (fails C (run_errors \<E>)) v"
  proof (cases a)
    case AsideMoved
    then show ?thesis using v wp_after_wait [of C v, OF _ native] wp_record_old_moved [of C BuildVerified v] by simp
  qed (use v home in \<open>auto simp: cancel_def aside_result_def intro!: stop_apply\<close>)
qed

section \<open>Installing\<close>

text \<open>What precedes the installation: the old View is set aside, or the reservation saw none.\<close>

definition can_install :: "apply_case \<Rightarrow> apply_phase \<Rightarrow> world \<Rightarrow> bool" where
  "can_install C p w \<longleftrightarrow>
     (if case_view C = None then p = BuildVerified \<and> running_at C p (built C) w
      else p = OldMoved \<and> running_at C p (moved_aside C) w)"

lemma can_install_running:
  assumes "can_install C p w"
  shows "\<exists>D. running_at C p D w" "3 \<le> phase_rank p" "phase_rank p < 6" "disk w SlotBuilding = Some (case_generation C)" "stage C w"
  using assms running_stage running_cond
  by (fastforce simp: can_install_def built_def moved_aside_def split: if_splits)+

lemma can_install_free:
  assumes "can_install C p w" and "disk w SlotView = None"
  shows "case_old C \<noteq> None \<longrightarrow> disk w SlotPrevious = case_old C \<and> gens M_Previous (manifests w) = []"
proof (cases "case_view C")
  case None
  then have "disk w SlotView = case_old C" using assms(1) running_cond [of C p "built C" w]
    by (auto simp: can_install_def built_def at_home_def)
  then show ?thesis using assms(2) by simp
next
  case (Some f)
  then have "moved_aside C (disk w) (manifests w)" using assms(1) running_cond by (fastforce simp: can_install_def)
  then show ?thesis by (simp add: moved_aside_def set_aside_def)
qed

lemma can_install_tick [simp]: "can_install C p (w\<lparr>tick := n\<rparr>) = can_install C p w"
  by (simp add: can_install_def)

lemma wp_installed:
  assumes at: "running_at C p (new_in_place C) w" and p: "3 \<le> phase_rank p" "phase_rank p < 6"
  shows "wp (advance \<E> NewInstalled None) (\<lambda>_. wp (unless_interrupted \<E> (finish_installed \<E>)) (ended C \<E>) (fails C (run_errors \<E>)))
    (fails C (run_errors \<E>)) w"
proof (rule wp_advance [OF at db_run_errors])
  fix v assume v: "running_at C NewInstalled (new_in_place C) v"
  show "wp (unless_interrupted \<E> (finish_installed \<E>)) (ended C \<E>) (fails C (run_errors \<E>)) v"
    using v by (intro wp_unless_interrupted running_stage [OF v] wp_finish_installed [where p = NewInstalled and D = "new_in_place C"] db_run_errors)
      (simp_all add: disk_at_def)
qed (use p in \<open>simp_all add: disk_at_def\<close>)

lemma wp_not_installed:
  assumes at: "can_install C p w" and native: "\<not> falls_back \<E>"
  shows "wp (install_refused \<E> (case_view C \<noteq> None)) (ended C \<E>) (fails C (run_errors \<E>)) w"
proof (cases "case_view C")
  case None
  then have "running_at C p (built C) w" using at by (auto simp: can_install_def)
  then have "wp (end_apply \<E> NotInstalledStop) (ended C \<E>) (fails C (run_errors \<E>)) w"
    using can_install_running(3) [OF at] by (rule stop_apply) (simp add: built_def)
  then show ?thesis using None by (simp add: install_refused_def)
next
  case (Some o')
  then have ma: "running_at C p (moved_aside C) w" using at by (auto simp: can_install_def)
  have "wp (restore_old_view \<E>) (\<lambda>x. wp (case x of Inl _ \<Rightarrow> m_fail InstallNotRestored
      | Inr _ \<Rightarrow> end_apply \<E> NotInstalledStop) (ended C \<E>) (fails C (run_errors \<E>))) (fails C (run_errors \<E>)) w"
  proof (rule wp_mono [OF wp_restore_old_view [OF ma can_install_running(2,3) [OF at] _ native]])
    fix x v assume v: "case x of Inl _ \<Rightarrow> stage C v | Inr _ \<Rightarrow> running_at C p (\<lambda>d ms. at_home C d) v"
    then show "wp (case x of Inl _ \<Rightarrow> m_fail InstallNotRestored | Inr _ \<Rightarrow> end_apply \<E> NotInstalledStop)
        (ended C \<E>) (fails C (run_errors \<E>)) v"
    proof (cases x)
      case (Inl e)
      then show ?thesis using v by (simp add: fails_def run_errors_def)
    next
      case (Inr u)
      then show ?thesis using v can_install_running(3) [OF at] by (auto intro!: stop_apply)
    qed
  qed (simp_all add: moved_aside_def)
  then show ?thesis using Some by (simp add: install_refused_def)
qed

lemma wp_install:
  assumes at: "can_install C p w" and native: "\<not> falls_back \<E>"
  shows "wp (install \<E> (case_view C \<noteq> None)) (ended C \<E>) (fails C (run_errors \<E>)) w"
proof -
  obtain D where D: "running_at C p D w" using can_install_running(1) [OF at] by blast
  let ?d = "(disk w)(SlotBuilding := None, SlotView := disk w SlotBuilding)"
  have d: "\<forall>s. ?d s = None \<or> (\<exists>t. ?d s = disk w t)" by auto
  have inst: "running_at C p (new_in_place C) (w\<lparr>tick := n, disk := ?d\<rparr>)" if "disk w SlotView = None" for n
  proof -
    have "new_in_place C ?d (manifests w)"
      using can_install_running(4) [OF at] can_install_free [OF at that] by (simp add: new_in_place_def)
    then show ?thesis using d by (intro running_rename [where D = D] D can_install_running(2,3) [OF at] disjI2) simp_all
  qed
  have refused: "wp (install_refused \<E> (case_view C \<noteq> None)) (ended C \<E>) (fails C (run_errors \<E>)) (w\<lparr>tick := Suc (tick w)\<rparr>)"
    using at by (intro wp_not_installed [where p = p] native) simp
  show ?thesis unfolding install_def wp_bind wp_rename [OF native] Let_def
    using refused wp_installed [OF inst can_install_running(2,3) [OF at]]
    by (auto split: rename_answer.split)
qed

section \<open>Making way and swapping\<close>

lemma stage_at_manifests:
  assumes "stage_at C p w" and "3 \<le> phase_rank p" "phase_rank p < 6" and "at_home C (disk w)" and "before_commit C ms"
  shows "stage_at C p (w\<lparr>manifests := ms\<rparr>)"
  using assms by (simp add: stage_at_def manifests_at_def disk_at_def)

lemma wp_retire_previous:
  assumes at: "running_at C p (built C) w" and p: "3 \<le> phase_rank p" "phase_rank p < 6"
    and Q: "\<And>w'. running_at C p (way_made C) w' \<Longrightarrow> disk w' = disk w \<Longrightarrow> Q () w'"
  shows "wp (transaction \<E> retire_previous) Q (fails C (run_errors \<E>)) w"
proof (rule wp_db [OF db_run_errors running_stage [OF at]])
  let ?w = "w\<lparr>tick := Suc (tick w)\<rparr>"
  have bc: "before_commit C (manifests ?w)" and h: "built C (disk w) (manifests w)"
    using at p by (auto simp: running_at_def stage_at_def manifests_at_def)
  then obtain ms where ms: "retire_previous ?w = Some (?w\<lparr>manifests := ms\<rparr>)" "before_commit C ms" "gens M_Previous ms = []"
    by (rule_tac retire_previous_states [of C ?w]) (auto simp: before_commit_def)
  have "running_at C p (way_made C) (?w\<lparr>manifests := ms\<rparr>)"
    using at ms(2,3) h p stage_at_manifests [of C p ?w ms]
    by (simp add: running_at_def way_made_def built_def synced_def)
  then show "\<exists>w'. retire_previous ?w = Some w' \<and> Q () w'" using ms(1) Q by simp
qed

lemma running_previous_empty:
  assumes "running_at C p (built C) w" and "3 \<le> phase_rank p" "phase_rank p < 6"
  shows "running_at C p (built C) (w\<lparr>tick := n, disk := (disk w)(SlotPrevious := None)\<rparr>)"
proof -
  have "built C (disk w) (manifests w)" using running_cond [OF assms(1)] .
  then have b: "built C ((disk w)(SlotPrevious := None)) (manifests w)" by (simp add: built_def at_home_def)
  moreover have "\<forall>s. ((disk w)(SlotPrevious := None)) s = None \<or> (\<exists>t. ((disk w)(SlotPrevious := None)) s = disk w t)" by auto
  ultimately show ?thesis using assms by (intro running_rename [where D = "built C"]) (simp_all add: built_def)
qed

definition way_result :: "apply_case \<Rightarrow> apply_phase \<Rightarrow> apply_stop option \<Rightarrow> world \<Rightarrow> bool" where
  "way_result C p st w \<longleftrightarrow>
     (if st = None then running_at C p (way_made C) w else running_at C p (built C) w)"

lemma way_made_built: "running_at C p (way_made C) w \<Longrightarrow> running_at C p (built C) w"
  by (simp add: running_at_def way_made_def)

lemma wp_kept_moved:
  assumes at: "running_at C p (built C) w" and p: "3 \<le> phase_rank p" "phase_rank p < 6"
  shows "wp (kept_moved \<E> failed) (way_result C p) (fails C (run_errors \<E>)) w"
proof -
  have after: "wp (if failed \<noteq> 0 then m_ret (Some (KeptNotMoved failed))
      else if gone then m_bind (transaction \<E> retire_previous) (\<lambda>_. m_ret None)
      else m_ret None) (way_result C p) (fails C (run_errors \<E>)) v"
    if v: "running_at C p (built C) v" and gone: "\<not> gone \<Longrightarrow> disk v SlotPrevious \<noteq> None" for v gone
  proof (cases "failed = 0 \<and> gone")
    case True
    then show ?thesis using v p by (auto simp: way_result_def intro!: wp_retire_previous)
  next
    case False
    then show ?thesis using v gone by (auto simp: way_result_def way_made_def running_at_def)
  qed
  have still: "running_at C p (built C) (w\<lparr>tick := n\<rparr>)" "running_at C p (built C) (w\<lparr>tick := n, disk := (disk w)(SlotPrevious := None)\<rparr>)" for n
    using at running_previous_empty [OF at p] by simp_all
  have "wp (slot_there \<E> SlotPrevious) (\<lambda>there. wp (m_ret (\<not> there)) (\<lambda>gone. wp (if failed \<noteq> 0 then m_ret (Some (KeptNotMoved failed))
      else if gone then m_bind (transaction \<E> retire_previous) (\<lambda>_. m_ret None)
      else m_ret None) (way_result C p) (fails C (run_errors \<E>))) (fails C (run_errors \<E>))) (fails C (run_errors \<E>)) v"
    if "running_at C p (built C) v" for v
    unfolding wp_slot_there wp_ret using that by (intro after) auto
  from this [OF still(1)] this [OF still(2)]
  show ?thesis unfolding kept_moved_def clear_previous_def wp_bind by (intro wp_empty_slot)
qed

lemma wp_move_kept:
  assumes at: "running_at C p (built C) w" and p: "3 \<le> phase_rank p" "phase_rank p < 6"
  shows "wp (move_kept \<E>) (way_result C p) (fails C (run_errors \<E>)) w"
proof (cases "kept_stop \<E> (tick w)")
  case (Some s)
  then show ?thesis using at by (simp add: move_kept_def way_result_def)
next
  case None
  then show ?thesis using at p running_stage [OF at]
    by (simp add: move_kept_def) (intro wp_read db_run_errors; simp add: wp_kept_moved)
qed

lemma wp_make_way:
  assumes at: "running_at C p (built C) w" and p: "3 \<le> phase_rank p" "phase_rank p < 6"
  shows "wp (make_way \<E> old) (way_result C p) (fails C (run_errors \<E>)) w"
  unfolding make_way_def wp_bind
  by (rule wp_mono [OF wp_move_kept [OF at p]])
    (auto simp: way_result_def wp_slot_there way_made_built split: option.split)

lemma wp_slot_is:
  assumes "\<And>b n. Q b (w\<lparr>tick := n\<rparr>)"
  shows "wp (slot_is \<E> s i) Q F w"
proof (cases i)
  case None
  then show ?thesis using assms [of False "tick w"] by (simp add: slot_is_def)
next
  case (Some r)
  then show ?thesis using assms by (simp add: slot_is_def wp_observe)
qed

lemma wp_swap_ready:
  assumes "\<And>st n. Q st (w\<lparr>tick := n\<rparr>)"
  shows "wp (swap_ready \<E> e) Q F w"
  unfolding swap_ready_def root_is_def wp_bind
  using assms by (auto simp: wp_slot_there intro!: wp_slot_is)

lemma wp_install_after:
  assumes x: "aside_result C \<E> x v" and old: "case_view C \<noteq> None" and native: "\<not> falls_back \<E>"
  shows "wp (install_after \<E> x) (ended C \<E>) (fails C (run_errors \<E>)) v"
proof (cases x)
  case None
  then have "can_install C OldMoved v" using x old by (simp add: aside_result_def can_install_def)
  then have "wp (install \<E> True) (ended C \<E>) (fails C (run_errors \<E>)) (v\<lparr>tick := Suc (tick v)\<rparr>)" "stage C v"
    using wp_install [of C OldMoved "v\<lparr>tick := Suc (tick v)\<rparr>" \<E>] old native can_install_running(5) by simp_all
  then show ?thesis using None by (simp add: install_after_def wp_unless_interrupted)
qed (use x in \<open>simp add: aside_result_def install_after_def\<close>)

lemma stop_built:
  "running_at C p (built C) w \<Longrightarrow> phase_rank p < 6 \<Longrightarrow> wp (end_apply \<E> st) (ended C \<E>) (fails C (run_errors \<E>)) w"
  by (rule stop_apply [where D = "built C"]) (simp_all add: built_def)

lemma wp_swap_over_old:
  assumes at: "running_at C BuildVerified (way_made C) w" and old: "case_view C \<noteq> None" and native: "\<not> falls_back \<E>"
  shows "wp (swap_over_old \<E> r e) (ended C \<E>) (fails C (run_errors \<E>)) w"
  unfolding swap_over_old_def wp_bind
proof (rule wp_swap_ready)
  fix st :: "apply_stop option" and n
  show "wp (case st of
      Some s \<Rightarrow> end_apply \<E> s
    | None \<Rightarrow> m_bind (set_old_view_aside \<E> r) (install_after \<E>)) (ended C \<E>) (fails C (run_errors \<E>)) (w\<lparr>tick := n\<rparr>)"
  proof (cases st)
    case (Some s)
    then show ?thesis using way_made_built [OF at] by (simp add: stop_built)
  next
    case None
    then have wf: "running_at C BuildVerified (way_made C) (w\<lparr>tick := n\<rparr>)"
      using at by simp
    have "wp (set_old_view_aside \<E> r) (\<lambda>x. wp (install_after \<E> x) (ended C \<E>) (fails C (run_errors \<E>)))
        (fails C (run_errors \<E>)) (w\<lparr>tick := n\<rparr>)"
      by (rule wp_mono [OF wp_set_old_view_aside [OF wf old native]]) (simp_all add: wp_install_after old native)
    then show ?thesis using None by simp
  qed
qed

lemma wp_swap_when_clear:
  assumes w: "way_result C BuildVerified st w" and e: "(expected_view e = None) = (case_view C = None)"
    and native: "\<not> falls_back \<E>"
  shows "wp (swap_when_clear \<E> r e st) (ended C \<E>) (fails C (run_errors \<E>)) w"
proof (cases st)
  case (Some s)
  then show ?thesis using w by (simp add: swap_when_clear_def way_result_def stop_built)
next
  case None
  then have wm: "running_at C BuildVerified (way_made C) w" using w by (simp add: way_result_def)
  show ?thesis
  proof (cases "case_view C")
    case none: None
    then have "can_install C BuildVerified w" using way_made_built [OF wm] by (simp add: can_install_def)
    then show ?thesis using None none e wp_install [of C BuildVerified w \<E>, OF _ native] by (simp add: swap_when_clear_def)
  next
    case (Some f)
    then have "expected_view e \<noteq> None" using e by auto
    then show ?thesis using None Some wp_swap_over_old [OF wm _ native, of r e] by (auto simp: swap_when_clear_def)
  qed
qed

lemma wp_swap:
  assumes at: "running_at C BuildVerified (built C) w" and native: "\<not> falls_back \<E>"
  shows "wp (swap \<E> r) (ended C \<E>) (fails C (run_errors \<E>)) w"
proof -
  let ?e = "expected (run_journal w)"
  have ev: "(expected_view ?e = None) = (case_view C = None)" using running_journal [OF at] by simp
  have way: "wp (make_way \<E> (expected_view ?e \<noteq> None)) (\<lambda>st. wp (swap_when_clear \<E> r ?e st) (ended C \<E>) (fails C (run_errors \<E>)))
      (fails C (run_errors \<E>)) (w\<lparr>tick := n\<rparr>)" for n
    using at by (intro wp_mono [OF wp_make_way [where p = BuildVerified]] wp_swap_when_clear) (simp_all add: ev native)
  show ?thesis unfolding swap_def wp_bind
    using way at by (intro wp_still_reserved running_stage [OF at]) (simp add: cancel_def stop_built)
qed

section \<open>Building\<close>

definition home :: "apply_case \<Rightarrow> (slot \<Rightarrow> folder option) \<Rightarrow> (revision \<times> manifest_state) list \<Rightarrow> bool" where
  "home C d ms \<longleftrightarrow> at_home C d"

lemma home_disk_at: "phase_rank q < 6 \<Longrightarrow> home C d ms \<Longrightarrow> disk_at C q d ms"
  by (simp add: home_def disk_at_def)

lemma built_disk_at: "phase_rank q < 6 \<Longrightarrow> built C d ms \<Longrightarrow> disk_at C q d ms"
  by (simp add: built_def disk_at_def)

lemma built_home: "running_at C p (built C) w \<Longrightarrow> running_at C p (home C) w"
  by (simp add: running_at_def built_def home_def)

lemma stop_home:
  "running_at C p (home C) w \<Longrightarrow> phase_rank p < 6 \<Longrightarrow> wp (end_apply \<E> st) (ended C \<E>) (fails C (run_errors \<E>)) w"
  by (rule stop_apply [where D = "home C"]) (simp_all add: home_def)

lemma running_building:
  assumes "running_at C p (home C) w" and "x = None \<or> x = Some (case_generation C)"
  shows "running_at C p (home C) (w\<lparr>tick := n, disk := (disk w)(SlotBuilding := x)\<rparr>)"
proof -
  have "stage_at C p (w\<lparr>disk := (disk w)(SlotBuilding := x)\<rparr>)"
    using assms by (intro stage_at_building) (auto simp: running_at_def)
  then show ?thesis using assms(1) unfolding running_tick_first
    by (simp add: running_at_def synced_def home_def at_home_def)
qed

definition building_result :: "apply_case \<Rightarrow> apply_phase \<Rightarrow> nat + file_identity \<Rightarrow> world \<Rightarrow> bool" where
  "building_result C p x w \<longleftrightarrow>
     (case x of
        Inl _ \<Rightarrow> running_at C p (home C) w
      | Inr i \<Rightarrow> running_at C p (built C) w \<and> i = case_identify C (case_generation C))"

lemma wp_create_building:
  assumes at: "running_at C p (home C) w" and ident: "identify \<E> = case_identify C"
  shows "wp (create_building \<E>) (building_result C p) (fails C (run_errors \<E>)) w"
proof -
  have g: "journal_generation (run_journal w) = case_generation C" using running_journal [OF at] by simp
  let ?d = "(disk w)(SlotBuilding := Some (case_generation C))"
  have new: "running_at C p (home C) (w\<lparr>tick := n, disk := ?d\<rparr>)" for n using running_building [OF at] by simp
  have h: "home C ?d (manifests w)" using running_cond [OF new [of 0]] by simp
  have "running_at C p (built C) (w\<lparr>tick := n, disk := ?d\<rparr>)" for n
    by (rule running_weaken [OF new]) (use h in \<open>simp add: built_def home_def\<close>)
  then have b: "running_at C p (built C) (w\<lparr>disk := ?d\<rparr>)" by (simp only: running_tick_first)
  then show ?thesis
    using running_stage [OF at] running_stage [OF b]
    by (simp add: create_building_def wp_observe g building_result_def fails_def run_errors_def ident)
qed

lemma wp_make_building:
  assumes at: "running_at C p (home C) w" and ident: "identify \<E> = case_identify C"
  shows "wp (make_building \<E>) (building_result C p) (fails C (run_errors \<E>)) w"
proof -
  have rest: "wp (if k \<noteq> 0 then m_ret (Inl k) else create_building \<E>) (building_result C p) (fails C (run_errors \<E>)) v"
    if "running_at C p (home C) v" for k v
    using wp_create_building [OF that ident] that by (simp add: building_result_def)
  have "running_at C p (home C) (w\<lparr>tick := n\<rparr>)" "running_at C p (home C) (w\<lparr>tick := n, disk := (disk w)(SlotBuilding := None)\<rparr>)" for n
    using at running_building [OF at] by simp_all
  from this [THEN rest] at [THEN rest]
  have "wp (if there then clear_building \<E> else m_ret 0)
      (\<lambda>k. wp (if k \<noteq> 0 then m_ret (Inl k) else create_building \<E>) (building_result C p) (fails C (run_errors \<E>)))
      (fails C (run_errors \<E>)) (w\<lparr>tick := m\<rparr>)" for there m
    unfolding wp_if [of there] by (intro conjI impI wp_clear_building) simp_all
  then show ?thesis by (simp only: make_building_def wp_slot_there wp_bind)
qed

lemma wp_place_entries:
  assumes "running_at C p (built C) w" and "phase_rank p < 6"
  shows "wp (place_entries \<E> n)
    (\<lambda>x w'. case x of None \<Rightarrow> running_at C p (built C) w' | Some rep \<Rightarrow> ended C \<E> rep w') (fails C (run_errors \<E>)) w"
  using assms(1)
proof (induction n arbitrary: w)
  case (Suc n)
  have stop: "wp (end_apply \<E> st) (ended C \<E>) (fails C (run_errors \<E>)) (w\<lparr>tick := k\<rparr>)" for st k
  proof (rule stop_apply [where D = "built C"])
    show "running_at C p (built C) (w\<lparr>tick := k\<rparr>)" using Suc.prems by simp
  qed (use assms(2) in \<open>simp_all add: built_def\<close>)
  show ?case using Suc.IH Suc.prems stop by (simp add: cancel_def)
qed simp

lemma wp_verify_and_swap:
  assumes at: "running_at C BuildingPhase (built C) w" and native: "\<not> falls_back \<E>"
  shows "wp (verify_and_swap \<E> r) (ended C \<E>) (fails C (run_errors \<E>)) w"
proof -
  have adv: "wp (advance \<E> BuildVerified None) (\<lambda>_. wp (unless_interrupted \<E> (swap \<E> r)) (ended C \<E>) (fails C (run_errors \<E>)))
      (fails C (run_errors \<E>)) (w\<lparr>tick := k\<rparr>)" for k
  proof (rule wp_advance [where p = BuildingPhase and D = "built C", OF _ db_run_errors])
    show "running_at C BuildingPhase (built C) (w\<lparr>tick := k\<rparr>)" using at by simp
    fix v assume v: "running_at C BuildVerified (built C) v"
    then show "wp (unless_interrupted \<E> (swap \<E> r)) (ended C \<E>) (fails C (run_errors \<E>)) v"
      by (intro wp_unless_interrupted running_stage [OF v] wp_swap native) simp
  qed (simp_all add: built_disk_at)
  show ?thesis using adv at by (simp add: verify_and_swap_def stop_built)
qed

lemma wp_fill_building:
  assumes at: "running_at C BuildingPhase (built C) w" and native: "\<not> falls_back \<E>"
  shows "wp (fill_building \<E> r) (ended C \<E>) (fails C (run_errors \<E>)) w"
  unfolding fill_building_def wp_bind
  by (rule wp_mono [OF wp_place_entries [OF at]]) (auto simp: wp_verify_and_swap native split: option.splits)

lemma wp_build_in:
  assumes made: "building_result C SourcesVerified made w" and native: "\<not> falls_back \<E>"
  shows "wp (build_in \<E> r made) (ended C \<E>) (fails C (run_errors \<E>)) w"
proof (cases made)
  case (Inl k)
  then show ?thesis using made by (simp add: build_in_def building_result_def stop_home)
next
  case (Inr i)
  then have at: "running_at C SourcesVerified (built C) (w\<lparr>building_made := True\<rparr>)" "i = case_identify C (case_generation C)"
    using made by (simp_all add: building_result_def)
  have e: "expected_view (expected (run_journal w)) = map_option (case_identify C) (case_view C)"
    using running_journal(5) [OF at(1)] by simp
  have "wp (advance \<E> BuildingPhase (Some ((expected (run_journal w))\<lparr>expected_building := Some i\<rparr>)))
      (\<lambda>_. wp (unless_interrupted \<E> (fill_building \<E> r)) (ended C \<E>) (fails C (run_errors \<E>)))
      (fails C (run_errors \<E>)) (w\<lparr>building_made := True\<rparr>)"
  proof (rule wp_advance [OF at(1) db_run_errors])
    fix v assume v: "running_at C BuildingPhase (built C) v"
    then show "wp (unless_interrupted \<E> (fill_building \<E> r)) (ended C \<E>) (fails C (run_errors \<E>)) v"
      by (intro wp_unless_interrupted running_stage [OF v] wp_fill_building native) simp
  qed (simp_all add: e at(2) built_disk_at)
  then show ?thesis using Inr by (simp add: build_in_def)
qed

lemma wp_build:
  assumes at: "running_at C Reserved (home C) w" and ident: "identify \<E> = case_identify C" and native: "\<not> falls_back \<E>"
  shows "wp (build \<E> r) (ended C \<E>) (fails C (run_errors \<E>)) w"
proof -
  have made: "wp (unless_interrupted \<E> (m_bind (make_building \<E>) (build_in \<E> r))) (ended C \<E>) (fails C (run_errors \<E>)) v"
    if v: "running_at C SourcesVerified (home C) v" for v
  proof (rule wp_unless_interrupted [OF running_stage [OF v]])
    have "running_at C SourcesVerified (home C) (v\<lparr>tick := Suc (tick v)\<rparr>)" using v by simp
    then show "wp (m_bind (make_building \<E>) (build_in \<E> r)) (ended C \<E>) (fails C (run_errors \<E>)) (v\<lparr>tick := Suc (tick v)\<rparr>)"
      unfolding wp_bind by (intro wp_mono [OF wp_make_building [OF _ ident]] wp_build_in native) simp_all
  qed
  have adv: "wp (advance \<E> SourcesVerified None)
      (\<lambda>_. wp (unless_interrupted \<E> (m_bind (make_building \<E>) (build_in \<E> r))) (ended C \<E>) (fails C (run_errors \<E>)))
      (fails C (run_errors \<E>)) (w\<lparr>tick := k\<rparr>)" for k
    by (rule wp_advance [where p = Reserved and D = "home C", OF _ db_run_errors]) (use at made in \<open>simp_all add: home_disk_at\<close>)
  show ?thesis unfolding build_def
  proof (rule wp_unless_interrupted [OF running_stage [OF at]])
    show "wp (m_bind (ask (source_failures \<E>)) (\<lambda>n. if n \<noteq> 0 then end_apply \<E> (OriginalsUnverified n) else
       m_bind (advance \<E> SourcesVerified None) (\<lambda>_. unless_interrupted \<E> (m_bind (make_building \<E>) (build_in \<E> r)))))
       (ended C \<E>) (fails C (run_errors \<E>)) (w\<lparr>tick := Suc (tick w)\<rparr>)"
      using at adv by (simp add: stop_home)
  qed
qed

lemma wp_run:
  assumes at: "running_at C Reserved (home C) w" and ident: "identify \<E> = case_identify C" and native: "\<not> falls_back \<E>"
  shows "wp (run \<E> inputs) (ended C \<E>) (fails C (run_errors \<E>)) w"
  unfolding run_def wp_bind
  by (intro wp_inputs db_run_errors running_stage [OF at])
    (use at ident native in \<open>auto simp: stop_home wp_build split: option.split\<close>)

end
