(* ===== verification/ApplyProps.thy ===== *)
theory ApplyProps
  imports ApplyLaws
begin

text \<open>
  What an Apply and the recovery after it promise: whatever fails or stops, the View is the old one or the
  new one as a whole, the journal says which, and a recovery under working conditions settles it.
\<close>

section \<open>Between Applies\<close>

definition idle :: "world \<Rightarrow> bool" where
  "idle w \<longleftrightarrow> active_operation w = None \<and>
     (\<forall>r. apply_row w = Some r \<longrightarrow> phase (row_journal r) = Settled) \<and>
     distinct (map fst (manifests w)) \<and> gens M_Building (manifests w) = [] \<and>
     length (gens M_Installed (manifests w)) \<le> 1 \<and> length (gens M_Previous (manifests w)) \<le> 1 \<and>
     (\<forall>s f. disk w s = Some f \<longrightarrow> f \<le> highest_generation (manifests w))"

definition installed_view :: "world \<Rightarrow> revision option" where
  "installed_view w = generation_in M_Installed (manifests w)"

text \<open>The case of an Apply by its operation, and whether its reservation saw the View.\<close>

definition case_of :: "apply_env \<Rightarrow> world \<Rightarrow> uuid \<times> bool \<Rightarrow> apply_case" where
  "case_of \<E> w op = \<lparr>case_identify = identify \<E>, case_old = disk w SlotView, case_seen = snd op, case_installed = installed_view w,
     case_generation = Suc (highest_generation (manifests w)), case_operation = fst op\<rparr>"

lemma case_of_simps [simp]:
  "case_identify (case_of \<E> w op) = identify \<E>" "case_old (case_of \<E> w op) = disk w SlotView"
  "case_installed (case_of \<E> w op) = installed_view w" "case_operation (case_of \<E> w op) = fst op" "case_seen (case_of \<E> w op) = snd op"
  "case_generation (case_of \<E> w op) = Suc (highest_generation (manifests w))"
  by (simp_all add: case_of_def)

lemma idle_tick [simp]: "idle (w\<lparr>tick := n\<rparr>) = idle w"
  by (simp add: idle_def)

lemma highest_in: "k \<in> fst ` set ms \<Longrightarrow> k \<le> highest_generation ms"
  by (simp add: highest_generation_def)

lemma highest_append: "highest_generation (ms @ [(g, s)]) = max g (highest_generation ms)"
proof -
  have "insert 0 (set (map fst (ms @ [(g, s)]))) = insert g (insert 0 (set (map fst ms)))" by auto
  then show ?thesis unfolding highest_generation_def by (simp only: Max_insert finite_insert finite_set insert_not_empty simp_thms)
qed

lemma gens_append: "gens s (ms @ ns) = gens s ms @ gens s ns"
  by (simp add: gens_def)

lemma opt_list_generation: "length (gens s ms) \<le> 1 \<Longrightarrow> opt_list (generation_in s ms) = gens s ms"
  by (cases "gens s ms") (auto simp: generation_in_gens)

lemma settled_is_idle: "settled_stage C w \<Longrightarrow> idle w"
  by (auto simp: settled_stage_def idle_def known_manifests_def known_folders_def split: if_splits)

text \<open>The same View and the same installed manifest, and still nothing running.\<close>

definition untouched :: "world \<Rightarrow> world \<Rightarrow> bool" where
  "untouched w w' \<longleftrightarrow> idle w' \<and> disk w' SlotView = disk w SlotView \<and> installed_view w' = installed_view w \<and>
     apply_row w' = apply_row w \<and> highest_generation (manifests w') = highest_generation (manifests w)"

lemma untouched_refl: "idle w \<Longrightarrow> untouched w w"
  by (simp add: untouched_def)

lemma untouched_tick [simp]: "untouched w (w'\<lparr>tick := n\<rparr>) = untouched w w'"
  by (simp add: untouched_def installed_view_def)

section \<open>Reserving\<close>

definition reserve_errors :: "apply_env \<Rightarrow> apply_error set" where
  "reserve_errors \<E> = db_errors \<E> \<union> {SheetOutdated, Blocked, FolderFailed}"

definition refuses :: "world \<Rightarrow> apply_env \<Rightarrow> apply_error \<Rightarrow> world \<Rightarrow> bool" where
  "refuses w \<E> e w' \<longleftrightarrow> e \<in> reserve_errors \<E> \<and> untouched w w'"

definition prepared :: "world \<Rightarrow> apply_env \<Rightarrow> expected_tree \<Rightarrow> world \<Rightarrow> bool" where
  "prepared w \<E> e w' \<longleftrightarrow> untouched w w' \<and> manifests w' = manifests w \<and>
     (\<exists>seen. expected_view e = map_option (identify \<E>) (case_view (case_of \<E> w (0, seen))))"

lemma untouched_previous:
  "untouched w w' \<Longrightarrow> untouched w (w'\<lparr>disk := (disk w')(SlotPrevious := None)\<rparr>)"
  by (auto simp: untouched_def idle_def installed_view_def)

lemma wp_prepare_tree:
  assumes u: "untouched w v" and ms: "manifests v = manifests w"
  shows "wp (prepare_tree \<E> gone) (prepared w \<E>) (refuses w \<E>) v"
proof -
  let ?rest = "wp (m_bind (ask (root_identity_at \<E>)) (\<lambda>root.
       case root of
         None \<Rightarrow> m_fail FolderFailed
       | Some root \<Rightarrow>
           m_bind (slot_there \<E> SlotView) (\<lambda>there.
             if \<not> there
             then m_ret \<lparr>root_path = project_path \<E>, root_identity = root, expected_view = None, expected_building = None, expected_previous = None\<rparr>
             else m_bind (observe_folder_identity \<E> SlotView) (\<lambda>i.
               case i of
                 None \<Rightarrow> m_fail FolderFailed
               | Some i \<Rightarrow>
                   m_ret \<lparr>root_path = project_path \<E>, root_identity = root, expected_view = Some i, expected_building = None, expected_previous = None\<rparr>))))
     (prepared w \<E>) (refuses w \<E>)"
  have rest: "?rest x" if "untouched w x" "manifests x = manifests w" for x
  proof (cases "root_identity_at \<E> (tick x)")
    case None
    then show ?thesis using that by (simp add: refuses_def reserve_errors_def)
  next
    case (Some i)
    have view: "disk x SlotView = disk w SlotView" using that by (simp add: untouched_def)
    have "expected_view e = map_option (identify \<E>) (case_view (case_of \<E> w (0, seen))) \<Longrightarrow> prepared w \<E> e (x\<lparr>tick := n\<rparr>)" for e seen n
      using that unfolding prepared_def by auto
    from this [of _ False] this [of _ True] show ?thesis using Some that view
      by (auto simp: wp_slot_there wp_observe refuses_def reserve_errors_def case_view_def split: option.split)
  qed
  have "untouched w (v\<lparr>tick := n\<rparr>)" "untouched w (v\<lparr>tick := n, disk := (disk v)(SlotPrevious := None)\<rparr>)" for n
    using u untouched_previous [of w "v\<lparr>tick := n\<rparr>"] by simp_all
  then have e: "wp (empty_slot \<E> SlotPrevious) (\<lambda>_. ?rest) (refuses w \<E>) (v\<lparr>tick := n\<rparr>)" for n
    using ms by (intro wp_empty_slot rest) simp_all
  have "wp (if gone then empty_slot \<E> SlotPrevious else m_ret ()) (\<lambda>_. ?rest) (refuses w \<E>) (v\<lparr>tick := Suc (tick v)\<rparr>)"
    using e rest [of "v\<lparr>tick := Suc (tick v)\<rparr>"] u ms by (simp del: wp_bind)
  then show ?thesis unfolding prepare_tree_def wp_bind wp_ask wp_if wp_fail
    using u by (simp add: refuses_def reserve_errors_def)
qed

lemma retire_when_idle:
  assumes "idle v"
  obtains ms where "(if gone then retire_previous v else Some v) = Some (v\<lparr>manifests := ms\<rparr>)" "distinct (map fst ms)"
    "gens M_Building ms = []" "gens M_Installed ms = gens M_Installed (manifests v)" "length (gens M_Previous ms) \<le> 1"
    "highest_generation ms = highest_generation (manifests v)"
proof (cases gone)
  case False
  then show ?thesis using assms that [of "manifests v"] by (simp add: idle_def)
next
  case True
  let ?C = "(case_of undefined v (0, False))\<lparr>case_generation := highest_generation (manifests v)\<rparr>"
  have "known_manifests ?C (manifests v)" using assms by (simp add: known_manifests_def idle_def)
  then obtain ms where "retire_previous v = Some (v\<lparr>manifests := ms\<rparr>)" "known_manifests ?C ms"
    "gens M_Building ms = gens M_Building (manifests v)" "gens M_Installed ms = gens M_Installed (manifests v)"
    "gens M_Previous ms = []"
    by (rule retire_previous_states) (use assms in \<open>auto simp: idle_def\<close>)
  then show ?thesis using assms True that by (simp add: known_manifests_def idle_def)
qed

lemma reserved_row:
  assumes u: "untouched w v" and e: "expected_view (reserve_expected rv) = map_option (identify \<E>) (case_view (case_of \<E> w (0, seen)))"
  obtains v' where "reserve_row rv op v = Some v'" "stage_at (case_of \<E> w (op, seen)) Reserved v'"
    "home (case_of \<E> w (op, seen)) (disk v') (manifests v')"
    "\<exists>r. apply_row v' = Some r \<and> phase (row_journal r) = Reserved"
proof -
  have idle: "idle v" using u by (simp add: untouched_def)
  obtain ms where ms: "(if previous_gone rv then retire_previous v else Some v) = Some (v\<lparr>manifests := ms\<rparr>)" "distinct (map fst ms)"
    "gens M_Building ms = []" "gens M_Installed ms = gens M_Installed (manifests v)" "length (gens M_Previous ms) \<le> 1"
    "highest_generation ms = highest_generation (manifests v)"
    using retire_when_idle [OF idle] .
  let ?g = "Suc (highest_generation (manifests w))"
  have hg: "highest_generation (manifests v) = highest_generation (manifests w)" using u by (simp add: untouched_def)
  have new: "?g \<notin> fst ` set ms" using highest_in [of ?g ms] ms(6) hg by auto
  let ?ms = "ms @ [(?g, M_Building)]"
  have g: "gens M_Building ?ms = [?g]" "gens M_Installed ?ms = gens M_Installed (manifests v)" "gens M_Previous ?ms = gens M_Previous ms"
    using ms(3,4) by (simp_all add: gens_append) (simp_all add: gens_def)
  have "highest_generation ?ms = max ?g (highest_generation ms)" using highest_append .
  then have high: "highest_generation ?ms = ?g" using ms(6) hg by simp
  have inst: "gens M_Installed (manifests v) = opt_list (installed_view w)"
    using idle u opt_list_generation [of M_Installed "manifests v"] by (simp add: untouched_def idle_def installed_view_def)
  let ?j = "\<lparr>operation_id = op, project_id = reserve_project rv, journal_generation = ?g, phase = Reserved,
      settled_from = None, journal_outcome = None, expected = reserve_expected rv, stop = None\<rparr>"
  let ?r = "\<lparr>row_journal = ?j, waiting_held = False, row_report = False\<rparr>"
  let ?v = "v\<lparr>manifests := ?ms, active_operation := Some op, apply_row := Some ?r\<rparr>"
  have "states_unique ?ms" using g ms(5) inst by (simp add: states_unique_gens)
  then have "reserve_row rv op v = Some ?v"
    using idle ms hg by (simp add: reserve_row_def idle_def opt_then_def Let_def)
  moreover have "row_at (case_of \<E> w (op, seen)) Reserved ?r"
    using e by (simp add: row_at_def row_checks_def fits_def case_view_def)
  moreover have "before_commit (case_of \<E> w (op, seen)) ?ms"
    using ms(2,5) new g inst high by (simp add: before_commit_def known_manifests_def)
  moreover have "known_folders (case_of \<E> w (op, seen)) (disk v)"
    using idle hg by (fastforce simp: known_folders_def idle_def)
  moreover have "home (case_of \<E> w (op, seen)) (disk v) ?ms" using u by (simp add: home_def at_home_def untouched_def)
  ultimately show ?thesis
    by (intro that [of ?v]) (simp_all add: stage_at_def manifests_at_def disk_at_def home_def)
qed

definition has_reserved :: "world \<Rightarrow> apply_env \<Rightarrow> world \<Rightarrow> bool" where
  "has_reserved w \<E> w' \<longleftrightarrow> (\<exists>op. running_at (case_of \<E> w op) Reserved (home (case_of \<E> w op)) w')"

lemma wp_reserve_apply:
  assumes u: "untouched w v" and e: "expected_view (reserve_expected rv) = map_option (identify \<E>) (case_view (case_of \<E> w (0, seen)))"
  shows "wp (commit_reservation \<E> inputs rv) (\<lambda>_ w'. has_reserved w \<E> w') (refuses w \<E>) v"
proof -
  let ?op = "operation_ids \<E> (tick v)" and ?C = "case_of \<E> w (operation_ids \<E> (tick v), seen)"
  have uv: "untouched w (v\<lparr>tick := Suc (tick v)\<rparr>)" using u by simp
  obtain v' where v': "reserve_row rv ?op (v\<lparr>tick := Suc (tick v)\<rparr>) = Some v'" "stage_at ?C Reserved v'"
    "home ?C (disk v') (manifests v')" "\<exists>r. apply_row v' = Some r \<and> phase (row_journal r) = Reserved"
    using reserved_row [OF uv e] .
  obtain r where r: "apply_row v' = Some r" using v'(4) by blast
  have "running_at ?C Reserved (home ?C) (v'\<lparr>run_journal := row_journal r, building_made := False\<rparr>)"
    using v' r by (simp add: running_at_def synced_def)
  then have ok: "has_reserved w \<E> (v'\<lparr>run_journal := row_journal r, building_made := False\<rparr>)"
    by (auto simp: has_reserved_def)
  show ?thesis
    using ok u v'(1) r by (auto simp: commit_reservation_def wp_def m_bind_def reserve_apply_def transaction_def Let_def m_modify_def m_ret_def
        refuses_def reserve_errors_def db_errors_def)
qed

lemma wp_reserve:
  assumes idle: "idle w"
  shows "wp (reserve \<E> q) (\<lambda>_ w'. has_reserved w \<E> w') (refuses w \<E>) w"
proof -
  have u: "untouched w (w\<lparr>tick := n\<rparr>)" for n using untouched_refl [OF idle] by simp
  have tail: "wp (prepare_tree \<E> gone) (\<lambda>e. wp (commit_reservation \<E> inputs (reservation q gone e))
      (\<lambda>_ w'. has_reserved w \<E> w') (refuses w \<E>)) (refuses w \<E>) (w\<lparr>tick := n\<rparr>)" for gone inputs n
    by (rule wp_mono [OF wp_prepare_tree [OF u]]) (auto simp: prepared_def reservation_def intro!: wp_reserve_apply)
  have refused: "refuses w \<E> SheetOutdated (w\<lparr>tick := n\<rparr>)" "refuses w \<E> Blocked (w\<lparr>tick := n\<rparr>)" for n
    using u by (simp_all add: refuses_def reserve_errors_def)
  have db: "\<not> commits \<E> n \<Longrightarrow> refuses w \<E> DatabaseFailed (w\<lparr>tick := m\<rparr>)" for n m
    using u by (auto simp: refuses_def reserve_errors_def db_errors_def)
  show ?thesis unfolding reserve_def wp_bind wp_apply_inputs Let_def
    using refused db tail by (simp add: wp_slot_there)
qed

text \<open>An Apply ends in a stage of its own, or refused with the project as it was.\<close>

definition breaks :: "world \<Rightarrow> apply_env \<Rightarrow> apply_error \<Rightarrow> world \<Rightarrow> bool" where
  "breaks w \<E> e w' \<longleftrightarrow> refuses w \<E> e w' \<or> (\<exists>op. fails (case_of \<E> w op) (run_errors \<E>) e w')"

lemma wp_apply_with:
  assumes "idle w" and native: "\<not> falls_back \<E>"
  shows "wp (apply_with \<E> q) (\<lambda>rep w'. \<exists>op. ended (case_of \<E> w op) \<E> rep w') (breaks w \<E>) w"
  unfolding apply_with_def wp_bind
proof (rule wp_mono [OF wp_reserve [OF assms(1)]])
  fix inputs v assume "has_reserved w \<E> v"
  then obtain op where at: "running_at (case_of \<E> w op) Reserved (home (case_of \<E> w op)) v" by (auto simp: has_reserved_def)
  show "wp (run \<E> inputs) (\<lambda>rep w'. \<exists>op. ended (case_of \<E> w op) \<E> rep w') (breaks w \<E>) v"
    by (rule wp_mono [OF wp_run [OF at _ native]]) (unfold breaks_def, simp, blast+)
qed (simp add: breaks_def)

section \<open>Recovery\<close>

text \<open>
  What recovery relies on: the volume tells folders apart and renames without replacing, and a folder that is
  there is seen and its identity can be read. A recovery fails only where the database does, or a rename is
  refused.
\<close>

definition told_apart :: "(folder \<Rightarrow> file_identity) \<Rightarrow> bool" where
  "told_apart ident \<longleftrightarrow> (\<forall>f g. is_recorded (ident f) (ident g) \<longleftrightarrow> f = g)"

definition recovery_errors :: "apply_env \<Rightarrow> apply_error set" where
  "recovery_errors \<E> = db_errors \<E> \<union> {e. e = RecoveryStuck \<and> (\<exists>n e. renames \<E> n = RenameError e)}"

definition found :: "apply_case \<Rightarrow> apply_env \<Rightarrow> apply_phase \<Rightarrow> apply_row \<Rightarrow> recovered \<Rightarrow> world \<Rightarrow> bool" where
  "found C \<E> p r x w \<longleftrightarrow> stage_at C p w \<and> apply_row w = Some r \<and>
     (case x of
        RecInstalled \<Rightarrow> 3 \<le> phase_rank p \<and> (if phase_rank p < 7 then new_in_place C (disk w) (manifests w) else new_there C (disk w) (manifests w))
      | RecNotInstalled \<Rightarrow> phase_rank p < 6 \<and> home C (disk w) (manifests w)
      | RecStuck \<Rightarrow> \<exists>n e. renames \<E> n = RenameError e)"

lemma found_tick [simp]: "found C \<E> p r x (w\<lparr>tick := n\<rparr>) = found C \<E> p r x w"
  by (simp add: found_def split: recovered.split)

lemma wp_slot_is_seen:
  assumes "told_apart (identify \<E>)" and "\<forall>n. observable \<E> n"
  shows "wp (slot_is \<E> s (map_option (identify \<E>) x)) Q F w \<longleftrightarrow>
    Q (x \<noteq> None \<and> disk w s = x) (if x = None then w else w\<lparr>tick := Suc (tick w)\<rparr>)"
  using assms by (cases x; cases "disk w s") (auto simp: slot_is_def wp_observe told_apart_def)

lemma expected_of_stage:
  assumes "row_at C p r"
  shows "expected_view (expected (row_journal r)) = map_option (case_identify C) (case_view C)"
    "2 \<le> phase_rank p \<Longrightarrow> expected_building (expected (row_journal r)) = map_option (case_identify C) (Some (case_generation C))"
  using assms by (auto simp: row_at_def fits_def)

lemma stage_at_home_again:
  assumes "stage_at C p w" and "set_aside C (disk w) (manifests w)" and "3 \<le> phase_rank p" "phase_rank p < 6"
  shows "stage_at C p (w\<lparr>tick := n, disk := (disk w)(SlotPrevious := None, SlotView := disk w SlotPrevious)\<rparr>)"
    "home C ((disk w)(SlotPrevious := None, SlotView := disk w SlotPrevious)) ms"
proof -
  show h: "home C ((disk w)(SlotPrevious := None, SlotView := disk w SlotPrevious)) ms" for ms
    using assms(2) by (simp add: home_def at_home_def set_aside_def)
  have "known_folders C ((disk w)(SlotPrevious := None, SlotView := disk w SlotPrevious))"
    using assms(1) by (auto simp: stage_at_def known_folders_def)
  then show "stage_at C p (w\<lparr>tick := n, disk := (disk w)(SlotPrevious := None, SlotView := disk w SlotPrevious)\<rparr>)"
    using assms h by (simp add: stage_at_def disk_at_def home_def)
qed

lemma wp_recover_folders:
  assumes at: "stage_at C p w" and row: "apply_row w = Some r" and r: "row_at C p r" and ident: "identify \<E> = case_identify C"
    and apart: "told_apart (identify \<E>)" and obs: "\<forall>n. observable \<E> n" and fresh: "case_old C \<noteq> Some (case_generation C)"
    and native: "\<not> falls_back \<E>"
  shows "wp (recover_folders \<E> (expected (row_journal r)) p) (found C \<E> p r) F w"
proof -
  have p: "p \<noteq> Settled" using r by (simp add: row_at_def)
  have e: "expected_view (expected (row_journal r)) = map_option (identify \<E>) (case_view C)"
    using expected_of_stage [OF r] ident by simp
  note is_slot = wp_slot_is_seen [OF apart obs]
  consider "phase_rank p < 3" | "3 \<le> phase_rank p" "phase_rank p < 6" | "phase_rank p = 6" | "7 \<le> phase_rank p" by linarith
  then show ?thesis
  proof cases
    case 1
    then show ?thesis using at row by (simp add: recover_folders_def before_def found_def stage_at_def disk_at_def home_def)
  next
    case 2
    have b: "expected_building (expected (row_journal r)) = map_option (identify \<E>) (Some (case_generation C))"
      using expected_of_stage(2) [OF r] ident 2 by simp
    consider "at_home C (disk w)" | "set_aside C (disk w) (manifests w)" | "new_in_place C (disk w) (manifests w)"
      using at 2 by (auto simp: stage_at_def disk_at_def)
    then show ?thesis
    proof cases
      case h: 1
      then have v: "disk w SlotView = case_old C" by (simp add: at_home_def)
      have f: "found C \<E> p r RecNotInstalled w" using at row h 2 by (simp add: found_def home_def)
      have "case_old C \<noteq> None \<Longrightarrow> case_view C \<noteq> None \<Longrightarrow> case_view C = case_old C" "case_old C = None \<Longrightarrow> case_view C = None"
        by (simp_all add: case_view_def split: if_splits)
      then show ?thesis unfolding recover_folders_def b e
        using 2 f v fresh obs by (cases "case_old C") (auto simp: before_def is_slot wp_slot_there simp del: option.map)
    next
      case h: 2
      then obtain o' where o': "case_view C = Some o'" "disk w SlotView = None" "disk w SlotPrevious = Some o'"
        by (auto simp: set_aside_def case_view_def split: if_splits)
      have returned: "found C \<E> p r RecNotInstalled (w\<lparr>tick := n, disk := (disk w)(SlotPrevious := None, SlotView := Some o')\<rparr>)" for n
        using stage_at_home_again [OF at h 2] o'(3) 2 row by (simp add: found_def)
      have stuck: "renames \<E> n = RenameError x \<Longrightarrow> found C \<E> p r RecStuck (w\<lparr>tick := m\<rparr>)" for n m x
        using at row by (auto simp: found_def)
      show ?thesis unfolding recover_folders_def b e
        using 2 o' returned stuck
        by (auto simp: before_def is_slot wp_slot_there wp_rename [OF native] Let_def simp del: option.map split: rename_answer.split)
    next
      case h: 3
      then have v: "disk w SlotView = Some (case_generation C)" by (simp add: new_in_place_def)
      have "found C \<E> p r RecInstalled w" using at row h 2 by (simp add: found_def)
      then show ?thesis unfolding recover_folders_def b e
        using 2 v by (auto simp: before_def is_slot simp del: option.map)
    qed
  next
    case 3
    have b: "expected_building (expected (row_journal r)) = map_option (identify \<E>) (Some (case_generation C))"
      using expected_of_stage(2) [OF r] ident 3 by simp
    have ip: "new_in_place C (disk w) (manifests w)" using at 3 by (simp add: stage_at_def disk_at_def)
    then have "found C \<E> p r RecInstalled w" "disk w SlotView = Some (case_generation C)"
      using at row 3 by (simp_all add: found_def new_in_place_def)
    then show ?thesis unfolding recover_folders_def b e using 3 by (auto simp: before_def is_slot simp del: option.map)
  next
    case 4
    have b: "expected_building (expected (row_journal r)) = map_option (identify \<E>) (Some (case_generation C))"
      using expected_of_stage(2) [OF r] ident 4 by simp
    have v: "disk w SlotView = Some (case_generation C)" using at 4 by (simp add: stage_at_def disk_at_def)
    then have "found C \<E> p r RecInstalled w" using at row 4 by (simp add: found_def new_there_def)
    then show ?thesis unfolding recover_folders_def b e using 4 v by (auto simp: before_def is_slot simp del: option.map)
  qed
qed

definition recovers :: "apply_case \<Rightarrow> report \<Rightarrow> world \<Rightarrow> bool" where
  "recovers C rep w \<longleftrightarrow> (\<exists>out. rep = Some out \<and> settled_with C out w)"

lemma ended_recovers: "ended C \<E> rep w \<Longrightarrow> \<forall>n. \<not> interrupted_at \<E> n \<Longrightarrow> recovers C rep w"
  by (auto simp: ended_def recovers_def split: option.splits)

lemma db_recovery_errors: "db_errors \<E> \<subseteq> recovery_errors \<E>"
  by (auto simp: recovery_errors_def)

lemma recover_installed:
  assumes at: "stage_at C p w" and row: "apply_row w = Some r" and p: "3 \<le> phase_rank p"
    and new: "if phase_rank p < 7 then new_in_place C (disk w) (manifests w) else new_there C (disk w) (manifests w)"
    and quiet: "\<forall>n. \<not> interrupted_at \<E> n"
  shows "wp (install_recovered \<E> p)
    (recovers C) (fails C (recovery_errors \<E>)) (w\<lparr>run_journal := row_journal r, building_made := False, tick := n\<rparr>)"
    (is "wp _ _ _ ?w")
proof -
  let ?D = "if phase_rank p < 7 then new_in_place C else new_there C"
  have sy: "running_at C p ?D ?w" using at row new by (auto simp: running_at_def synced_def)
  have fin: "wp (finish_installed \<E>) (recovers C) (fails C (recovery_errors \<E>)) v"
    if "running_at C q D v" "6 \<le> phase_rank q" "\<And>d ms. D d ms \<Longrightarrow> disk_at C q d ms" for q D v
    by (rule wp_mono [OF wp_finish_installed [OF that(1) db_recovery_errors that(2,3)]]) (auto intro: ended_recovers [OF _ quiet])
  show ?thesis
  proof (cases "phase_rank p < 6")
    case True
    have ip: "running_at C p (new_in_place C) ?w" using sy True by simp
    have "wp (advance \<E> NewInstalled None) (\<lambda>_. wp (finish_installed \<E>) (recovers C) (fails C (recovery_errors \<E>)))
        (fails C (recovery_errors \<E>)) ?w"
      by (rule wp_advance [OF ip db_recovery_errors]) (use p True in \<open>auto simp: disk_at_def intro!: fin\<close>)
    then show ?thesis using True by (simp add: install_recovered_def before_def)
  next
    case False
    have "wp (finish_installed \<E>) (recovers C) (fails C (recovery_errors \<E>)) ?w"
      using False by (intro fin [OF sy]) (auto simp: disk_at_def new_there_def split: if_splits)
    then show ?thesis using False by (simp add: install_recovered_def before_def)
  qed
qed

lemma recover_not_installed:
  assumes at: "stage_at C p w" and row: "apply_row w = Some r" and p: "phase_rank p < 6" and h: "home C (disk w) (manifests w)"
  shows "wp (end_apply \<E> StopInterrupted) (recovers C) (fails C (recovery_errors \<E>))
    (w\<lparr>run_journal := row_journal r, building_made := False, tick := n\<rparr>)"
proof -
  have "running_at C p (home C) (w\<lparr>run_journal := row_journal r, building_made := False, tick := n\<rparr>)"
    using at row h by (simp add: running_at_def synced_def)
  then show ?thesis
    by (rule wp_end [OF _ db_recovery_errors p]) (auto simp: home_def recovers_def)
qed

lemma wp_recover_run:
  assumes at: "stage_at C p w" and row: "apply_row w = Some r" and ident: "identify \<E> = case_identify C"
    and apart: "told_apart (identify \<E>)" and obs: "\<forall>n. observable \<E> n" and fresh: "case_old C \<noteq> Some (case_generation C)"
    and native: "\<not> falls_back \<E>" and quiet: "\<forall>n. \<not> interrupted_at \<E> n"
  shows "wp (recover_run \<E> (row_journal r)) (recovers C) (fails C (recovery_errors \<E>)) w"
proof -
  have r: "row_at C p r" and ph: "phase (row_journal r) = p" using at row by (auto simp: stage_at_def row_at_def)
  show ?thesis unfolding recover_run_def wp_bind ph
  proof (rule wp_mono [OF wp_recover_folders [OF at row r ident apart obs fresh native]])
    fix x v assume f: "found C \<E> p r x v"
    have sv: "stage C v" using f by (auto simp: found_def stage_def)
    have tail: "wp (settle_recovered \<E> p x) (recovers C) (fails C (recovery_errors \<E>))
       (v\<lparr>run_journal := row_journal r, building_made := False, tick := n\<rparr>)" for n
    proof (cases x)
      case RecInstalled
      then show ?thesis using f sv recover_installed [OF _ _ _ _ quiet, of C p v r "Suc n"]
        by (simp add: settle_recovered_def found_def settle_kept_claims_def) (intro wp_read db_recovery_errors; simp)
    next
      case RecNotInstalled
      then show ?thesis using f sv recover_not_installed [of C p v r \<E> "Suc n"]
        by (simp add: settle_recovered_def found_def settle_kept_claims_def) (intro wp_read db_recovery_errors; simp)
    next
      case RecStuck
      then show ?thesis using f sv by (auto simp: settle_recovered_def found_def fails_def recovery_errors_def)
    qed
    have swap: "v\<lparr>tick := n, run_journal := row_journal r, building_made := False\<rparr> =
        v\<lparr>run_journal := row_journal r, building_made := False, tick := n\<rparr>" for n by simp
    show "wp (read_inputs \<E>) (\<lambda>_. wp (m_modify (\<lambda>w. w\<lparr>run_journal := row_journal r, building_made := False\<rparr>))
        (\<lambda>_. wp (settle_recovered \<E> p x) (recovers C) (fails C (recovery_errors \<E>))) (fails C (recovery_errors \<E>)))
      (fails C (recovery_errors \<E>)) v"
      using tail sv by (intro wp_inputs db_recovery_errors) (simp_all add: swap)
  qed simp
qed

section \<open>Restarts\<close>

lemma unattended_fields [simp]:
  "identify (unattended \<E>) = identify \<E>" "observable (unattended \<E>) = observable \<E>"
  "commits (unattended \<E>) = commits \<E>" "falls_back (unattended \<E>) = falls_back \<E>" "renames (unattended \<E>) = renames \<E>" "\<not> interrupted_at (unattended \<E>) n"
  by (simp_all add: unattended_def falls_back_def)

lemma recovery_errors_unattended [simp]: "recovery_errors (unattended \<E>) = recovery_errors \<E>"
  by (simp add: recovery_errors_def db_errors_def)

text \<open>A case whose identities the recovery can read and tell apart.\<close>

definition recoverable :: "apply_case \<Rightarrow> apply_env \<Rightarrow> bool" where
  "recoverable C \<E> \<longleftrightarrow> identify \<E> = case_identify C \<and> told_apart (case_identify C) \<and> (\<forall>n. observable \<E> n) \<and>
     case_old C \<noteq> Some (case_generation C) \<and> \<not> falls_back \<E>"

lemma wp_unsettled:
  "wp (unsettled_applies \<E>) Q F w \<longleftrightarrow>
     (if commits \<E> (tick w)
      then Q (case apply_row w of None \<Rightarrow> [] | Some r \<Rightarrow> (if phase (row_journal r) \<noteq> Settled then [row_journal r] else []))
             (w\<lparr>tick := Suc (tick w)\<rparr>)
      else F DatabaseFailed (w\<lparr>tick := Suc (tick w)\<rparr>))"
  by (simp add: unsettled_applies_def wp_transaction)

lemma wp_recover_stage:
  assumes at: "stage_at C p w" and ok: "recoverable C \<E>"
  shows "wp (recover_applies \<E>) (\<lambda>_. settled_stage C) (fails C (recovery_errors \<E>)) w"
proof -
  obtain r where r: "apply_row w = Some r" "phase (row_journal r) \<noteq> Settled"
    using at by (auto simp: stage_at_def row_at_def)
  have "wp (recover_run (unattended \<E>) (row_journal r)) (recovers C) (fails C (recovery_errors \<E>)) (w\<lparr>tick := n\<rparr>)" for n
    using wp_recover_run [of C p "w\<lparr>tick := n\<rparr>" r "unattended \<E>"] at r ok by (auto simp: recoverable_def)
  then have run: "wp (recover \<E> (row_journal r)) (\<lambda>_. settled_stage C) (fails C (recovery_errors \<E>)) (w\<lparr>tick := n\<rparr>)" for n
    unfolding recover_def by (rule wp_mono) (auto simp: recovers_def settled_with_def)
  have "stage C w" using at by (auto simp: stage_def)
  then show ?thesis unfolding recover_applies_def
    using run r by (simp add: wp_unsettled) (auto simp: fails_def recovery_errors_def db_errors_def)
qed

lemma wp_recover_idle:
  assumes "\<And>r. apply_row w = Some r \<Longrightarrow> phase (row_journal r) = Settled"
  shows "wp (recover_applies \<E>) (\<lambda>_ w'. w' = w\<lparr>tick := Suc (tick w)\<rparr>)
    (\<lambda>e w'. e \<in> db_errors \<E> \<and> w' = w\<lparr>tick := Suc (tick w)\<rparr>) w"
  unfolding recover_applies_def
  using assms by (auto simp: wp_unsettled db_errors_def split: option.split)

lemma idle_row: "idle w \<Longrightarrow> apply_row w = Some r \<Longrightarrow> phase (row_journal r) = Settled"
  by (auto simp: idle_def)

definition restart :: "apply_env \<Rightarrow> world \<Rightarrow> world" where
  "restart \<E> w = snd (recover_applies \<E> w)"

lemma wp_snd: "wp m Q E w \<Longrightarrow> (\<And>a. Q a (snd (m w)) \<Longrightarrow> R) \<Longrightarrow> (\<And>e. E e (snd (m w)) \<Longrightarrow> R) \<Longrightarrow> R"
  by (auto simp: wp_def split: prod.splits ended.splits)

lemma restart_settled:
  assumes "settled_stage C w"
  shows "restart \<E> w = w\<lparr>tick := Suc (tick w)\<rparr>"
  using wp_recover_idle [of w \<E>] idle_row [OF settled_is_idle [OF assms]]
  unfolding restart_def by (auto elim: wp_snd)

lemma restart_idle:
  assumes "idle w"
  shows "restart \<E> w = w\<lparr>tick := Suc (tick w)\<rparr>"
  using wp_recover_idle [of w \<E>] idle_row [OF assms] unfolding restart_def by (auto elim: wp_snd)

lemma restart_stage:
  assumes "stage C w" and "recoverable C \<E>"
  shows "stage C (restart \<E> w)"
  using assms(1) unfolding stage_def
proof (elim disjE exE)
  fix p assume "stage_at C p w"
  then show "(\<exists>p. stage_at C p (restart \<E> w)) \<or> settled_stage C (restart \<E> w)"
    unfolding restart_def by (rule wp_snd [OF wp_recover_stage [OF _ assms(2)]]) (auto simp: fails_def stage_def)
next
  assume "settled_stage C w"
  then show "(\<exists>p. stage_at C p (restart \<E> w)) \<or> settled_stage C (restart \<E> w)" by (simp add: restart_settled)
qed

fun restarts :: "apply_env list \<Rightarrow> world \<Rightarrow> world" where
  "restarts [] w = w"
| "restarts (\<E> # \<E>s) w = restarts \<E>s (restart \<E> w)"

lemma restarts_stage: "stage C w \<Longrightarrow> \<forall>\<E> \<in> set \<E>s. recoverable C \<E> \<Longrightarrow> stage C (restarts \<E>s w)"
  by (induction \<E>s arbitrary: w) (auto intro: restart_stage)

lemma restarts_untouched: "untouched v w \<Longrightarrow> untouched v (restarts \<E>s w)"
proof (induction \<E>s arbitrary: w)
  case (Cons \<E> \<E>s)
  then have "restart \<E> w = w\<lparr>tick := Suc (tick w)\<rparr>" using restart_idle [of w \<E>] by (simp add: untouched_def)
  then show ?case using Cons by simp
qed simp

lemma restarts_settled: "settled_with C out w \<Longrightarrow> settled_with C out (restarts \<E>s w)"
proof (induction \<E>s arbitrary: w)
  case (Cons \<E> \<E>s)
  then have "restart \<E> w = w\<lparr>tick := Suc (tick w)\<rparr>" using restart_settled [of C w \<E>] by (simp add: settled_with_def)
  then show ?case using Cons.IH [of "restart \<E> w"] Cons.prems by (simp add: settled_with_def)
qed simp

lemma case_of_recoverable:
  assumes "idle w" and "told_apart (identify \<E>)" and "identify \<E>' = identify \<E>" and "\<forall>n. observable \<E>' n" and "\<not> falls_back \<E>'"
  shows "recoverable (case_of \<E> w op) \<E>'"
proof -
  have "disk w SlotView \<noteq> Some (Suc (highest_generation (manifests w)))"
    using assms(1) by (auto simp: idle_def dest!: spec [of _ SlotView])
  then show ?thesis using assms by (simp add: recoverable_def)
qed

section \<open>Crash safety\<close>

text \<open>What the View can be in a stage.\<close>

lemma stage_view:
  assumes "stage C w"
  shows "disk w SlotView = case_old C \<or> disk w SlotView = Some (case_generation C) \<or>
    (disk w SlotView = None \<and> disk w SlotPrevious = case_old C)"
  using assms unfolding stage_def stage_at_def settled_stage_def disk_at_def
  by (auto simp: at_home_def set_aside_def new_in_place_def split: if_splits)

lemma settled_view:
  assumes "settled_stage C w"
  shows "(disk w SlotView = case_old C \<and> installed_view w = case_installed C) \<or>
    (disk w SlotView = Some (case_generation C) \<and> installed_view w = Some (case_generation C))"
  using assms by (cases "case_installed C") (auto simp: settled_stage_def installed_view_def generation_in_gens split: if_splits)

lemma stage_idle: "stage C w \<Longrightarrow> active_operation w = None \<Longrightarrow> settled_stage C w"
  by (auto simp: stage_def stage_at_def)

lemma settled_with_view:
  assumes "settled_with C out w"
  shows "if out = ViewApplied then disk w SlotView = Some (case_generation C) \<and> installed_view w = Some (case_generation C)
    else disk w SlotView = case_old C \<and> installed_view w = case_installed C"
  using assms by (cases "case_installed C") (auto simp: settled_with_def settled_stage_def installed_view_def generation_in_gens)

lemma apply_outcome:
  assumes "idle w" and "\<not> falls_back \<E>"
  shows "untouched w (snd (apply_with \<E> q w)) \<or> (\<exists>op. stage (case_of \<E> w op) (snd (apply_with \<E> q w)))"
  using wp_apply_with [OF assms, of q]
  by (elim wp_snd) (auto simp: breaks_def refuses_def fails_def dest: ended_stage)

text \<open>
  C9. On a volume that tells folders apart and has a rename that never replaces, for recoveries to which the
  probes of the folders answer: an Apply that is cut off anywhere - by a failing database, a refused rename,
  a folder it cannot see, a cancel, an interrupt or the end of the process - and any recoveries after it,
  whose database and renames may fail, leave either the old View
  or the new one under its name, each as a whole; only between the two renames the name is free and the
  old View waits beside it. Once nothing runs, the View on disk and the installed manifest are both the
  old ones or both the new ones, and an outcome that was reported says which and stays true.
\<close>

theorem interrupted_apply_leaves_a_whole_view:
  assumes "idle w" and "told_apart (identify \<E>)" and "\<not> falls_back \<E>"
    and "\<forall>\<E>' \<in> set \<E>s. identify \<E>' = identify \<E> \<and> (\<forall>n. observable \<E>' n) \<and> \<not> falls_back \<E>'"
    and "w' = restarts \<E>s (snd (apply_with \<E> q w))" and "g = Suc (highest_generation (manifests w))"
  shows "(disk w' SlotView \<in> {disk w SlotView, Some g} \<or> (disk w' SlotView = None \<and> disk w' SlotPrevious = disk w SlotView)) \<and>
    (active_operation w' = None \<longrightarrow>
       (disk w' SlotView, installed_view w') \<in> {(disk w SlotView, installed_view w), (Some g, Some g)}) \<and>
    (\<forall>out. fst (apply_with \<E> q w) = Done (Some out) \<longrightarrow>
       (disk w' SlotView, installed_view w') =
         (if out = ViewApplied then (Some g, Some g) else (disk w SlotView, installed_view w)))"
proof (intro conjI allI impI)
  let ?v = "snd (apply_with \<E> q w)"
  have either: "untouched w w' \<or> (\<exists>op. stage (case_of \<E> w op) w')"
    using apply_outcome [OF assms(1,3), of q] restarts_untouched restarts_stage case_of_recoverable [OF assms(1,2)] assms(4)
    unfolding assms(5) by blast
  then show "disk w' SlotView \<in> {disk w SlotView, Some g} \<or> (disk w' SlotView = None \<and> disk w' SlotPrevious = disk w SlotView)"
    using stage_view by (fastforce simp: untouched_def assms(6))
  show "(disk w' SlotView, installed_view w') \<in> {(disk w SlotView, installed_view w), (Some g, Some g)}"
    if "active_operation w' = None"
    using either stage_idle [OF _ that] settled_view by (fastforce simp: untouched_def assms(6))
  fix out assume out: "fst (apply_with \<E> q w) = Done (Some out)"
  then have "\<exists>op. settled_with (case_of \<E> w op) out ?v"
    using wp_apply_with [OF assms(1,3), of q] by (auto simp: wp_def ended_def split: prod.splits)
  then obtain op where "settled_with (case_of \<E> w op) out w'" using restarts_settled unfolding assms(5) by blast
  then show "(disk w' SlotView, installed_view w') =
      (if out = ViewApplied then (Some g, Some g) else (disk w SlotView, installed_view w))"
    using settled_with_view by (fastforce simp: assms(6) split: if_splits)
qed

text \<open>A working environment, in which folders are told apart by an id of their own, and an empty project.\<close>

definition numbered_folder :: "folder \<Rightarrow> file_identity" where
  "numbered_folder f = example_identity\<lparr>file_id := Some (replicate f (CHR ''1''))\<rparr>"

lemma numbered_folders_told_apart: "told_apart numbered_folder"
proof -
  have "replicate f (CHR ''1'') = replicate g (CHR ''1'') \<longleftrightarrow> f = g" for f g
    by (metis length_replicate)
  then show ?thesis
    by (simp add: told_apart_def numbered_folder_def example_identity_def is_recorded_def file_ids_match_def)
qed

definition working_env :: apply_env where
  "working_env = \<lparr>identify = numbered_folder, root_identity_at = (\<lambda>_. Some (numbered_folder 0)), observable = (\<lambda>_. True),
     commits = (\<lambda>_. True), renames = (\<lambda>_. Granted), lacks_noreplace = False, calls = (\<lambda>_. CallMade), windows = False, project_path = ''/p'', canceled_at = (\<lambda>_. False),
     interrupted_at = (\<lambda>_. False), edits = (\<lambda>_. \<lparr>edit_revision = 1, edit_digest = 0, edit_basis = 0, edit_corrected = 0, edit_not_ready = 0\<rparr>),
     blocked_at = (\<lambda>_. False), previous_empty = (\<lambda>_. False), operation_ids = (\<lambda>n. n), source_failures = (\<lambda>_. 0),
     unproven_files = (\<lambda>_. 0), folder_emptied = (\<lambda>_. True), creates = (\<lambda>_. True), plan_entries = 1, placed_at = (\<lambda>_. True),
     build_failures = (\<lambda>_. 0), unreadable_entries = (\<lambda>_. 0), kept_stop = (\<lambda>_. None), kept_failures = (\<lambda>_. 0), poll_limit = 2\<rparr>"

definition empty_project :: world where
  "empty_project = \<lparr>disk = (\<lambda>_. None), apply_row = None, manifests = [], active_operation = None,
     run_journal = example_journal, building_made = False, tick = 0\<rparr>"

definition first_request :: apply_request where
  "first_request = \<lparr>request_project = 1, request_revision = 1, request_digest = 0\<rparr>"

lemma first_apply: "fst (apply_with working_env first_request empty_project) = Done (Some ViewApplied)"
  by code_simp

lemma empty_project_idle: "idle empty_project"
  by (simp add: idle_def empty_project_def gens_def)

lemma empty_project_fields [simp]:
  "disk empty_project = (\<lambda>_. None)" "manifests empty_project = []" "installed_view empty_project = None"
  by (simp_all add: empty_project_def installed_view_def generation_in_def)

lemma working_env_fields [simp]:
  "identify working_env = numbered_folder" "observable working_env n" "commits working_env n"
  "renames working_env n = Granted" "windows working_env = False" "\<not> falls_back working_env"
  by (simp_all add: working_env_def falls_back_def)

text \<open>The first Apply of a project, with two restarts after it.\<close>

lemma interrupted_apply_leaves_a_whole_view_witness:
  "let w' = restarts [working_env, working_env] (snd (apply_with working_env first_request empty_project))
   in disk w' SlotView = Some 1 \<and> installed_view w' = Some 1"
  using interrupted_apply_leaves_a_whole_view
    [of empty_project working_env "[working_env, working_env]"
      "restarts [working_env, working_env] (snd (apply_with working_env first_request empty_project))" first_request 1]
    first_apply empty_project_idle numbered_folders_told_apart
  by (simp add: highest_generation_def Let_def)

end
