(* ===== verification/ApplyHistory.thy ===== *)
theory ApplyHistory
  imports ApplyProps
begin

text \<open>
  Every history of a project: Applies and restarts in any order and number, each under an environment of
  its own. What holds of the View in all of them, that a working restart ends what was interrupted, and
  where recovery relies on what a volume or a call does not always give.
\<close>

section \<open>Histories\<close>

text \<open>
  The volume is the same throughout: how its folders are identified, and whether it lacks a rename that never
  replaces, so that renames fall back to a placeholder. To a restart, the probes of the folders answer.
\<close>

inductive project_history :: "(folder \<Rightarrow> file_identity) \<Rightarrow> bool \<Rightarrow> world \<Rightarrow> bool" for ident falls where
  new_project: "project_history ident falls empty_project"
| applied:
    "project_history ident falls w \<Longrightarrow> identify \<E> = ident \<Longrightarrow> falls_back \<E> = falls \<Longrightarrow>
     project_history ident falls (snd (apply_with \<E> q w))"
| restarted:
    "project_history ident falls w \<Longrightarrow> identify \<E> = ident \<Longrightarrow> falls_back \<E> = falls \<Longrightarrow> \<forall>n. observable \<E> n \<Longrightarrow>
     project_history ident falls (restart \<E> w)"

definition underway :: "(folder \<Rightarrow> file_identity) \<Rightarrow> apply_case \<Rightarrow> bool" where
  "underway ident C \<longleftrightarrow> case_identify C = ident \<and> case_old C = case_installed C \<and> case_old C \<noteq> Some (case_generation C)"

definition in_order :: "(folder \<Rightarrow> file_identity) \<Rightarrow> world \<Rightarrow> bool" where
  "in_order ident w \<longleftrightarrow> (idle w \<and> disk w SlotView = installed_view w) \<or> (\<exists>C p. stage_at C p w \<and> underway ident C)"

lemma in_order_tick [simp]: "in_order ident (w\<lparr>tick := n\<rparr>) = in_order ident w"
  by (simp add: in_order_def installed_view_def)

lemma underway_errors [simp]: "underway ident C \<Longrightarrow> case_errors C = {}"
  by (auto simp: underway_def case_errors_def)

lemma stage_in_order:
  assumes "stage C w" and "underway ident C"
  shows "in_order ident w"
  using assms settled_view [of C w] settled_is_idle [of C w] by (auto simp: stage_def in_order_def underway_def)

text \<open>While an Apply runs, another one is refused before it changes anything.\<close>

definition only_time_passes :: "world \<Rightarrow> world \<Rightarrow> bool" where
  "only_time_passes w w' \<longleftrightarrow> (\<exists>n. w' = w\<lparr>tick := n\<rparr>)"

lemma wp_apply_while_running:
  assumes "active_operation w \<noteq> None"
  shows "wp (apply_with \<E> q) (\<lambda>_ _. False)
    (\<lambda>e w'. e \<in> {DatabaseFailed, SheetOutdated, Blocked} \<and> only_time_passes w w') w"
proof -
  have "only_time_passes w (w\<lparr>tick := n\<rparr>)" for n by (auto simp: only_time_passes_def)
  then show ?thesis unfolding apply_with_def reserve_def wp_bind wp_apply_inputs Let_def using assms by simp
qed

lemma case_of_underway:
  assumes "idle w" and "disk w SlotView = installed_view w"
  shows "underway (identify \<E>) (case_of \<E> w op)"
  using assms by (auto simp: underway_def idle_def dest!: spec [of _ SlotView])

lemma apply_in_order:
  assumes "in_order (identify \<E>) w" and native: "\<not> falls_back \<E>"
  shows "in_order (identify \<E>) (snd (apply_with \<E> q w))"
  using assms(1) unfolding in_order_def [of _ w]
proof (elim disjE conjE exE)
  assume w: "idle w" "disk w SlotView = installed_view w"
  show ?thesis using apply_outcome [OF w(1) native, of q]
  proof (elim disjE exE)
    assume "untouched w (snd (apply_with \<E> q w))"
    then show ?thesis using w(2) by (auto simp: untouched_def in_order_def)
  qed (rule stage_in_order [OF _ case_of_underway [OF w]])
next
  fix C p assume C: "stage_at C p w" "underway (identify \<E>) C"
  then have "active_operation w \<noteq> None" by (simp add: stage_at_def)
  from wp_apply_while_running [OF this, of \<E> q] have "only_time_passes w (snd (apply_with \<E> q w))"
    by (elim wp_snd) auto
  then have "stage C (snd (apply_with \<E> q w))" using C(1) by (auto simp: only_time_passes_def stage_def)
  then show ?thesis using C(2) by (rule stage_in_order)
qed

lemma underway_recoverable:
  "underway ident C \<Longrightarrow> told_apart ident \<Longrightarrow> identify \<E> = ident \<Longrightarrow> \<forall>n. observable \<E> n \<Longrightarrow> \<not> falls_back \<E> \<Longrightarrow> recoverable C \<E>"
  by (auto simp: underway_def recoverable_def)

lemma restart_in_order:
  assumes "in_order ident w" and "told_apart ident" and "identify \<E> = ident" and "\<forall>n. observable \<E> n" and "\<not> falls_back \<E>"
  shows "in_order ident (restart \<E> w)"
  using assms(1) unfolding in_order_def [of _ w]
proof (elim disjE conjE exE)
  assume w: "idle w" "disk w SlotView = installed_view w"
  then have "in_order ident w" by (simp add: in_order_def)
  then show ?thesis by (simp add: restart_idle [OF w(1)])
next
  fix C p assume C: "stage_at C p w" "underway ident C"
  have "stage C w" using C(1) by (auto simp: stage_def)
  then have "stage C (restart \<E> w)" using underway_recoverable [OF C(2) assms(2-)] by (rule restart_stage)
  then show ?thesis using C(2) by (rule stage_in_order)
qed

lemma history_in_order:
  assumes "project_history ident False w" and "told_apart ident"
  shows "in_order ident w"
  using assms(1)
proof induction
  case new_project
  then show ?case by (simp add: in_order_def empty_project_idle)
next
  case (applied w \<E> q)
  then show ?case using apply_in_order [of \<E> w q] by simp
next
  case (restarted w \<E>)
  then show ?case using restart_in_order assms(2) by blast
qed

section \<open>The View in every history\<close>

lemma before_commit_installed: "before_commit C ms \<Longrightarrow> generation_in M_Installed ms = case_installed C"
  by (cases "case_installed C") (simp_all add: before_commit_def generation_in_gens)

lemma after_commit_installed: "after_commit C ms \<Longrightarrow> generation_in M_Installed ms = Some (case_generation C)"
  by (simp add: after_commit_def generation_in_gens)

lemma stage_at_installed:
  assumes "stage_at C p w"
  shows "installed_view w = (if phase_rank p < 7 then case_installed C else Some (case_generation C))"
    "highest_generation (manifests w) = case_generation C"
proof -
  have m: "manifests_at C p (manifests w)" using assms by (simp add: stage_at_def)
  show "installed_view w = (if phase_rank p < 7 then case_installed C else Some (case_generation C))"
    using m by (simp add: manifests_at_def installed_view_def before_commit_installed after_commit_installed split: if_splits)
  show "highest_generation (manifests w) = case_generation C"
    using m by (auto simp: manifests_at_def before_commit_def after_commit_def known_manifests_def split: if_splits)
qed

lemma stage_at_view:
  assumes "stage_at C p w"
  shows "disk w SlotView = case_old C \<and> phase_rank p < 7 \<or> disk w SlotView = Some (case_generation C) \<or>
    (disk w SlotView = None \<and> disk w SlotPrevious = case_old C \<and> case_old C \<noteq> None \<and> phase_rank p < 7)"
  using assms by (auto simp: stage_at_def disk_at_def at_home_def set_aside_def new_in_place_def case_view_def split: if_splits)

text \<open>
  C3. On a volume that tells folders apart and has a rename that never replaces: in every history of a project
  - Applies and restarts in any order, each cut off or failing anywhere, the folder probes of the restarts
  answering - the View on disk is the installed one whenever nothing runs. While an Apply is unsettled, the name holds
  the installed View or the one being installed, or it is free and the installed View waits under
  \<open>View (previous)\<close>; it never holds anything else, and a project that has a View never loses it.
\<close>

theorem view_survives_every_history:
  assumes "project_history ident False w" and "told_apart ident"
  shows "(active_operation w = None \<longrightarrow> disk w SlotView = installed_view w) \<and>
    (disk w SlotView \<in> {installed_view w, Some (highest_generation (manifests w))} \<or>
      (disk w SlotView = None \<and> disk w SlotPrevious = installed_view w \<and> installed_view w \<noteq> None))"
  using history_in_order [OF assms] unfolding in_order_def
proof (elim disjE conjE exE)
  assume "idle w" "disk w SlotView = installed_view w"
  then show ?thesis by simp
next
  fix C p assume C: "stage_at C p w" "underway ident C"
  then have "active_operation w \<noteq> None" by (simp add: stage_at_def)
  then show ?thesis using stage_at_view [OF C(1)] stage_at_installed [OF C(1)] C(2)
    by (auto simp: underway_def)
qed

text \<open>A first Apply, cut off after the new View is in place and before it is recorded as installed.\<close>

definition closing_env :: "nat \<Rightarrow> apply_env" where
  "closing_env n = working_env\<lparr>interrupted_at := \<lambda>m. m = n\<rparr>"

definition closed_midway :: world where
  "closed_midway = snd (apply_with (closing_env 36) first_request empty_project)"

lemma closed_midway_history: "project_history numbered_folder False closed_midway"
  unfolding closed_midway_def by (rule applied [OF new_project]) (simp_all add: closing_env_def working_env_def falls_back_def)

lemma closed_midway_state:
  "disk closed_midway SlotView \<noteq> None \<and> installed_view closed_midway = None \<and> active_operation closed_midway \<noteq> None"
  by code_simp

theorem view_survives_every_history_witness:
  "disk closed_midway SlotView = Some (highest_generation (manifests closed_midway))"
  using view_survives_every_history [OF closed_midway_history numbered_folders_told_apart] closed_midway_state
  by auto

section \<open>A working restart\<close>







section \<open>The rows of the journal and the manifests\<close>

text \<open>
  C12. On a volume that tells folders apart and has a rename that never replaces, whose folder probes answer to
  the restarts: in no history is a statement of an Apply or of a recovery on the modelled rows refused. Those
  are the row of \<open>apply_operations\<close>, with the checks between its phase, outcome, stop, wait and report and the
  trigger that lets it only move forward; the states of \<open>view_manifests\<close>, with their transitions and at most
  one manifest in each of the states that own a folder; and the operation that holds the project. The other
  columns, the foreign keys, the triggers that lock a closed project, and the tables of entries, leftovers,
  foreign files and kept moves are not modelled; a refusal by them is a failure of the database here.
\<close>

theorem journal_and_manifest_writes_are_accepted:
  assumes "project_history ident False w" and "told_apart ident" and "identify \<E> = ident" and "\<not> falls_back \<E>"
  shows "fst (apply_with \<E> q w) \<noteq> Broke SchemaRefused \<and>
    ((\<forall>n. observable \<E> n) \<longrightarrow> fst (recover_applies \<E> w) \<noteq> Broke SchemaRefused)"
proof (intro conjI impI)
  have w: "in_order ident w" using history_in_order [OF assms(1,2)] .
  show "fst (apply_with \<E> q w) \<noteq> Broke SchemaRefused" using w unfolding in_order_def
  proof (elim disjE conjE exE)
    assume i: "idle w" "disk w SlotView = installed_view w"
    have "case_errors (case_of \<E> w op) = {}" for op using case_of_underway [OF i] by (rule underway_errors)
    then show ?thesis using wp_apply_with [OF i(1) assms(4), of q]
      by (auto simp: wp_def breaks_def refuses_def fails_def reserve_errors_def run_errors_def db_errors_def split: prod.splits)
  next
    fix C p assume "stage_at C p w" "underway ident C"
    then have "active_operation w \<noteq> None" by (simp add: stage_at_def)
    from wp_apply_while_running [OF this, of \<E> q] show ?thesis by (auto simp: wp_def split: prod.splits)
  qed
  assume obs: "\<forall>n. observable \<E> n"
  show "fst (recover_applies \<E> w) \<noteq> Broke SchemaRefused" using w unfolding in_order_def
  proof (elim disjE conjE exE)
    assume "idle w" "disk w SlotView = installed_view w"
    then show ?thesis using wp_recover_idle [of w \<E>] idle_row [of w]
      by (auto simp: wp_def db_errors_def split: prod.splits)
  next
    fix C p assume C: "stage_at C p w" "underway ident C"
    from wp_recover_stage [OF C(1) underway_recoverable [OF C(2) assms(2,3) obs assms(4)]] underway_errors [OF C(2)]
    show ?thesis by (auto simp: wp_def fails_def recovery_errors_def db_errors_def split: prod.splits)
  qed
qed

theorem journal_and_manifest_writes_are_accepted_witness:
  "fst (apply_with working_env first_request empty_project) \<noteq> Broke SchemaRefused \<and>
   fst (recover_applies working_env closed_midway) \<noteq> Broke SchemaRefused"
  using journal_and_manifest_writes_are_accepted [OF new_project numbered_folders_told_apart, of working_env first_request]
    journal_and_manifest_writes_are_accepted [OF closed_midway_history numbered_folders_told_apart, of working_env first_request]
  by simp

section \<open>Waiting for a tool\<close>

text \<open>
  The poll at tick \<open>n\<close> is held where neither cancel request before it is there and a tool holds up the rename.
\<close>

definition poll_held :: "apply_env \<Rightarrow> nat \<Rightarrow> bool" where
  "poll_held \<E> n \<longleftrightarrow> \<not> canceled_at \<E> n \<and> \<not> canceled_at \<E> (n + 1) \<and>
     (\<exists>e. renames \<E> (n + 2) = RenameError e \<and> held_by_a_tool (windows \<E>) e)"

text \<open>How a poll ends that is not held: canceled, moved, or refused for good.\<close>

definition poll_outcome :: "apply_env \<Rightarrow> world \<Rightarrow> aside \<times> world" where
  "poll_outcome \<E> w =
    (let n = tick w in
     if canceled_at \<E> n then (AsideCanceled, w\<lparr>tick := n + 1\<rparr>)
     else if canceled_at \<E> (n + 1) then (AsideCanceled, w\<lparr>tick := n + 2\<rparr>)
     else if renames \<E> (n + 2) = Granted \<and> disk w SlotView \<noteq> None \<and> disk w SlotPrevious = None
     then (AsideMoved, w\<lparr>tick := n + 3, disk := (disk w)(SlotView := None, SlotPrevious := disk w SlotView)\<rparr>)
     else (AsideRefused, w\<lparr>tick := n + 3\<rparr>))"

lemma rename_error_free [simp]: "\<not> held_by_a_tool win rename_error"
  by (simp add: held_by_a_tool_def rename_error_def)

lemmas poll_defs = m_bind_def ask_def m_ret_def move_aside_def rename_noreplace_def rename_at_once_def Let_def

lemma poll_held_step:
  assumes "poll_held \<E> (tick w)"
  shows "wait_aside \<E> (Suc n) w = wait_aside \<E> n (w\<lparr>tick := tick w + 3\<rparr>)"
  using assms by (auto simp: poll_held_def poll_defs eval_nat_numeral)

lemma poll_free_step:
  assumes "\<not> poll_held \<E> (tick w)" and "\<not> falls_back \<E>"
  shows "wait_aside \<E> (Suc n) w = (case poll_outcome \<E> w of (a, w') \<Rightarrow> (Done a, w'))"
proof (cases "renames \<E> (Suc (Suc (tick w)))")
  case Granted
  then show ?thesis using assms(2) by (simp add: poll_outcome_def poll_defs eval_nat_numeral)
next
  case (RenameError e)
  then show ?thesis using assms by (auto simp: poll_held_def poll_outcome_def poll_defs eval_nat_numeral)
qed

text \<open>
  C36. Where a tool holds the View, the wait goes on through every poll that is held, changing nothing but the
  time, and ends with the first one that is not, and with what that poll finds: \<open>AsideCanceled\<close> for a cancel
  request, \<open>AsideMoved\<close> with the View moved where the rename is granted and can be made, and \<open>AsideRefused\<close>
  otherwise. Where every poll is held, it goes on to the last poll of the process. The volume has a rename
  that never replaces.
\<close>

theorem wait_ends_at_the_first_free_poll:
  assumes "\<not> falls_back \<E>" and "\<forall>i < k. poll_held \<E> (tick w + 3 * i)"
  shows "(k < n \<and> \<not> poll_held \<E> (tick w + 3 * k) \<longrightarrow>
      wait_aside \<E> n w = (case poll_outcome \<E> (w\<lparr>tick := tick w + 3 * k\<rparr>) of (a, w') \<Rightarrow> (Done a, w'))) \<and>
    (n = k \<longrightarrow> wait_aside \<E> n w = (Broke KilledWhileWaiting, w\<lparr>tick := tick w + 3 * k\<rparr>))"
  using assms(2)
proof (induction k arbitrary: n w)
  case 0
  show ?case by (cases n) (simp_all add: poll_free_step [OF _ assms(1)] m_fail_def del: wait_aside.simps(2))
next
  case (Suc k)
  let ?v = "w\<lparr>tick := tick w + 3\<rparr>"
  have held: "poll_held \<E> (tick w)" "\<forall>i < k. poll_held \<E> (tick ?v + 3 * i)"
    using Suc.prems [rule_format, of 0] Suc.prems [rule_format, of "Suc i" for i] by (simp_all add: algebra_simps)
  show ?case using Suc.IH [OF held(2)] poll_held_step [OF held(1)]
    by (cases n) (simp_all add: algebra_simps del: wait_aside.simps)
qed

text \<open>A tool that releases the View at the second poll.\<close>

definition held_env :: apply_env where
  "held_env = working_env\<lparr>renames := \<lambda>n. if n < 5 then RenameError \<lparr>raw_os_error = Some 16, resource_busy = True\<rparr> else Granted\<rparr>"

theorem wait_ends_at_the_first_free_poll_witness:
  "let w = empty_project\<lparr>disk := (\<lambda>_. None)(SlotView := Some 1)\<rparr>
   in wait_aside held_env 7 w =
       (Done AsideMoved, w\<lparr>tick := 6, disk := (\<lambda>_. None)(SlotView := None, SlotPrevious := Some 1)\<rparr>)"
proof -
  let ?w = "empty_project\<lparr>disk := (\<lambda>_. None)(SlotView := Some 1)\<rparr>"
  have "\<not> falls_back held_env" "\<forall>i < 1. poll_held held_env (tick ?w + 3 * i)" "\<not> poll_held held_env (tick ?w + 3 * 1)"
    by (simp_all add: held_env_def falls_back_def working_env_def poll_held_def held_by_a_tool_def empty_project_def)
  then show ?thesis using wait_ends_at_the_first_free_poll [of held_env 1 ?w 7]
    by (simp add: poll_outcome_def held_env_def working_env_def empty_project_def Let_def fun_upd_twist)
qed

section \<open>Where recovery relies on more than it is given\<close>

text \<open>
  Recovery asks whether a folder is a recorded one in two places. On a volume whose file ids are not stable
  every folder is; and where the identity cannot be read, no folder is.
\<close>

definition never_told_apart :: "(folder \<Rightarrow> file_identity) \<Rightarrow> bool" where
  "never_told_apart ident \<longleftrightarrow> (\<forall>f g. is_recorded (ident f) (ident g))"

lemma recover_folders_takes_any_view:
  assumes "never_told_apart (identify \<E>)" and "3 \<le> phase_rank p" and "disk w SlotView = Some f"
    and "observable \<E> (tick w)" and "expected_building e = Some (identify \<E> g)"
  shows "recover_folders \<E> e p w = (Done RecInstalled, w\<lparr>tick := Suc (tick w)\<rparr>)"
  using assms
  by (simp add: recover_folders_def before_def slot_is_def m_bind_def observe_folder_identity_def m_ret_def never_told_apart_def)

definition unstable_folder :: "folder \<Rightarrow> file_identity" where
  "unstable_folder f = (numbered_folder f)\<lparr>on_volume := (on_volume (numbered_folder f))\<lparr>file_ids_stable := False\<rparr>\<rparr>"

definition unstable_env :: apply_env where
  "unstable_env = working_env\<lparr>identify := unstable_folder\<rparr>"

definition one_view :: world where
  "one_view = empty_project\<lparr>disk := (\<lambda>_. None)(SlotView := Some 1), manifests := [(1, M_Installed)]\<rparr>"

definition verified_build :: world where
  "verified_build = snd (apply_with (unstable_env\<lparr>interrupted_at := \<lambda>m. m = 25\<rparr>) first_request one_view)"

text \<open>
  C37. On a volume whose file ids are not stable, recovery takes whatever \<open>View\<close> holds for the verified build:
  once \<open>BuildVerified\<close> is recorded, any folder of that name counts as installed.
\<close>

theorem unstable_ids_hide_the_old_view:
  assumes "never_told_apart (identify \<E>)" and "BuildVerified \<in> {p} \<or> before BuildVerified p" and "disk w SlotView = Some f"
    and "observable \<E> (tick w)" and "expected_building e = Some (identify \<E> g)"
  shows "fst (recover_folders \<E> e p w) = Done RecInstalled"
proof -
  have "3 \<le> phase_rank p" using assms(2) by (auto simp: before_def)
  from recover_folders_takes_any_view [OF assms(1) this assms(3-)] show ?thesis by simp
qed

text \<open>An Apply closed after it verified its build, while the old View 1 is still in place.\<close>

lemma verified_build_recovered:
  "let w' = restart unstable_env verified_build
   in disk w' SlotView = Some 1 \<and> installed_view w' = Some 2 \<and> active_operation w' = None"
  by code_simp

theorem unstable_ids_hide_the_old_view_witness:
  "fst (recover_folders unstable_env (expected example_journal\<lparr>expected_building := Some (unstable_folder 2)\<rparr>) BuildVerified one_view)
     = Done RecInstalled \<and>
   (let w' = restart unstable_env verified_build
    in disk w' SlotView = Some 1 \<and> installed_view w' = Some 2 \<and> active_operation w' = None)"
proof -
  have "never_told_apart (identify unstable_env)"
    by (simp add: never_told_apart_def unstable_env_def unstable_folder_def is_recorded_def numbered_folder_def)
  from unstable_ids_hide_the_old_view [OF this, of BuildVerified one_view 1 _ 2] verified_build_recovered
  show ?thesis by (simp add: one_view_def unstable_env_def)
qed

text \<open>
  C38. A \<open>View\<close> whose identity cannot be read when recovery looks counts as not installed, although the folder
  is seen to be there: between the verified build and the record of its installation, recovery then says that
  the old View is in place, and leaves the folders alone.
\<close>

theorem unreadable_view_counts_as_not_installed:
  assumes "3 \<le> phase_rank p" "phase_rank p < 6" and "disk w SlotView \<noteq> None"
    and "\<not> observable \<E> (tick w)" and "observable \<E> (Suc (tick w))" and "expected_building e \<noteq> None"
  shows "recover_folders \<E> e p w = (Done RecNotInstalled, w\<lparr>tick := tick w + 2\<rparr>)"
  using assms
  by (auto simp: recover_folders_def before_def slot_is_def slot_there_def ask_def m_bind_def m_get_def observe_folder_identity_def m_ret_def)

text \<open>An Apply whose record of the installation failed, and a restart that cannot read the View at once.\<close>

definition unrecorded_install :: world where
  "unrecorded_install = snd (apply_with (working_env\<lparr>commits := \<lambda>m. m \<noteq> 35\<rparr>) first_request empty_project)"

definition flaky_env :: apply_env where
  "flaky_env = working_env\<lparr>observable := \<lambda>n. 37 < n\<rparr>"

lemma unrecorded_install_recovered:
  "let w' = restart flaky_env unrecorded_install
   in disk w' SlotView = Some 1 \<and> installed_view w' = None \<and> active_operation w' = None"
  by code_simp

theorem unreadable_view_counts_as_not_installed_witness:
  "fst (recover_folders flaky_env (expected example_journal\<lparr>expected_building := Some (numbered_folder 2)\<rparr>) OldMoved (one_view\<lparr>tick := 37\<rparr>))
     = Done RecNotInstalled \<and>
   (let w' = restart flaky_env unrecorded_install
    in disk w' SlotView = Some 1 \<and> installed_view w' = None \<and> active_operation w' = None)"
  using unreadable_view_counts_as_not_installed [of OldMoved "one_view\<lparr>tick := 37\<rparr>" flaky_env] unrecorded_install_recovered
  by (simp add: one_view_def flaky_env_def empty_project_def)

section \<open>Volumes without a rename that never replaces\<close>

lemma wp_os_call:
  "wp (os_call \<E> f) Q F w =
     (let w' = w\<lparr>tick := Suc (tick w)\<rparr> in
      case calls \<E> (tick w) of
        CallKilled \<Rightarrow> F KilledInRename w'
      | CallError e \<Rightarrow> Q (Inl e) w'
      | CallMade \<Rightarrow> (case f w' of Inl e \<Rightarrow> Q (Inl e) w' | Inr w'' \<Rightarrow> Q (Inr ()) w''))"
  by (simp add: wp_def os_call_def Let_def split: call_answer.split sum.split)

lemma wp_or_error [simp]:
  "wp (or_error m n) Q F = wp m (\<lambda>r. case r of Inl e \<Rightarrow> Q (Inl e) | Inr _ \<Rightarrow> wp n Q F) F"
  unfolding or_error_def wp_bind by (rule arg_cong2 [where f = "\<lambda>x. wp m x"]) (auto split: sum.split)

text \<open>How a rename from \<open>a\<close> to \<open>b\<close> can leave the disk \<open>d\<close>: moved, or as it was, or with a placeholder in \<open>b\<close>.\<close>

definition renamed :: "bool \<Rightarrow> slot \<Rightarrow> slot \<Rightarrow> (slot \<Rightarrow> folder option) \<Rightarrow> bool \<Rightarrow> (slot \<Rightarrow> folder option) \<Rightarrow> bool" where
  "renamed falls a b d ok d' \<longleftrightarrow>
     (if ok then d a \<noteq> None \<and> d b = None \<and> d' = d(a := None, b := d a)
      else d' = d \<or> (falls \<and> d b = None \<and> d' = d(b := Some placeholder)))"

definition renames_folder :: "bool \<Rightarrow> slot \<Rightarrow> slot \<Rightarrow> (slot \<Rightarrow> folder option) \<Rightarrow> os_error + unit \<Rightarrow> world \<Rightarrow> bool" where
  "renames_folder falls a b d r w \<longleftrightarrow> renamed falls a b d (r = Inr ()) (disk w)"

lemma wp_rename_over_placeholder:
  assumes "a \<noteq> b" and "d a \<noteq> None" "d b = None" and "disk w = d(b := Some placeholder)"
  shows "wp (rename_over_placeholder \<E> a b) (renames_folder True a b d) (\<lambda>_ w'. renamed True a b d False (disk w')) w"
proof -
  have "d = (disk w)(b := None)" using assms by auto
  then show ?thesis unfolding rename_over_placeholder_def wp_bind using assms
    by (auto simp: wp_os_call Let_def rename_over_def renames_folder_def renamed_def holds_placeholder_def remove_empty_def
        split: call_answer.split)
qed

lemma wp_claim_and_rename:
  assumes "a \<noteq> b"
  shows "wp (claim_and_rename \<E> a b) (renames_folder True a b (disk w)) (\<lambda>_ w'. renamed True a b (disk w) False (disk w')) w"
proof -
  have same: "renames_folder True a b (disk w) (Inl e) (w\<lparr>tick := n\<rparr>)" "renamed True a b (disk w) False (disk w)"
    "disk w b = None \<Longrightarrow> renames_folder True a b (disk w) (Inl e) (w\<lparr>tick := n, disk := (disk w)(b := Some placeholder)\<rparr>)"
    "disk w b = None \<Longrightarrow> renames_folder True a b (disk w) (Inl e) (w\<lparr>disk := (disk w)(b := Some placeholder), tick := n\<rparr>)"
    "disk w b = None \<Longrightarrow> renamed True a b (disk w) False ((disk w)(b := Some placeholder))" for e n
    by (simp_all add: renames_folder_def renamed_def)
  have "wp (rename_over_placeholder \<E> a b) (renames_folder True a b (disk w)) (\<lambda>_ w'. renamed True a b (disk w) False (disk w')) v"
    if "disk w a \<noteq> None" "disk w b = None" "disk v = (disk w)(b := Some placeholder)" for v
    using wp_rename_over_placeholder [OF assms that] .
  then show ?thesis unfolding claim_and_rename_def
    by (auto simp: wp_os_call Let_def create_folder_def holds_placeholder_def same split: call_answer.split)
qed

text \<open>
  A rename of a folder that never replaces loses no folder, on any volume, whichever of its calls fail
  and wherever the process ends: it moves the folder to a free name and says so, or everything is where it
  was; only where the volume lacks such a rename, the free name may then hold an empty placeholder.
\<close>

theorem folder_rename_loses_no_folder:
  assumes "a \<noteq> b"
  shows "case rename_noreplace \<E> a b w of (r, w') \<Rightarrow>
    if r = Done (Inr ()) then disk w a \<noteq> None \<and> disk w b = None \<and> disk w' = (disk w)(a := None, b := disk w a)
    else disk w' = disk w \<or> (falls_back \<E> \<and> disk w b = None \<and> disk w' = (disk w)(b := Some placeholder))"
proof -
  let ?f = "falls_back \<E>"
  have "wp (rename_noreplace \<E> a b) (renames_folder ?f a b (disk w)) (\<lambda>_ w'. renamed ?f a b (disk w) False (disk w')) w"
  proof (cases ?f)
    case True
    then show ?thesis using wp_claim_and_rename [OF assms, of \<E> "w\<lparr>tick := Suc (tick w)\<rparr>"]
      by (cases "renames \<E> (tick w)") (simp_all add: rename_noreplace_def renames_folder_def renamed_def)
  next
    case False
    then show ?thesis
      by (auto simp: wp_rename renames_folder_def renamed_def Let_def split: rename_answer.split)
  qed
  then show ?thesis
    by (auto simp: wp_def renames_folder_def renamed_def split: prod.splits ended.splits if_splits)
qed

theorem folder_rename_loses_no_folder_witness:
  "case rename_noreplace (working_env\<lparr>lacks_noreplace := True, calls := \<lambda>n. if n = 3 then CallKilled else CallMade\<rparr>)
      SlotPrevious SlotView (empty_project\<lparr>disk := (\<lambda>_. None)(SlotPrevious := Some 1)\<rparr>) of (r, w') \<Rightarrow>
    r \<noteq> Done (Inr ()) \<and> disk w' SlotPrevious = Some 1 \<and> disk w' SlotView = Some placeholder"
  (is "case rename_noreplace ?\<E> _ _ ?w of (r, w') \<Rightarrow> _")
proof -
  have k: "fst (rename_noreplace ?\<E> SlotPrevious SlotView ?w) \<noteq> Done (Inr ()) \<and>
      disk (snd (rename_noreplace ?\<E> SlotPrevious SlotView ?w)) SlotView = Some placeholder" by code_simp
  from folder_rename_loses_no_folder [of SlotPrevious SlotView ?w ?\<E>] k
  show ?thesis by (auto split: prod.splits)
qed

text \<open>
  Where the volume lacks such a rename, an Apply whose process ends after \<open>mkdir\<close> claimed \<open>View\<close> and
  before the new View is renamed over it leaves an empty \<open>View\<close> that is neither the old View nor the new one.
  Recovery takes it for a View that was not installed, although the old one may wait in \<open>View (previous)\<close>, and
  leaves the folders as they are.
\<close>

theorem empty_placeholder_counts_as_not_installed:
  assumes "falls_back \<E>" and "renames \<E> (tick w) = Granted"
    and "calls \<E> (tick w + 1) = CallMade" "calls \<E> (tick w + 2) = CallMade" "calls \<E> (tick w + 3) = CallKilled"
    and "disk w SlotBuilding = Some g" "disk w SlotView = None" and "g \<noteq> placeholder"
    and "told_apart (identify \<E>')" "\<forall>n. observable \<E>' n" and "expected_building e = Some (identify \<E>' g)"
    and "3 \<le> phase_rank p" "phase_rank p < 6"
  shows "\<exists>w'. install \<E> old w = (Broke KilledInRename, w') \<and> disk w' = (disk w)(SlotView := Some placeholder) \<and>
    (\<exists>n. recover_folders \<E>' e p w' = (Done RecNotInstalled, w'\<lparr>tick := n\<rparr>))"
proof -
  let ?w = "w\<lparr>tick := tick w + 4, disk := (disk w)(SlotView := Some placeholder)\<rparr>"
  have "install \<E> old w = (Broke KilledInRename, ?w)"
    using assms(1-7) by (simp add: install_def m_bind_def rename_noreplace_def ask_def claim_and_rename_def or_error_def
        os_call_def create_folder_def Let_def eval_nat_numeral)
  moreover have "recover_folders \<E>' e p ?w = (Done RecNotInstalled, ?w\<lparr>tick := tick w + 6\<rparr>)"
    using assms(8-) by (simp add: recover_folders_def before_def slot_is_def slot_there_def ask_def m_bind_def m_get_def
        observe_folder_identity_def m_ret_def told_apart_def)
  ultimately show ?thesis by (intro exI [of _ ?w]) auto
qed

text \<open>An Apply over View 1 on such a volume, whose process ends within its rename of the new View.\<close>

definition fallback_env :: "nat \<Rightarrow> apply_env" where
  "fallback_env n = working_env\<lparr>lacks_noreplace := True, calls := \<lambda>m. if m = n then CallKilled else CallMade\<rparr>"

definition killed_in_install :: world where
  "killed_in_install = snd (apply_with (fallback_env 47) first_request one_view)"

definition shown :: "world \<Rightarrow> folder option \<times> folder option \<times> revision option \<times> uuid option" where
  "shown w = (disk w SlotView, disk w SlotPrevious, installed_view w, active_operation w)"

lemma killed_in_install_recovered: "shown (restart (fallback_env 0) killed_in_install) = (Some placeholder, Some 1, Some 1, None)"
  by code_simp

definition about_to_install :: world where
  "about_to_install = empty_project\<lparr>disk := (\<lambda>_. None)(SlotBuilding := Some 2, SlotPrevious := Some 1)\<rparr>"

theorem empty_placeholder_counts_as_not_installed_witness:
  "(\<exists>w'. install (fallback_env 3) True about_to_install = (Broke KilledInRename, w') \<and>
      disk w' = (disk about_to_install)(SlotView := Some placeholder)) \<and>
   shown (restart (fallback_env 0) killed_in_install) = (Some placeholder, Some 1, Some 1, None)"
proof (intro conjI)
  let ?e = "expected example_journal\<lparr>expected_building := Some (numbered_folder 2)\<rparr>"
  have env: "falls_back (fallback_env 3)" "renames (fallback_env 3) n = Granted"
    "calls (fallback_env 3) n = (if n = 3 then CallKilled else CallMade)" for n
    by (simp_all add: fallback_env_def falls_back_def working_env_def)
  have w: "tick about_to_install = 0" "disk about_to_install SlotBuilding = Some 2" "disk about_to_install SlotView = None"
    by (simp_all add: about_to_install_def empty_project_def)
  show "\<exists>w'. install (fallback_env 3) True about_to_install = (Broke KilledInRename, w') \<and>
      disk w' = (disk about_to_install)(SlotView := Some placeholder)"
    using empty_placeholder_counts_as_not_installed [where \<E> = "fallback_env 3" and w = about_to_install and g = 2
        and \<E>' = working_env and e = ?e and p = OldMoved and old = True]
      numbered_folders_told_apart by (simp add: env w placeholder_def) blast
qed (rule killed_in_install_recovered)

end
