(* ===== verification/Volume.thy ===== *)
theory Volume
  imports Evidence "HOL-Library.Word" "HOL-Library.AList"
begin

text \<open>
  A volume as the custody code sees it (\<open>crates/platevault-core/src/custody\<close>): entries by folder and
  name, inodes that entries and open handles refer to, and the calls of the operating system that code
  makes. A path is resolved as far as its folder, whose inode it carries, so no call follows a link. Every
  call may fail, and the process may end before any of them; files hold bytes, and a write stores what the
  medium makes of it.
\<close>

section \<open>Inodes and entries\<close>

type_synonym bytes = "8 word list"

datatype vkind = VFile | VFolder | VLink

record vnode =
  vkind :: vkind
  vdata :: bytes
  vtime :: int
  vattrs :: "(string \<times> bytes) list"

type_synonym vpath = "nat \<times> string"

record volume =
  dirents :: "(vpath \<times> nat) list"
  inodes :: "nat \<Rightarrow> vnode"
  next_inode :: nat
  trash_bin :: "(vpath \<times> nat) list"
  calls :: nat

datatype vio_error =
    AlreadyExists
  | NotFound
  | DirectoryNotEmpty
  | NotADirectory
  | NotPermitted
  | Unsupported
  | NoSuchCall
  | InvalidArgument
  | OtherError

text \<open>How a persist that must not replace ends: as a rename, as a link whose old name stays, or refused.\<close>

datatype persisting = Renames | LeavesBoth | Refuses vio_error

text \<open>
  How the system's Trash answers, with the entry gone from its path or not: the contract says that a
  refused entry stays, the code looks.
\<close>

datatype trashing = Trashes | RefusesTrash | ClaimsTrash | RefusesGone

text \<open>The decisions of the environment, by the number of the call.\<close>

record venv =
  killed_at :: "nat \<Rightarrow> bool"
  fails_at :: "nat \<Rightarrow> vio_error option"
  noreplace_error :: "vio_error option"
  persists_at :: "nat \<Rightarrow> persisting"
  stored :: "nat \<Rightarrow> bytes \<Rightarrow> bytes"
  chunk :: "nat \<Rightarrow> nat"
  sha256_of :: "bytes \<Rightarrow> string"
  inode_identity :: "nat \<Rightarrow> file_identity"
  trash_at :: "nat \<Rightarrow> trashing"
  trash_supports :: "vpath \<Rightarrow> nat \<Rightarrow> bool"
  folder_ready :: "nat \<Rightarrow> bool"
  new_uuid :: "nat \<Rightarrow> string"
  on_macos :: bool

section \<open>Running\<close>

text \<open>The state may extend the volume: the journal of a storage operation does.\<close>

datatype ('e, 'a) reply = Value 'a | Failed 'e | Killed

type_synonym ('s, 'e, 'a) vrun = "'s volume_scheme \<Rightarrow> ('e, 'a) reply \<times> 's volume_scheme"

definition v_ret :: "'a \<Rightarrow> ('s, 'e, 'a) vrun" where
  "v_ret a v = (Value a, v)"

definition v_err :: "'e \<Rightarrow> ('s, 'e, 'a) vrun" where
  "v_err e v = (Failed e, v)"

definition v_die :: "('s, 'e, 'a) vrun" where
  "v_die v = (Killed, v)"

definition v_bind :: "('s, 'e, 'a) vrun \<Rightarrow> ('a \<Rightarrow> ('s, 'e, 'b) vrun) \<Rightarrow> ('s, 'e, 'b) vrun" where
  "v_bind m f v =
    (case m v of
       (Value a, v') \<Rightarrow> f a v'
     | (Failed e, v') \<Rightarrow> (Failed e, v')
     | (Killed, v') \<Rightarrow> (Killed, v'))"

text \<open>A failure as a value, as a \<open>match\<close> on the result has it.\<close>

definition v_try :: "('s, 'e, 'a) vrun \<Rightarrow> ('s, 'f, 'e + 'a) vrun" where
  "v_try m v =
    (case m v of
       (Value a, v') \<Rightarrow> (Value (Inr a), v')
     | (Failed e, v') \<Rightarrow> (Value (Inl e), v')
     | (Killed, v') \<Rightarrow> (Killed, v'))"

definition v_map_err :: "('e \<Rightarrow> 'f) \<Rightarrow> ('s, 'e, 'a) vrun \<Rightarrow> ('s, 'f, 'a) vrun" where
  "v_map_err h m v =
    (case m v of
       (Value a, v') \<Rightarrow> (Value a, v')
     | (Failed e, v') \<Rightarrow> (Failed (h e), v')
     | (Killed, v') \<Rightarrow> (Killed, v'))"

text \<open>\<open>is_ok_and\<close>: a failure counts as no.\<close>

definition v_ok :: "('s, 'e, bool) vrun \<Rightarrow> ('s, 'f, bool) vrun" where
  "v_ok m = v_bind (v_try m) (\<lambda>r. v_ret (case r of Inl _ \<Rightarrow> False | Inr b \<Rightarrow> b))"

text \<open>\<open>let _ = f\<close>: the result is not looked at.\<close>

definition v_ignore :: "('s, 'e, 'a) vrun \<Rightarrow> ('s, 'f, unit) vrun" where
  "v_ignore m = v_bind (v_try m) (\<lambda>_. v_ret ())"

definition v_now :: "(nat \<Rightarrow> 'a) \<Rightarrow> ('s, 'e, 'a) vrun" where
  "v_now f v = (Value (f (calls v)), v)"

text \<open>One call: the process may end before it, and it may fail, with nothing done.\<close>

definition call :: "venv \<Rightarrow> ('s volume_scheme \<Rightarrow> vio_error + ('a \<times> 's volume_scheme)) \<Rightarrow> ('s, vio_error, 'a) vrun" where
  "call \<E> f v =
    (if killed_at \<E> (calls v) then (Killed, v)
     else
       let v' = v\<lparr>calls := Suc (calls v)\<rparr> in
       case fails_at \<E> (calls v) of
         Some e \<Rightarrow> (Failed e, v')
       | None \<Rightarrow> (case f v' of Inl e \<Rightarrow> (Failed e, v') | Inr (a, v'') \<Rightarrow> (Value a, v'')))"

section \<open>Entries\<close>

definition find_entry :: "'s volume_scheme \<Rightarrow> vpath \<Rightarrow> nat option" where
  "find_entry v p = map_of (dirents v) p"

definition drop_entry :: "vpath \<Rightarrow> 's volume_scheme \<Rightarrow> 's volume_scheme" where
  "drop_entry p v = v\<lparr>dirents := filter (\<lambda>e. fst e \<noteq> p) (dirents v)\<rparr>"

definition put_entry :: "vpath \<Rightarrow> nat \<Rightarrow> 's volume_scheme \<Rightarrow> 's volume_scheme" where
  "put_entry p i v = v\<lparr>dirents := filter (\<lambda>e. fst e \<noteq> p) (dirents v) @ [(p, i)]\<rparr>"

definition set_node :: "nat \<Rightarrow> vnode \<Rightarrow> 's volume_scheme \<Rightarrow> 's volume_scheme" where
  "set_node i n v = v\<lparr>inodes := (inodes v)(i := n)\<rparr>"

definition node_at :: "'s volume_scheme \<Rightarrow> vpath \<Rightarrow> vnode option" where
  "node_at v p = map_option (inodes v) (find_entry v p)"

definition folder_empty :: "'s volume_scheme \<Rightarrow> nat \<Rightarrow> bool" where
  "folder_empty v i \<longleftrightarrow> list_all (\<lambda>e. fst (fst e) \<noteq> i) (dirents v)"

section \<open>Calls\<close>

text \<open>What \<open>symlink_metadata\<close> and a handle's \<open>metadata\<close> say: the inode and what it is at that time.\<close>

type_synonym metadata = "nat \<times> vnode"

definition sys_lstat :: "venv \<Rightarrow> vpath \<Rightarrow> ('s, vio_error, metadata) vrun" where
  "sys_lstat \<E> p = call \<E> (\<lambda>v. case find_entry v p of None \<Rightarrow> Inl NotFound | Some i \<Rightarrow> Inr ((i, inodes v i), v))"

definition sys_fstat :: "venv \<Rightarrow> nat \<Rightarrow> ('s, vio_error, metadata) vrun" where
  "sys_fstat \<E> h = call \<E> (\<lambda>v. Inr ((h, inodes v h), v))"

definition sys_open :: "venv \<Rightarrow> vpath \<Rightarrow> ('s, vio_error, nat) vrun" where
  "sys_open \<E> p = call \<E> (\<lambda>v. case find_entry v p of None \<Rightarrow> Inl NotFound
      | Some i \<Rightarrow> (if vkind (inodes v i) = VLink then Inl OtherError else Inr (i, v)))"

definition sys_read :: "venv \<Rightarrow> nat \<Rightarrow> ('s, vio_error, bytes) vrun" where
  "sys_read \<E> h = call \<E> (\<lambda>v. Inr (vdata (inodes v h), v))"

definition empty_node :: "vkind \<Rightarrow> vnode" where
  "empty_node k = \<lparr>vkind = k, vdata = [], vtime = 0, vattrs = []\<rparr>"

definition sys_create :: "venv \<Rightarrow> vkind \<Rightarrow> vpath \<Rightarrow> ('s, vio_error, nat) vrun" where
  "sys_create \<E> k p = call \<E> (\<lambda>v.
     if find_entry v p \<noteq> None then Inl AlreadyExists
     else Inr (next_inode v,
       put_entry p (next_inode v) (set_node (next_inode v) (empty_node k) (v\<lparr>next_inode := Suc (next_inode v)\<rparr>))))"

definition sys_write :: "venv \<Rightarrow> nat \<Rightarrow> bytes \<Rightarrow> ('s, vio_error, unit) vrun" where
  "sys_write \<E> h bs = call \<E> (\<lambda>v.
     Inr ((), set_node h ((inodes v h)\<lparr>vdata := vdata (inodes v h) @ stored \<E> (calls v) bs\<rparr>) v))"

definition sys_truncate :: "venv \<Rightarrow> nat \<Rightarrow> ('s, vio_error, unit) vrun" where
  "sys_truncate \<E> h = call \<E> (\<lambda>v. Inr ((), set_node h ((inodes v h)\<lparr>vdata := []\<rparr>) v))"

definition sys_set_modified :: "venv \<Rightarrow> nat \<Rightarrow> int \<Rightarrow> ('s, vio_error, unit) vrun" where
  "sys_set_modified \<E> h t = call \<E> (\<lambda>v. Inr ((), set_node h ((inodes v h)\<lparr>vtime := t\<rparr>) v))"

definition sys_setxattr :: "venv \<Rightarrow> nat \<Rightarrow> string \<Rightarrow> bytes \<Rightarrow> ('s, vio_error, unit) vrun" where
  "sys_setxattr \<E> h a x = call \<E> (\<lambda>v.
     Inr ((), set_node h ((inodes v h)\<lparr>vattrs := AList.update a x (vattrs (inodes v h))\<rparr>) v))"

text \<open>A sync of a file or of a folder changes nothing that is read back.\<close>

definition sys_sync :: "venv \<Rightarrow> ('s, vio_error, unit) vrun" where
  "sys_sync \<E> = call \<E> (\<lambda>v. Inr ((), v))"

definition sys_remove_file :: "venv \<Rightarrow> vpath \<Rightarrow> ('s, vio_error, unit) vrun" where
  "sys_remove_file \<E> p = call \<E> (\<lambda>v. case find_entry v p of None \<Rightarrow> Inl NotFound
      | Some i \<Rightarrow> (if vkind (inodes v i) = VFolder then Inl OtherError else Inr ((), drop_entry p v)))"

definition sys_remove_dir :: "venv \<Rightarrow> vpath \<Rightarrow> ('s, vio_error, unit) vrun" where
  "sys_remove_dir \<E> p = call \<E> (\<lambda>v. case find_entry v p of None \<Rightarrow> Inl NotFound
      | Some i \<Rightarrow>
          (if vkind (inodes v i) \<noteq> VFolder then Inl NotADirectory
           else if \<not> folder_empty v i then Inl DirectoryNotEmpty else Inr ((), drop_entry p v)))"

definition sys_read_dir :: "venv \<Rightarrow> nat \<Rightarrow> ('s, vio_error, string list) vrun" where
  "sys_read_dir \<E> folder = call \<E> (\<lambda>v.
     Inr (map (snd \<circ> fst) (filter (\<lambda>e. fst (fst e) = folder) (dirents v)), v))"

definition sys_listxattr :: "venv \<Rightarrow> nat \<Rightarrow> ('s, vio_error, string list) vrun" where
  "sys_listxattr \<E> h = call \<E> (\<lambda>v. Inr (map fst (vattrs (inodes v h)), v))"

definition sys_getxattr :: "venv \<Rightarrow> nat \<Rightarrow> string \<Rightarrow> ('s, vio_error, bytes) vrun" where
  "sys_getxattr \<E> h a = call \<E> (\<lambda>v. case map_of (vattrs (inodes v h)) a of None \<Rightarrow> Inl OtherError | Some x \<Rightarrow> Inr (x, v))"

text \<open>The identity of the file a handle or a checked entry is: its volume and file id.\<close>

definition sys_identify :: "venv \<Rightarrow> nat \<Rightarrow> ('s, vio_error, file_identity) vrun" where
  "sys_identify \<E> i = call \<E> (\<lambda>v. Inr (inode_identity \<E> i, v))"

definition to_trash :: "vpath \<Rightarrow> nat \<Rightarrow> 's volume_scheme \<Rightarrow> 's volume_scheme" where
  "to_trash p i v = drop_entry p v\<lparr>trash_bin := (p, i) # trash_bin v\<rparr>"

text \<open>The Trash takes the entry itself; the reply says what it reports.\<close>

definition sys_move_to_trash :: "venv \<Rightarrow> vpath \<Rightarrow> ('s, vio_error, unit) vrun" where
  "sys_move_to_trash \<E> p v =
    (case call \<E> (\<lambda>v. case find_entry v p of None \<Rightarrow> Inl NotFound
       | Some i \<Rightarrow>
           (case trash_at \<E> (calls v) of
              Trashes \<Rightarrow> Inr (True, to_trash p i v)
            | ClaimsTrash \<Rightarrow> Inr (True, v)
            | RefusesTrash \<Rightarrow> Inr (False, v)
            | RefusesGone \<Rightarrow> Inr (False, to_trash p i v))) v of
       (Value True, v') \<Rightarrow> (Value (), v')
     | (Value False, v') \<Rightarrow> (Failed OtherError, v')
     | (Failed e, v') \<Rightarrow> (Failed e, v')
     | (Killed, v') \<Rightarrow> (Killed, v'))"

text \<open>A plain rename replaces: a file by a file or a link, an empty folder by a folder.\<close>

definition renamed_over :: "'s volume_scheme \<Rightarrow> nat \<Rightarrow> nat \<Rightarrow> vio_error option" where
  "renamed_over v i j =
    (let folder = (vkind (inodes v i) = VFolder); onto = (vkind (inodes v j) = VFolder) in
     if folder \<and> \<not> onto then Some NotADirectory
     else if \<not> folder \<and> onto then Some OtherError
     else if folder \<and> \<not> folder_empty v j then Some DirectoryNotEmpty
     else None)"

definition sys_rename :: "venv \<Rightarrow> vpath \<Rightarrow> vpath \<Rightarrow> ('s, vio_error, unit) vrun" where
  "sys_rename \<E> a b = call \<E> (\<lambda>v. case find_entry v a of None \<Rightarrow> Inl NotFound
      | Some i \<Rightarrow>
          (case find_entry v b of
             None \<Rightarrow> Inr ((), put_entry b i (drop_entry a v))
           | Some j \<Rightarrow>
               (if i = j then Inr ((), v)
                else case renamed_over v i j of
                  Some e \<Rightarrow> Inl e
                | None \<Rightarrow> Inr ((), put_entry b i (drop_entry a v)))))"

text \<open>
  \<open>renameat2\<close> with \<open>RENAME_NOREPLACE\<close>: an existing name refuses it, and a volume without the call
  answers so.
\<close>

definition sys_rename_noreplace :: "venv \<Rightarrow> vpath \<Rightarrow> vpath \<Rightarrow> ('s, vio_error, unit) vrun" where
  "sys_rename_noreplace \<E> a b = call \<E> (\<lambda>v. case find_entry v a of None \<Rightarrow> Inl NotFound
      | Some i \<Rightarrow>
          (if find_entry v b \<noteq> None then Inl AlreadyExists
           else case noreplace_error \<E> of
             Some e \<Rightarrow> Inl e
           | None \<Rightarrow> Inr ((), put_entry b i (drop_entry a v))))"

text \<open>
  The \<open>persist_noclobber\<close> of the crate tempfile: it refuses an existing name, and otherwise renames, or
  links the new name and unlinks the old one, without a word when that fails.
\<close>

definition sys_persist_noclobber :: "venv \<Rightarrow> vpath \<Rightarrow> vpath \<Rightarrow> ('s, vio_error, unit) vrun" where
  "sys_persist_noclobber \<E> a b = call \<E> (\<lambda>v. case find_entry v a of None \<Rightarrow> Inl NotFound
      | Some i \<Rightarrow>
          (case persists_at \<E> (calls v) of
             Refuses e \<Rightarrow> Inl e
           | Renames \<Rightarrow> (if find_entry v b \<noteq> None then Inl AlreadyExists else Inr ((), put_entry b i (drop_entry a v)))
           | LeavesBoth \<Rightarrow> (if find_entry v b \<noteq> None then Inl AlreadyExists else Inr ((), put_entry b i v))))"

end
