(* ===== verification/Custody.thy ===== *)
theory Custody
  imports Volume
begin

text \<open>
  Evidence of an entry and its re-verification (\<open>crates/platevault-core/src/custody.rs\<close>, the types of
  \<open>platevault-model/src/storage.rs\<close>): an entry is recorded by its own identity, size, time and SHA-256,
  and read again only through a handle proven to be it.
\<close>

section \<open>Evidence\<close>

datatype entry_kind = EntryFile | EntryLink bytes

record entry_evidence =
  evidence_path :: vpath
  evidence_kind :: entry_kind
  evidence_print :: observation_fingerprint
  evidence_sha256 :: "string option"

record kept_copy =
  kept_path :: vpath
  kept_print :: observation_fingerprint
  kept_sha256 :: string

datatype check = CheckUnavailable | CheckChanged

datatype reason_code =
    ReasonTrashUnsupported
  | ReasonTrashFailed
  | SourceDrift
  | SourceUnavailable
  | KeptCopyUnproven
  | DestinationOccupied
  | DestinationMismatch
  | DestinationChanged
  | WriteFailed
  | ReasonInterrupted
  | ReasonProtected

section \<open>Observing an entry\<close>

definition same_identity :: "file_identity \<Rightarrow> file_identity \<Rightarrow> bool" where
  "same_identity observed recorded \<longleftrightarrow> is_recorded observed recorded"

definition is_link :: "metadata \<Rightarrow> bool" where
  "is_link m \<longleftrightarrow> vkind (snd m) = VLink"

definition same_stats :: "metadata \<Rightarrow> metadata \<Rightarrow> bool" where
  "same_stats l r \<longleftrightarrow> length (vdata (snd l)) = length (vdata (snd r)) \<and> vtime (snd l) = vtime (snd r)"

definition same_entry :: "metadata \<Rightarrow> metadata \<Rightarrow> bool" where
  "same_entry l r \<longleftrightarrow> fst l = fst r \<and> is_link r = is_link l"

definition fingerprint_of :: "file_identity \<Rightarrow> vnode \<Rightarrow> observation_fingerprint" where
  "fingerprint_of i n = \<lparr>identity = i, size_bytes = length (vdata n), modified_ns = vtime n, content_sha256 = None\<rparr>"

definition probe_fingerprint :: "venv \<Rightarrow> vpath \<Rightarrow> ('s, vio_error, observation_fingerprint) vrun" where
  "probe_fingerprint \<E> p =
     v_bind (sys_lstat \<E> p) (\<lambda>meta.
       if vkind (snd meta) \<noteq> VFile then v_err OtherError
       else v_bind (sys_identify \<E> (fst meta)) (\<lambda>i. v_ret (fingerprint_of i (snd meta))))"

text \<open>
  The inspected entry rather than a replacement and, where file ids are stable, the recorded one.
\<close>

definition handle_is :: "venv \<Rightarrow> nat \<Rightarrow> metadata \<Rightarrow> file_identity \<Rightarrow> ('s, 'e, bool) vrun" where
  "handle_is \<E> h inspected i =
     v_bind (v_try (sys_fstat \<E> h)) (\<lambda>handle.
       case handle of
         Inl _ \<Rightarrow> v_ret False
       | Inr m \<Rightarrow>
           (if \<not> same_entry inspected m then v_ret False
            else if \<not> file_ids_stable (on_volume i) then v_ret True
            else v_ok (v_bind (sys_identify \<E> h) (\<lambda>opened. v_ret (file_ids_match (file_id i) (file_id opened))))))"

record expect =
  expect_identity :: file_identity
  expect_size :: nat
  expect_modified :: "int option"

definition expect_recorded :: "observation_fingerprint \<Rightarrow> expect" where
  "expect_recorded f = \<lparr>expect_identity = identity f, expect_size = size_bytes f, expect_modified = Some (modified_ns f)\<rparr>"

definition unavailable :: "('s, vio_error, 'a) vrun \<Rightarrow> ('s, check, 'a) vrun" where
  "unavailable = v_map_err (\<lambda>_. CheckUnavailable)"

definition as_expected :: "expect \<Rightarrow> observation_fingerprint \<Rightarrow> bool" where
  "as_expected e f \<longleftrightarrow> same_identity (identity f) (expect_identity e) \<and> size_bytes f = expect_size e \<and>
     (case expect_modified e of None \<Rightarrow> True | Some t \<Rightarrow> modified_ns f = t)"

text \<open>A path is a name in a folder here, so the folders entered from a root are that folder.\<close>

definition open_unchanged :: "venv \<Rightarrow> vpath \<Rightarrow> expect \<Rightarrow> ('s, check, nat \<times> metadata) vrun" where
  "open_unchanged \<E> p e =
     v_bind (unavailable (sys_lstat \<E> p)) (\<lambda>before.
       if vkind (snd before) \<noteq> VFile then v_err CheckChanged else
     v_bind (unavailable (probe_fingerprint \<E> p)) (\<lambda>probed.
       if \<not> as_expected e probed then v_err CheckChanged else
     v_bind (unavailable (sys_open \<E> p)) (\<lambda>h.
     v_bind (handle_is \<E> h before (expect_identity e)) (\<lambda>same.
       if same then v_ret (h, before) else v_err CheckChanged))))"

text \<open>
  Reading chunk by chunk, each handed on as it is read; the last read finds the end. The bytes are those
  the entry had when it was inspected: nothing else writes it in between, and a sink writes another file.
\<close>

function stream :: "venv \<Rightarrow> nat \<Rightarrow> bytes \<Rightarrow> (bytes \<Rightarrow> ('s, vio_error, unit) vrun) \<Rightarrow> ('s, check, unit) vrun" where
  "stream \<E> h [] sink = v_bind (unavailable (sys_read \<E> h)) (\<lambda>_. v_ret ())"
| "stream \<E> h (b # bs) sink =
     v_bind (unavailable (sys_read \<E> h)) (\<lambda>_.
     v_bind (v_now (chunk \<E>)) (\<lambda>k.
     v_bind (unavailable (sink (b # take k bs))) (\<lambda>_. stream \<E> h (drop k bs) sink)))"
  by pat_completeness auto
termination by (relation "measure (\<lambda>(\<E>, h, bs, sink). length bs)") auto

definition read_unchanged ::
  "venv \<Rightarrow> vpath \<Rightarrow> expect \<Rightarrow> (bytes \<Rightarrow> ('s, vio_error, unit) vrun) \<Rightarrow> ('s, check, string) vrun" where
  "read_unchanged \<E> p e sink =
     v_bind (open_unchanged \<E> p e) (\<lambda>(h, before).
     v_bind (stream \<E> h (vdata (snd before)) sink) (\<lambda>_.
     v_bind (unavailable (sys_fstat \<E> h)) (\<lambda>read_stats.
     v_bind (unavailable (sys_lstat \<E> p)) (\<lambda>after.
       if \<not> same_stats before read_stats \<or> \<not> same_entry before after \<or> \<not> same_stats before after
       then v_err CheckChanged
       else v_ret (sha256_of \<E> (vdata (snd before)))))))"

definition no_sink :: "bytes \<Rightarrow> ('s, vio_error, unit) vrun" where
  "no_sink bs = v_ret ()"

section \<open>Verification\<close>

definition link_holds :: "venv \<Rightarrow> vpath \<Rightarrow> observation_fingerprint \<Rightarrow> bytes \<Rightarrow> ('s, check, unit) vrun" where
  "link_holds \<E> p recorded target =
     v_bind (unavailable (sys_lstat \<E> p)) (\<lambda>meta.
       if \<not> is_link meta then v_err CheckChanged else
     v_bind (unavailable (sys_read \<E> (fst meta))) (\<lambda>observed_target.
     v_bind (unavailable (sys_identify \<E> (fst meta))) (\<lambda>i.
       if observed_target \<noteq> target then v_err CheckChanged
       else if \<not> equivalent (fingerprint_of i (snd meta)) recorded then v_err CheckChanged
       else v_ret ())))"

definition file_holds :: "venv \<Rightarrow> vpath \<Rightarrow> observation_fingerprint \<Rightarrow> ('s, check, unit) vrun" where
  "file_holds \<E> p recorded =
     v_bind (v_try (probe_fingerprint \<E> p)) (\<lambda>observed.
       case observed of
         Inl _ \<Rightarrow> v_err CheckChanged
       | Inr f \<Rightarrow> (if equivalent f recorded then v_ret () else v_err CheckChanged))"

definition in_place :: "venv \<Rightarrow> entry_evidence \<Rightarrow> ('s, 'e, bool) vrun" where
  "in_place \<E> s =
     v_bind (v_try (case evidence_kind s of
         EntryFile \<Rightarrow> file_holds \<E> (evidence_path s) (evidence_print s)
       | EntryLink target \<Rightarrow> link_holds \<E> (evidence_path s) (evidence_print s) target)) (\<lambda>r.
     v_ret (r = Inr ()))"

definition source_reason :: "check \<Rightarrow> reason_code" where
  "source_reason c = (case c of CheckUnavailable \<Rightarrow> SourceUnavailable | CheckChanged \<Rightarrow> SourceDrift)"

definition verify_source :: "venv \<Rightarrow> entry_evidence \<Rightarrow> ('s, reason_code, unit) vrun" where
  "verify_source \<E> s =
     v_map_err source_reason
       (case evidence_kind s of
          EntryLink target \<Rightarrow> link_holds \<E> (evidence_path s) (evidence_print s) target
        | EntryFile \<Rightarrow>
            v_bind (read_unchanged \<E> (evidence_path s) (expect_recorded (evidence_print s)) no_sink) (\<lambda>digest.
              if Some digest = evidence_sha256 s then v_ret () else v_err CheckChanged))"

definition verify_kept :: "venv \<Rightarrow> kept_copy \<Rightarrow> ('s, reason_code, unit) vrun" where
  "verify_kept \<E> k =
     v_map_err (\<lambda>_. KeptCopyUnproven)
       (v_bind (read_unchanged \<E> (kept_path k) (expect_recorded (kept_print k)) no_sink) (\<lambda>digest.
          if digest = kept_sha256 k then v_ret () else v_err CheckChanged))"

end
