(* ===== verification/CustodyTransfer.thy ===== *)
theory CustodyTransfer
  imports Custody
begin

text \<open>
  Verified transfer (\<open>crates/platevault-core/src/custody/transfer.rs\<close>, the Unix side): a copy is written to
  a partial file beside its destination, proven by its SHA-256 and installed without replacing anything -
  by a rename, a link, or where the volume has neither by a verified copy - and what an interruption of
  such a move by copy leaves is found again and finished or put back.
\<close>

section \<open>Names\<close>

definition strip_prefix :: "string \<Rightarrow> string \<Rightarrow> string option" where
  "strip_prefix p s = (if take (length p) s = p then Some (drop (length p) s) else None)"

definition ends_with :: "string \<Rightarrow> string \<Rightarrow> bool" where
  "ends_with s e \<longleftrightarrow> length e \<le> length s \<and> drop (length s - length e) s = e"

definition is_hex :: "char \<Rightarrow> bool" where
  "is_hex c \<longleftrightarrow> c \<in> set ''0123456789abcdef''"

definition is_dec :: "char \<Rightarrow> bool" where
  "is_dec c \<longleftrightarrow> c \<in> set ''0123456789''"

definition ASIDE_PREFIX :: string where "ASIDE_PREFIX = ''.pv-''"

definition ASIDE_SUFFIX :: string where "ASIDE_SUFFIX = ''.removing''"

definition RESTORING_SUFFIX :: string where "RESTORING_SUFFIX = ''.restoring-''"

definition aside_name_of :: "string \<Rightarrow> string" where
  "aside_name_of uuid = ASIDE_PREFIX @ uuid @ ASIDE_SUFFIX"

definition restoring_name_of :: "string \<Rightarrow> nat \<Rightarrow> string" where
  "restoring_name_of uuid n = ASIDE_PREFIX @ uuid @ RESTORING_SUFFIX @ show_nat n"

definition aside_of :: "venv \<Rightarrow> vpath \<Rightarrow> ('s, 'e, vpath) vrun" where
  "aside_of \<E> p = v_bind (v_now (new_uuid \<E>)) (\<lambda>u. v_ret (fst p, aside_name_of u))"

definition restoring_of :: "venv \<Rightarrow> vpath \<Rightarrow> nat \<Rightarrow> ('s, 'e, vpath) vrun" where
  "restoring_of \<E> p n = v_bind (v_now (new_uuid \<E>)) (\<lambda>u. v_ret (fst p, restoring_name_of u n))"

datatype aside_name = Removing | Restoring nat

text \<open>\<open>str::parse::<u32>\<close> on decimal digits.\<close>

definition parse_u32 :: "string \<Rightarrow> nat option" where
  "parse_u32 s =
    (if s = [] \<or> \<not> list_all is_dec s then None
     else let n = foldl (\<lambda>n c. 10 * n + (of_char c - 48)) 0 s in if n < 2 ^ 32 then Some n else None)"

definition aside_kind :: "string \<Rightarrow> aside_name option" where
  "aside_kind kind =
    (if kind = ASIDE_SUFFIX then Some Removing
     else case strip_prefix RESTORING_SUFFIX kind of
       None \<Rightarrow> None
     | Some number \<Rightarrow>
         (if take 1 number = ''0'' \<or> \<not> list_all is_dec number then None
          else map_option Restoring (parse_u32 number)))"

definition aside_name :: "string \<Rightarrow> aside_name option" where
  "aside_name name =
    (case strip_prefix ASIDE_PREFIX name of
       None \<Rightarrow> None
     | Some rest \<Rightarrow>
         (if length rest < 32 \<or> \<not> list_all is_hex (take 32 rest) then None
          else aside_kind (drop 32 rest)))"

definition claimed_number :: "aside_name \<Rightarrow> nat option" where
  "claimed_number a = (case a of Removing \<Rightarrow> None | Restoring n \<Rightarrow> Some n)"

definition is_aside_name :: "string \<Rightarrow> bool" where
  "is_aside_name name \<longleftrightarrow> aside_name name \<noteq> None"

text \<open>\<open>kept_name\<close> of \<open>layout.rs\<close>: numbered before the extension, which a leading dot is not.\<close>

definition file_stem :: "string \<Rightarrow> string" where
  "file_stem name =
    (let stem = rev (drop 1 (dropWhile (\<lambda>c. c \<noteq> CHR ''.'') (rev name)))
     in if name = ''..'' \<or> CHR ''.'' \<notin> set name \<or> stem = [] then name else stem)"

definition extension :: "string \<Rightarrow> string option" where
  "extension name =
    (if file_stem name = name then None else Some (rev (takeWhile (\<lambda>c. c \<noteq> CHR ''.'') (rev name))))"

definition kept_name :: "string \<Rightarrow> nat \<Rightarrow> string" where
  "kept_name name n =
    (if n \<le> 1 then name
     else file_stem name @ ''-'' @ show_nat n @
       (case extension name of None \<Rightarrow> [] | Some e \<Rightarrow> ''.'' @ e))"

definition put_back_name :: "vpath \<Rightarrow> nat \<Rightarrow> vpath" where
  "put_back_name p n = (fst p, kept_name (snd p) n)"

section \<open>Comparing entries\<close>

definition holds_entry :: "venv \<Rightarrow> vpath \<Rightarrow> file_identity \<Rightarrow> ('s, 'e, bool) vrun" where
  "holds_entry \<E> p i =
     v_ok (v_bind (probe_fingerprint \<E> p) (\<lambda>observed. v_ret (same_identity (identity observed) i)))"

definition discard :: "venv \<Rightarrow> vpath \<Rightarrow> file_identity \<Rightarrow> ('s, 'e, unit) vrun" where
  "discard \<E> p i = v_bind (holds_entry \<E> p i) (\<lambda>b. if b then v_ignore (sys_remove_file \<E> p) else v_ret ())"

definition both_meta :: "(metadata \<Rightarrow> metadata \<Rightarrow> bool) \<Rightarrow> ('s, vio_error, metadata) vrun \<Rightarrow> ('s, vio_error, metadata) vrun \<Rightarrow> ('s, 'e, bool) vrun" where
  "both_meta f m n =
     v_bind (v_try m) (\<lambda>a. v_bind (v_try n) (\<lambda>b.
       v_ret (case a of Inl _ \<Rightarrow> False | Inr l \<Rightarrow> (case b of Inl _ \<Rightarrow> False | Inr r \<Rightarrow> f l r))))"

definition second_link :: "venv \<Rightarrow> vpath \<Rightarrow> vpath \<Rightarrow> ('s, 'e, bool) vrun" where
  "second_link \<E> p q =
     both_meta (\<lambda>l r. vkind (snd l) = VFile \<and> same_entry l r) (sys_lstat \<E> p) (sys_lstat \<E> q)"

text \<open>Whether a path names the file a handle holds right now.\<close>

definition names :: "venv \<Rightarrow> vpath \<Rightarrow> nat \<Rightarrow> ('s, 'e, bool) vrun" where
  "names \<E> p h = both_meta (\<lambda>named held. same_entry held named) (sys_lstat \<E> p) (sys_fstat \<E> h)"

text \<open>The bytes of two files are read and compared; a failing read says no.\<close>

definition starts_with :: "venv \<Rightarrow> nat \<Rightarrow> nat \<Rightarrow> nat \<Rightarrow> ('s, 'e, bool) vrun" where
  "starts_with \<E> whole prefix n =
     v_ok (v_bind (sys_read \<E> whole) (\<lambda>a. v_bind (sys_read \<E> prefix) (\<lambda>b.
       v_ret (n \<le> length a \<and> n \<le> length b \<and> take n a = take n b))))"

definition remove_unfinished_copy :: "venv \<Rightarrow> vpath \<Rightarrow> vpath \<Rightarrow> ('s, 'e, bool) vrun" where
  "remove_unfinished_copy \<E> candidate orig =
     v_bind (v_try (sys_open \<E> candidate)) (\<lambda>a. v_bind (v_try (sys_open \<E> orig)) (\<lambda>b.
       case (a, b) of
         (Inr held, Inr original) \<Rightarrow>
           v_bind (v_try (sys_fstat \<E> held)) (\<lambda>x. v_bind (v_try (sys_fstat \<E> original)) (\<lambda>y.
             case (x, y) of
               (Inr found, Inr whole) \<Rightarrow>
                 (let len = length (vdata (snd found)) in
                  if vkind (snd found) \<noteq> VFile \<or> vkind (snd whole) \<noteq> VFile \<or> length (vdata (snd whole)) < len
                     \<or> same_entry found whole then v_ret False
                  else v_bind (starts_with \<E> original held len) (\<lambda>ok. if \<not> ok then v_ret False else
                       v_bind (names \<E> candidate held) (\<lambda>ok. if \<not> ok then v_ret False else
                       v_ok (v_bind (sys_remove_file \<E> candidate) (\<lambda>_. v_ret True)))))
             | _ \<Rightarrow> v_ret False))
       | _ \<Rightarrow> v_ret False))"

section \<open>Writing\<close>

definition modified_time :: "int \<Rightarrow> int option" where
  "modified_time ns = (if \<bar>ns\<bar> < 2 ^ 64 then Some ns else None)"

definition settle_file :: "venv \<Rightarrow> nat \<Rightarrow> int \<Rightarrow> ('s, vio_error, unit) vrun" where
  "settle_file \<E> h ns =
     v_bind (case modified_time ns of None \<Rightarrow> v_ret () | Some t \<Rightarrow> sys_set_modified \<E> h t) (\<lambda>_. sys_sync \<E>)"

text \<open>Opening a folder and syncing it.\<close>

definition sync_folder :: "venv \<Rightarrow> ('s, vio_error, unit) vrun" where
  "sync_folder \<E> = v_bind (sys_sync \<E>) (\<lambda>_. sys_sync \<E>)"

definition carries :: "venv \<Rightarrow> string \<Rightarrow> bool" where
  "carries \<E> name =
    (if on_macos \<E>
     then strip_prefix ''com.apple.system.'' name = None \<and>
       name \<notin> {''com.apple.rootless'', ''com.apple.macl'', ''com.apple.root.installed'', ''com.apple.provenance''}
     else strip_prefix ''user.'' name \<noteq> None)"

fun carry_each :: "venv \<Rightarrow> nat \<Rightarrow> nat \<Rightarrow> string list \<Rightarrow> ('s, vio_error, unit) vrun" where
  "carry_each \<E> source copy [] = v_ret ()"
| "carry_each \<E> source copy (n # ns) =
     v_bind (sys_getxattr \<E> source n) (\<lambda>x.
     v_bind (sys_setxattr \<E> copy n x) (\<lambda>_. carry_each \<E> source copy ns))"

definition carry_xattrs :: "venv \<Rightarrow> nat \<Rightarrow> nat \<Rightarrow> ('s, vio_error, unit) vrun" where
  "carry_xattrs \<E> source copy =
     v_bind (v_try (sys_listxattr \<E> source)) (\<lambda>ns.
       case ns of
         Inl e \<Rightarrow> (if e = Unsupported then v_ret () else v_err e)
       | Inr ns \<Rightarrow> carry_each \<E> source copy (filter (carries \<E>) ns))"

text \<open>An error of another kind is reported as one of no kind.\<close>

definition other :: "('s, 'e, 'a) vrun \<Rightarrow> ('s, vio_error, 'a) vrun" where
  "other = v_map_err (\<lambda>_. OtherError)"

section \<open>A move by copy\<close>

definition fill_copy :: "venv \<Rightarrow> vpath \<Rightarrow> vpath \<Rightarrow> observation_fingerprint \<Rightarrow> nat \<Rightarrow> nat \<Rightarrow> ('s, vio_error, file_identity) vrun" where
  "fill_copy \<E> from dest f source out =
     v_bind (other (read_unchanged \<E> from (expect_recorded f) (sys_write \<E> out))) (\<lambda>digest.
     v_bind (carry_xattrs \<E> source out) (\<lambda>_.
     v_bind (other (settle_file \<E> out (modified_ns f))) (\<lambda>_.
     v_bind (sync_folder \<E>) (\<lambda>_.
     v_bind (other (probe_fingerprint \<E> dest)) (\<lambda>now.
     v_bind (other (read_unchanged \<E> dest
         \<lparr>expect_identity = identity now, expect_size = size_bytes f, expect_modified = None\<rparr> no_sink)) (\<lambda>reread.
     v_bind (if reread \<noteq> digest then v_ret False else names \<E> dest out) (\<lambda>same.
       if same then v_ret (identity now) else v_err OtherError)))))))"

definition drop_copy :: "venv \<Rightarrow> vpath \<Rightarrow> nat \<Rightarrow> ('s, 'e, unit) vrun" where
  "drop_copy \<E> dest out =
     v_bind (names \<E> dest out) (\<lambda>b. if b then v_ignore (sys_remove_file \<E> dest) else v_ret ())"

definition copy_onto_new :: "venv \<Rightarrow> vpath \<Rightarrow> vpath \<Rightarrow> ('s, vio_error, nat \<times> nat \<times> file_identity) vrun" where
  "copy_onto_new \<E> from dest =
     v_bind (other (probe_fingerprint \<E> from)) (\<lambda>f.
     v_bind (sys_open \<E> from) (\<lambda>source.
     v_bind (sys_create \<E> VFile dest) (\<lambda>out.
     v_bind (v_try (fill_copy \<E> from dest f source out)) (\<lambda>filled.
       case filled of
         Inr i \<Rightarrow> v_ret (source, out, i)
       | Inl e \<Rightarrow> v_bind (drop_copy \<E> dest out) (\<lambda>_. v_err e)))))"

datatype moved_how = MovedRenamed | MovedCopied file_identity

type_synonym 's mover = "vpath \<Rightarrow> vpath \<Rightarrow> ('s, vio_error, moved_how) vrun"

text \<open>
  The source of a verified copy goes: moved aside, compared and unlinked, or put back by another move.
\<close>

definition unlink_aside :: "venv \<Rightarrow> 's mover \<Rightarrow> vpath \<Rightarrow> vpath \<Rightarrow> vpath \<Rightarrow> nat \<times> nat \<times> file_identity \<Rightarrow> ('s, vio_error, file_identity) vrun" where
  "unlink_aside \<E> mv from dest aside = (\<lambda>(source, created, i).
     v_bind (names \<E> aside source) (\<lambda>same.
       if \<not> same then v_bind (other (mv aside from)) (\<lambda>_. v_ret i)
       else v_bind (v_try (sys_remove_file \<E> aside)) (\<lambda>removed.
         case removed of
           Inl e \<Rightarrow> v_bind (other (mv aside from)) (\<lambda>_. v_bind (drop_copy \<E> dest created) (\<lambda>_. v_err e))
         | Inr _ \<Rightarrow> v_bind (v_ignore (sync_folder \<E>)) (\<lambda>_. v_ret i))))"

definition remove_source :: "venv \<Rightarrow> 's mover \<Rightarrow> vpath \<Rightarrow> vpath \<Rightarrow> nat \<times> nat \<times> file_identity \<Rightarrow> ('s, vio_error, file_identity) vrun" where
  "remove_source \<E> mv from dest copied =
     v_bind (aside_of \<E> from) (\<lambda>aside.
     v_bind (v_try (sys_rename \<E> from aside)) (\<lambda>r.
       case r of
         Inr _ \<Rightarrow> unlink_aside \<E> mv from dest aside copied
       | Inl e \<Rightarrow>
           (if e = NotFound then v_ret (snd (snd copied))
            else v_bind (drop_copy \<E> dest (fst (snd copied))) (\<lambda>_. v_err e))))"

definition lacks_links :: "vio_error \<Rightarrow> bool" where
  "lacks_links e \<longleftrightarrow> e \<in> {Unsupported, NoSuchCall, NotPermitted}"

definition over_placeholder :: "venv \<Rightarrow> vpath \<Rightarrow> vpath \<Rightarrow> nat \<Rightarrow> ('s, vio_error, unit) vrun" where
  "over_placeholder \<E> from dest placeholder =
     v_bind (v_try (sys_rename \<E> from dest)) (\<lambda>r.
       case r of
         Inr _ \<Rightarrow> v_ret ()
       | Inl e \<Rightarrow>
           v_bind (v_ok (v_bind (sys_lstat \<E> dest) (\<lambda>m. v_bind (sys_read_dir \<E> (fst m)) (\<lambda>es. v_ret (es = []))))) (\<lambda>empty.
           v_bind (if empty then names \<E> dest placeholder else v_ret False) (\<lambda>ours.
           v_bind (if ours then v_ignore (sys_remove_dir \<E> dest) else v_ret ()) (\<lambda>_.
           v_err (if e \<in> {DirectoryNotEmpty, NotADirectory, AlreadyExists} then AlreadyExists else e)))))"

definition without_noreplace :: "venv \<Rightarrow> 's mover \<Rightarrow> 's mover" where
  "without_noreplace \<E> mv from dest =
     v_bind (sys_lstat \<E> from) (\<lambda>meta.
       if vkind (snd meta) = VFolder
       then v_bind (sys_create \<E> VFolder dest) (\<lambda>_.
            v_bind (sys_open \<E> dest) (\<lambda>placeholder.
            v_bind (over_placeholder \<E> from dest placeholder) (\<lambda>_. v_ret MovedRenamed)))
       else v_bind (v_try (sys_persist_noclobber \<E> from dest)) (\<lambda>r.
         case r of
           Inr _ \<Rightarrow> v_ret MovedRenamed
         | Inl e \<Rightarrow>
             (if vkind (snd meta) = VFile \<and> lacks_links e
              then v_bind (copy_onto_new \<E> from dest) (\<lambda>copied.
                   v_bind (remove_source \<E> mv from dest copied) (\<lambda>i. v_ret (MovedCopied i)))
              else v_err e)))"

text \<open>
  A move that cannot remove its source moves it back, by a move of the same kind: the calls nest, up to
  the stack the process has.
\<close>

fun move_noreplace :: "venv \<Rightarrow> nat \<Rightarrow> 's mover" where
  "move_noreplace \<E> 0 = (\<lambda>from dest. v_die)"
| "move_noreplace \<E> (Suc n) = (\<lambda>from dest.
     v_bind (v_try (sys_rename_noreplace \<E> from dest)) (\<lambda>r.
       case r of
         Inr _ \<Rightarrow> v_ret MovedRenamed
       | Inl e \<Rightarrow>
           (if e \<in> {InvalidArgument, Unsupported, NoSuchCall} then without_noreplace \<E> (move_noreplace \<E> n) from dest
            else v_err e)))"

definition rename_noreplace_entry :: "venv \<Rightarrow> nat \<Rightarrow> vpath \<Rightarrow> vpath \<Rightarrow> ('s, vio_error, unit) vrun" where
  "rename_noreplace_entry \<E> n from dest = v_bind (move_noreplace \<E> n from dest) (\<lambda>_. v_ret ())"

section \<open>What an interrupted move by copy left\<close>

text \<open>
  The hidden names beside an entry that are still the recorded source, each opened, with the number of
  the name a put-back had claimed.
\<close>

fun proven_among :: "venv \<Rightarrow> nat \<Rightarrow> entry_evidence \<Rightarrow> string list \<Rightarrow> ('s, 'e, (vpath \<times> nat \<times> nat option) list) vrun" where
  "proven_among \<E> folder s [] = v_ret []"
| "proven_among \<E> folder s (n # ns) =
     (case aside_name n of
        None \<Rightarrow> proven_among \<E> folder s ns
      | Some kind \<Rightarrow>
          v_bind (v_try (open_unchanged \<E> (folder, n) (expect_recorded (evidence_print s)))) (\<lambda>opened.
          v_bind (proven_among \<E> folder s ns) (\<lambda>rest.
            v_ret (case opened of Inl _ \<Rightarrow> rest | Inr (h, _) \<Rightarrow> ((folder, n), h, claimed_number kind) # rest))))"

definition proven_asides :: "venv \<Rightarrow> vpath \<Rightarrow> entry_evidence \<Rightarrow> ('s, 'e, (vpath \<times> nat \<times> nat option) list) vrun" where
  "proven_asides \<E> from s =
     v_bind (v_try (sys_read_dir \<E> (fst from))) (\<lambda>es.
       case es of Inl _ \<Rightarrow> v_ret [] | Inr ns \<Rightarrow> proven_among \<E> (fst from) s ns)"

definition copy_of :: "venv \<Rightarrow> vpath \<Rightarrow> nat \<Rightarrow> metadata \<Rightarrow> ('s, 'e, metadata option) vrun" where
  "copy_of \<E> copy held found =
     v_bind (v_try (v_bind (sys_open \<E> copy) (\<lambda>h. v_bind (sys_fstat \<E> h) (\<lambda>m. v_ret (h, m))))) (\<lambda>r.
       case r of
         Inl _ \<Rightarrow> v_ret None
       | Inr (h, whole) \<Rightarrow>
           (if vkind (snd whole) = VFile \<and> length (vdata (snd whole)) = length (vdata (snd found)) \<and> \<not> same_entry found whole
            then v_bind (starts_with \<E> h held (length (vdata (snd found)))) (\<lambda>ok. v_ret (if ok then Some whole else None))
            else v_ret None))"

definition remove_if_named :: "venv \<Rightarrow> vpath \<Rightarrow> nat \<Rightarrow> ('s, 'e, bool) vrun" where
  "remove_if_named \<E> p h =
     v_bind (names \<E> p h) (\<lambda>ok. if ok then v_ok (v_bind (sys_remove_file \<E> p) (\<lambda>_. v_ret True)) else v_ret False)"

definition drop_claimed :: "venv \<Rightarrow> vpath \<Rightarrow> vpath \<Rightarrow> vpath \<Rightarrow> nat option \<Rightarrow> ('s, 'e, unit) vrun" where
  "drop_claimed \<E> from copy aside claimed =
     (case claimed of
        None \<Rightarrow> v_ret ()
      | Some n \<Rightarrow>
          (let at = put_back_name from n in
           if at = copy then v_ret ()
           else v_bind (v_ok (v_bind (sys_lstat \<E> at) (\<lambda>_. v_ret True))) (\<lambda>there.
                if there then v_bind (remove_unfinished_copy \<E> at aside) (\<lambda>_. v_ret ()) else v_ret ())))"

fun remove_first_aside :: "venv \<Rightarrow> vpath \<Rightarrow> vpath \<Rightarrow> (vpath \<times> nat \<times> nat option) list \<Rightarrow> ('s, 'e, bool) vrun" where
  "remove_first_aside \<E> from copy [] = v_ret False"
| "remove_first_aside \<E> from copy ((aside, held, claimed) # rest) =
     v_bind (v_try (sys_fstat \<E> held)) (\<lambda>found.
       case found of
         Inl _ \<Rightarrow> remove_first_aside \<E> from copy rest
       | Inr m \<Rightarrow>
           v_bind (copy_of \<E> copy held m) (\<lambda>whole.
             if whole = None then remove_first_aside \<E> from copy rest
             else v_bind (drop_claimed \<E> from copy aside claimed) (\<lambda>_.
                  v_bind (remove_if_named \<E> aside held) (\<lambda>gone.
                    if gone then v_bind (v_ignore (sync_folder \<E>)) (\<lambda>_. v_ret True)
                    else remove_first_aside \<E> from copy rest))))"

definition remove_left_aside :: "venv \<Rightarrow> vpath \<Rightarrow> entry_evidence \<Rightarrow> vpath \<Rightarrow> ('s, 'e, bool) vrun" where
  "remove_left_aside \<E> from s copy =
     v_bind (proven_asides \<E> from s) (remove_first_aside \<E> from copy)"

definition remove_copied :: "venv \<Rightarrow> vpath \<Rightarrow> vpath \<Rightarrow> (metadata \<Rightarrow> metadata \<Rightarrow> bool) \<Rightarrow> ('s, 'e, bool) vrun" where
  "remove_copied \<E> aside copy also =
     v_bind (v_try (v_bind (sys_open \<E> aside) (\<lambda>h. v_bind (sys_fstat \<E> h) (\<lambda>m. v_ret (h, m))))) (\<lambda>r.
       case r of
         Inl _ \<Rightarrow> v_ret False
       | Inr (held, found) \<Rightarrow>
           (if vkind (snd found) \<noteq> VFile then v_ret False
            else v_bind (copy_of \<E> copy held found) (\<lambda>whole.
              case whole of
                None \<Rightarrow> v_ret False
              | Some w \<Rightarrow> (if also found w then remove_if_named \<E> aside held else v_ret False))))"

definition remove_aside_of_copy :: "venv \<Rightarrow> vpath \<Rightarrow> vpath \<Rightarrow> ('s, 'e, bool) vrun" where
  "remove_aside_of_copy \<E> aside copy =
     (if is_aside_name (snd aside)
      then remove_copied \<E> aside copy (\<lambda>found whole. vtime (snd whole) = vtime (snd found))
      else v_ret False)"

definition U32_MAX :: nat where "U32_MAX = 4294967295"

text \<open>What the loop does where the name it tries is taken: an end, a retry of the name, or the next one.\<close>

definition put_back_taken :: "venv \<Rightarrow> vpath \<Rightarrow> vpath \<Rightarrow> bool \<Rightarrow> ('s, vio_error, bool option) vrun" where
  "put_back_taken \<E> aside at ours =
     v_bind (if ours then second_link \<E> aside at else v_ret False) (\<lambda>linked.
       if linked then v_bind (sys_remove_file \<E> aside) (\<lambda>_. v_bind (v_ignore (sync_folder \<E>)) (\<lambda>_. v_ret (Some True)))
       else v_bind (remove_copied \<E> aside at (\<lambda>_ _. True)) (\<lambda>removed.
         if removed then v_bind (v_ignore (sync_folder \<E>)) (\<lambda>_. v_ret (Some True))
         else v_bind (if ours then remove_unfinished_copy \<E> at aside else v_ret False) (\<lambda>again.
           v_ret (if again then Some False else None))))"

definition claim_name :: "venv \<Rightarrow> vpath \<Rightarrow> vpath \<Rightarrow> nat option \<Rightarrow> nat \<Rightarrow> ('s, vio_error, vpath) vrun" where
  "claim_name \<E> from aside claimed n =
     (if claimed = Some n then v_ret aside
      else v_bind (restoring_of \<E> from n) (\<lambda>claim. v_bind (sys_rename \<E> aside claim) (\<lambda>_. v_ret claim)))"

definition next_number :: "nat \<Rightarrow> ('s, vio_error, nat) vrun" where
  "next_number n = (if n = U32_MAX then v_err AlreadyExists else v_ret (Suc n))"

fun restore_loop :: "venv \<Rightarrow> 's mover \<Rightarrow> nat \<Rightarrow> vpath \<Rightarrow> vpath \<Rightarrow> nat option \<Rightarrow> nat \<Rightarrow> ('s, vio_error, vpath) vrun" where
  "restore_loop \<E> mv 0 from aside claimed n = v_die"
| "restore_loop \<E> mv (Suc rounds) from aside claimed n =
     (let at = put_back_name from n in
      v_bind (v_try (sys_lstat \<E> at)) (\<lambda>there.
        case there of
          Inl e \<Rightarrow>
            (if e \<noteq> NotFound then v_err e
             else v_bind (claim_name \<E> from aside claimed n) (\<lambda>claim.
                  v_bind (v_try (mv claim at)) (\<lambda>put.
                    case put of
                      Inr _ \<Rightarrow> v_ret at
                    | Inl e \<Rightarrow>
                        (if e \<noteq> AlreadyExists then v_err e
                         else v_bind (next_number n) (\<lambda>m. restore_loop \<E> mv rounds from claim (Some n) m)))))
        | Inr _ \<Rightarrow>
            v_bind (put_back_taken \<E> aside at (claimed = Some n)) (\<lambda>taken.
              case taken of
                Some True \<Rightarrow> v_ret at
              | Some False \<Rightarrow> restore_loop \<E> mv rounds from aside claimed n
              | None \<Rightarrow> v_bind (next_number n) (\<lambda>m. restore_loop \<E> mv rounds from aside claimed m))))"

definition restore_left_aside_with :: "venv \<Rightarrow> 's mover \<Rightarrow> nat \<Rightarrow> vpath \<Rightarrow> entry_evidence \<Rightarrow> ('s, vio_error, vpath option) vrun" where
  "restore_left_aside_with \<E> mv rounds from s =
     v_bind (proven_asides \<E> from s) (\<lambda>found.
       case found of
         [] \<Rightarrow> v_ret None
       | (aside, _, claimed) # _ \<Rightarrow>
           v_bind (restore_loop \<E> mv rounds from aside claimed (case claimed of None \<Rightarrow> 1 | Some n \<Rightarrow> n)) (\<lambda>at. v_ret (Some at)))"

definition restore_left_aside :: "venv \<Rightarrow> nat \<Rightarrow> nat \<Rightarrow> vpath \<Rightarrow> entry_evidence \<Rightarrow> ('s, vio_error, vpath option) vrun" where
  "restore_left_aside \<E> stack rounds = restore_left_aside_with \<E> (move_noreplace \<E> stack) rounds"

section \<open>A verified transfer\<close>

record written_copy =
  partial :: vpath
  copy_identity :: file_identity

definition vacant :: "venv \<Rightarrow> vpath \<Rightarrow> ('s, reason_code, unit) vrun" where
  "vacant \<E> p =
     v_bind (v_try (sys_lstat \<E> p)) (\<lambda>r.
       case r of
         Inr _ \<Rightarrow> v_err DestinationOccupied
       | Inl e \<Rightarrow> (if e = NotFound then v_ret () else v_err WriteFailed))"

definition partial_name :: "string \<Rightarrow> nat \<Rightarrow> string \<Rightarrow> string" where
  "partial_name op seq rnd = ''.pv-'' @ op @ ''-'' @ show_nat seq @ ''-'' @ rnd @ ''.partial''"

definition write_failed :: "('s, 'e, 'a) vrun \<Rightarrow> ('s, reason_code, 'a) vrun" where
  "write_failed = v_map_err (\<lambda>_. WriteFailed)"

text \<open>The folders of the destination are made first, by calls of their own.\<close>

definition begin_transfer :: "venv \<Rightarrow> string \<Rightarrow> nat \<Rightarrow> vpath \<Rightarrow> ('s, reason_code, written_copy) vrun" where
  "begin_transfer \<E> op seq dest =
     v_bind (v_now (folder_ready \<E>)) (\<lambda>ready.
       if \<not> ready then v_err WriteFailed else
     v_bind (vacant \<E> dest) (\<lambda>_.
     v_bind (v_now (new_uuid \<E>)) (\<lambda>rnd.
     v_bind (write_failed (sys_create \<E> VFile (fst dest, partial_name op seq rnd))) (\<lambda>_.
     v_bind (write_failed (probe_fingerprint \<E> (fst dest, partial_name op seq rnd))) (\<lambda>f.
     v_ret \<lparr>partial = (fst dest, partial_name op seq rnd), copy_identity = identity f\<rparr>)))))"

text \<open>An open for writing follows a link, whose target is another entry than the link inspected.\<close>

definition open_partial :: "venv \<Rightarrow> vpath \<Rightarrow> file_identity \<Rightarrow> ('s, reason_code, nat) vrun" where
  "open_partial \<E> p i =
     v_bind (write_failed (sys_lstat \<E> p)) (\<lambda>inspected.
       if is_link inspected then v_bind (write_failed (sys_sync \<E>)) (\<lambda>_. v_err DestinationChanged) else
     v_bind (write_failed (sys_open \<E> p)) (\<lambda>out.
     v_bind (handle_is \<E> out inspected i) (\<lambda>same.
       if same then v_ret out else v_err DestinationChanged)))"

definition fill_partial :: "venv \<Rightarrow> written_copy \<Rightarrow> int \<Rightarrow> (nat \<Rightarrow> ('s, reason_code, 'a) vrun) \<Rightarrow> ('s, reason_code, 'a) vrun" where
  "fill_partial \<E> w ns fill =
     v_bind (v_try (
       v_bind (open_partial \<E> (partial w) (copy_identity w)) (\<lambda>out.
       v_bind (write_failed (sys_truncate \<E> out)) (\<lambda>_.
       v_bind (fill out) (\<lambda>value.
       v_bind (write_failed (settle_file \<E> out ns)) (\<lambda>_. v_ret value)))))) (\<lambda>filled.
     case filled of
       Inr value \<Rightarrow> v_ret value
     | Inl e \<Rightarrow> v_bind (discard \<E> (partial w) (copy_identity w)) (\<lambda>_. v_err e))"

definition fill_from_source :: "venv \<Rightarrow> entry_evidence \<Rightarrow> written_copy \<Rightarrow> ('s, reason_code, unit) vrun" where
  "fill_from_source \<E> s w =
     fill_partial \<E> w (modified_ns (evidence_print s)) (\<lambda>out.
       v_bind (v_map_err source_reason
           (read_unchanged \<E> (evidence_path s) (expect_recorded (evidence_print s)) (sys_write \<E> out))) (\<lambda>digest.
         if Some digest = evidence_sha256 s then v_ret () else v_err SourceDrift))"

definition install_failed :: "vio_error \<Rightarrow> reason_code" where
  "install_failed e = (if e = AlreadyExists then DestinationOccupied else WriteFailed)"

definition install_partial :: "venv \<Rightarrow> nat \<Rightarrow> vpath \<Rightarrow> written_copy \<Rightarrow> ('s, reason_code, written_copy) vrun" where
  "install_partial \<E> stack dest w =
     v_bind (v_try (move_noreplace \<E> stack (partial w) dest)) (\<lambda>first.
     v_bind (if first = Inl AlreadyExists then remove_unfinished_copy \<E> dest (partial w) else v_ret False) (\<lambda>again.
     v_bind (if again then v_try (move_noreplace \<E> stack (partial w) dest) else v_ret first) (\<lambda>moved.
       case moved of
         Inl e \<Rightarrow> v_bind (discard \<E> (partial w) (copy_identity w)) (\<lambda>_. v_err (install_failed e))
       | Inr how \<Rightarrow>
           v_bind (discard \<E> (partial w) (copy_identity w)) (\<lambda>_.
           v_bind (write_failed (sync_folder \<E>)) (\<lambda>_.
           v_ret (case how of MovedRenamed \<Rightarrow> w | MovedCopied i \<Rightarrow> w\<lparr>copy_identity := i\<rparr>))))))"

definition write_transfer :: "venv \<Rightarrow> nat \<Rightarrow> entry_evidence \<Rightarrow> vpath \<Rightarrow> written_copy \<Rightarrow> ('s, reason_code, written_copy) vrun" where
  "write_transfer \<E> stack s dest w =
     v_bind (holds_entry \<E> (partial w) (copy_identity w)) (\<lambda>ours.
       if \<not> ours
       then v_bind (holds_entry \<E> dest (copy_identity w)) (\<lambda>installed.
              if installed then v_ret w else v_err DestinationChanged)
       else v_bind (second_link \<E> (partial w) dest) (\<lambda>linked.
         if linked then v_bind (discard \<E> (partial w) (copy_identity w)) (\<lambda>_. v_ret w)
         else v_bind (fill_from_source \<E> s w) (\<lambda>_. install_partial \<E> stack dest w)))"

definition verify_failed :: "check \<Rightarrow> reason_code" where
  "verify_failed c = (case c of CheckChanged \<Rightarrow> DestinationChanged | CheckUnavailable \<Rightarrow> DestinationMismatch)"

definition verify_bytes :: "venv \<Rightarrow> vpath \<Rightarrow> written_copy \<Rightarrow> nat \<Rightarrow> string option \<Rightarrow> ('s, reason_code, unit) vrun" where
  "verify_bytes \<E> dest w len sha =
     v_bind (holds_entry \<E> dest (copy_identity w)) (\<lambda>ours.
       if \<not> ours then v_err DestinationChanged
       else v_bind (v_map_err verify_failed
           (read_unchanged \<E> dest \<lparr>expect_identity = copy_identity w, expect_size = len, expect_modified = None\<rparr> no_sink)) (\<lambda>digest.
         if Some digest = sha then v_ret () else v_err DestinationMismatch))"

definition verify_transfer :: "venv \<Rightarrow> entry_evidence \<Rightarrow> vpath \<Rightarrow> written_copy \<Rightarrow> ('s, reason_code, unit) vrun" where
  "verify_transfer \<E> s dest w = verify_bytes \<E> dest w (size_bytes (evidence_print s)) (evidence_sha256 s)"

end
