(* ===== verification/Storage.thy ===== *)
theory Storage
  imports CustodyTransfer
begin

text \<open>
  A storage operation: reviewed items that are copied, moved or trashed one durable step at a time
  (\<open>custody/journal.rs\<close> and the retirement of \<open>custody/trash.rs\<close> in \<open>platevault-core\<close>, the journal of
  \<open>persistence/library/src/storage.rs\<close>, the types of \<open>platevault-model/src/storage.rs\<close>). The rows of the
  operation extend the volume, so a step changes both; a write of the catalog is one call and fails or
  commits as a whole.
\<close>

section \<open>Items and operations\<close>

datatype item_phase = ItemPending | ItemWriting | ItemInstalled | ItemVerified | ItemRetiring | ItemSettled

datatype entry_outcome = Trashed | Copied | Moved | SourceKept | ItemBlocked | ItemUncertain

datatype storage_kind = CopyItems | MoveItems | TrashItems

datatype storage_state = StorageReviewed | StorageRunning | StorageSettled

record storage_item =
  item_seq :: nat
  item_source :: entry_evidence
  relied_on :: "kept_copy list"
  item_destination :: "vpath option"
  item_written :: "written_copy option"
  item_phase :: item_phase
  item_outcome :: "entry_outcome option"
  item_reason :: "reason_code option"
  item_revision :: nat

record item_change =
  change_phase :: item_phase
  change_outcome :: "entry_outcome option"
  change_reason :: "reason_code option"
  change_written :: "written_copy option"

record storage = volume +
  storage_name :: string
  storage_kind :: storage_kind
  storage_state :: storage_state
  storage_items :: "storage_item list"

datatype storage_error =
    CatalogFailed
  | ChangeRefused
  | StateRefused
  | CannotAdvance
  | NoDestination
  | NoWrittenCopy

section \<open>The catalog\<close>

definition phase_fits :: "storage_kind \<Rightarrow> item_phase \<Rightarrow> bool" where
  "phase_fits k p =
    (case k of
       TrashItems \<Rightarrow> p \<in> {ItemPending, ItemRetiring, ItemSettled}
     | CopyItems \<Rightarrow> p \<noteq> ItemRetiring
     | MoveItems \<Rightarrow> True)"

definition item_outcome_fits :: "storage_kind \<Rightarrow> entry_outcome \<Rightarrow> bool" where
  "item_outcome_fits k r =
    (case r of
       Trashed \<Rightarrow> k = TrashItems
     | Copied \<Rightarrow> k = CopyItems
     | Moved \<Rightarrow> k = MoveItems
     | SourceKept \<Rightarrow> k = MoveItems
     | ItemBlocked \<Rightarrow> True
     | ItemUncertain \<Rightarrow> True)"

datatype change_error =
    PhaseForeign | OutcomeMissing | OutcomeForeign | OutcomeEarly | ReasonUnfit | CopyMissing | CopyForeign

definition outcome_checked :: "storage_kind \<Rightarrow> item_change \<Rightarrow> change_error + unit" where
  "outcome_checked k c =
    (if change_phase c = ItemSettled
     then (case change_outcome c of
             None \<Rightarrow> Inl OutcomeMissing
           | Some r \<Rightarrow> refuse_if (\<not> item_outcome_fits k r) OutcomeForeign)
     else refuse_if (change_outcome c \<noteq> None) OutcomeEarly)"

definition validate_change :: "storage_kind \<Rightarrow> item_change \<Rightarrow> change_error + unit" where
  "validate_change k c =
     and_then (refuse_if (\<not> phase_fits k (change_phase c)) PhaseForeign) (\<lambda>_.
     and_then (outcome_checked k c) (\<lambda>_.
     and_then (refuse_if ((change_outcome c \<in> {Some ItemBlocked, Some ItemUncertain, Some SourceKept}) \<noteq> (change_reason c \<noteq> None)) ReasonUnfit) (\<lambda>_.
     and_then (refuse_if ((change_phase c \<in> {ItemWriting, ItemInstalled, ItemVerified} \<or> k = MoveItems \<and> change_phase c = ItemRetiring)
         \<and> change_written c = None) CopyMissing) (\<lambda>_.
     refuse_if (k = TrashItems \<and> change_written c \<noteq> None) CopyForeign))))"

definition find_item :: "nat \<Rightarrow> storage_item list \<Rightarrow> storage_item option" where
  "find_item n = find (\<lambda>i. item_seq i = n)"

definition apply_change :: "item_change \<Rightarrow> storage_item \<Rightarrow> storage_item" where
  "apply_change c i =
     i\<lparr>item_phase := change_phase c, item_outcome := change_outcome c, item_reason := change_reason c,
       item_written := change_written c, item_revision := Suc (item_revision i)\<rparr>"

definition update_item :: "nat \<Rightarrow> item_change \<Rightarrow> storage \<Rightarrow> storage" where
  "update_item n c v =
     v\<lparr>storage_items := map (\<lambda>i. if item_seq i = n then apply_change c i else i) (storage_items v)\<rparr>"

text \<open>A stale revision, a settled item and a change that does not fit are refused.\<close>

definition advance_storage_item ::
  "venv \<Rightarrow> nat \<Rightarrow> nat \<Rightarrow> item_change \<Rightarrow> storage \<Rightarrow> (storage_error, storage_item) reply \<times> storage" where
  "advance_storage_item \<E> n expected c =
     v_bind (v_map_err (\<lambda>_. CatalogFailed) (call \<E> (\<lambda>v.
       Inr (case find_item n (storage_items v) of
              None \<Rightarrow> (None, v)
            | Some i \<Rightarrow>
                (if validate_change (storage_kind v) c \<noteq> Inr () \<or> storage_state v \<noteq> StorageRunning \<or>
                    item_outcome i \<noteq> None \<or> item_revision i \<noteq> expected
                 then (None, v) else (Some (apply_change c i), update_item n c v)))))) (\<lambda>r.
     case r of None \<Rightarrow> v_err ChangeRefused | Some i \<Rightarrow> v_ret i)"

text \<open>A transaction refuses or commits.\<close>

definition catalog_call :: "venv \<Rightarrow> (storage \<Rightarrow> storage_error + storage) \<Rightarrow> storage \<Rightarrow> (storage_error, unit) reply \<times> storage" where
  "catalog_call \<E> f =
     v_bind (v_map_err (\<lambda>_. CatalogFailed) (call \<E> (\<lambda>v.
       Inr (case f v of Inl e \<Rightarrow> (Some e, v) | Inr w \<Rightarrow> (None, w))))) (\<lambda>r.
     case r of None \<Rightarrow> v_ret () | Some e \<Rightarrow> v_err e)"

definition start_storage_operation :: "storage \<Rightarrow> storage_error + storage" where
  "start_storage_operation v =
    (case storage_state v of
       StorageRunning \<Rightarrow> Inr v
     | StorageReviewed \<Rightarrow> Inr (v\<lparr>storage_state := StorageRunning\<rparr>)
     | StorageSettled \<Rightarrow> Inl StateRefused)"

definition settle_storage_operation :: "storage \<Rightarrow> storage_error + storage" where
  "settle_storage_operation v =
    (case storage_state v of
       StorageSettled \<Rightarrow> Inr v
     | StorageReviewed \<Rightarrow> Inl StateRefused
     | StorageRunning \<Rightarrow>
         (if list_ex (\<lambda>i. item_outcome i = None) (storage_items v) then Inl StateRefused
          else Inr (v\<lparr>storage_state := StorageSettled\<rparr>)))"

section \<open>Retiring an entry\<close>

datatype retirement =
    RetirementMoved
  | RetirementUnsupported reason_code
  | RetirementBlocked reason_code
  | RetirementUncertain reason_code

definition entry_gone :: "venv \<Rightarrow> vpath \<Rightarrow> ('s, 'e, bool) vrun" where
  "entry_gone \<E> p = v_bind (v_try (sys_lstat \<E> p)) (\<lambda>r. v_ret (r = Inl NotFound))"

definition after_trashing :: "venv \<Rightarrow> entry_evidence \<Rightarrow> bool \<Rightarrow> bool \<Rightarrow> ('s, 'e, retirement) vrun" where
  "after_trashing \<E> s refused gone =
     (if \<not> refused \<and> gone then v_ret RetirementMoved
      else v_bind (if gone then v_ret False else in_place \<E> s) (\<lambda>there.
        v_ret (if there then RetirementBlocked ReasonTrashFailed else RetirementUncertain ReasonTrashFailed)))"

fun verify_all_kept :: "venv \<Rightarrow> kept_copy list \<Rightarrow> ('s, reason_code, unit) vrun" where
  "verify_all_kept \<E> [] = v_ret ()"
| "verify_all_kept \<E> (k # ks) = v_bind (verify_kept \<E> k) (\<lambda>_. verify_all_kept \<E> ks)"

definition retire_entry ::
  "venv \<Rightarrow> entry_evidence \<Rightarrow> kept_copy list \<Rightarrow> ('s, reason_code, unit) vrun \<Rightarrow> ('s, 'e, retirement) vrun" where
  "retire_entry \<E> s kept before_move =
     (if \<not> trash_supports \<E> (evidence_path s) (size_bytes (evidence_print s))
      then v_ret (RetirementUnsupported ReasonTrashUnsupported)
      else v_bind (v_try (v_bind before_move (\<lambda>_. v_bind (verify_all_kept \<E> kept) (\<lambda>_. verify_source \<E> s)))) (\<lambda>ok.
        case ok of
          Inl reason \<Rightarrow> v_ret (RetirementBlocked reason)
        | Inr _ \<Rightarrow>
            v_bind (v_try (sys_move_to_trash \<E> (evidence_path s))) (\<lambda>refused.
            v_bind (entry_gone \<E> (evidence_path s)) (\<lambda>gone.
            after_trashing \<E> s (refused \<noteq> Inr ()) gone))))"

section \<open>Steps\<close>

type_synonym 'a storage_run = "storage \<Rightarrow> (storage_error, 'a) reply \<times> storage"

definition to_phase :: "storage_item \<Rightarrow> item_phase \<Rightarrow> item_change" where
  "to_phase i p = \<lparr>change_phase = p, change_outcome = None, change_reason = None, change_written = item_written i\<rparr>"

definition settled_as :: "storage_item \<Rightarrow> entry_outcome \<Rightarrow> reason_code option \<Rightarrow> item_change" where
  "settled_as i r why = \<lparr>change_phase = ItemSettled, change_outcome = Some r, change_reason = why, change_written = item_written i\<rparr>"

definition interrupted_change :: "storage_item \<Rightarrow> item_change" where
  "interrupted_change i = settled_as i ItemUncertain (Some ReasonInterrupted)"

definition record_change :: "venv \<Rightarrow> storage_item \<Rightarrow> item_change \<Rightarrow> storage_item storage_run" where
  "record_change \<E> i c = advance_storage_item \<E> (item_seq i) (item_revision i) c"

definition the_destination :: "storage_item \<Rightarrow> vpath storage_run" where
  "the_destination i = (case item_destination i of None \<Rightarrow> v_err NoDestination | Some d \<Rightarrow> v_ret d)"

definition the_written :: "storage_item \<Rightarrow> written_copy storage_run" where
  "the_written i = (case item_written i of None \<Rightarrow> v_err NoWrittenCopy | Some w \<Rightarrow> v_ret w)"

definition retired_change :: "storage_kind \<Rightarrow> storage_item \<Rightarrow> retirement \<Rightarrow> item_change" where
  "retired_change k i r =
    (case r of
       RetirementMoved \<Rightarrow> settled_as i (if k = MoveItems then Moved else Trashed) None
     | RetirementUnsupported reason \<Rightarrow> settled_as i (if k = MoveItems then SourceKept else ItemBlocked) (Some reason)
     | RetirementBlocked reason \<Rightarrow> settled_as i ItemBlocked (Some reason)
     | RetirementUncertain reason \<Rightarrow> settled_as i ItemUncertain (Some reason))"

text \<open>A Move verifies its destination before its source goes.\<close>

definition before_move :: "venv \<Rightarrow> storage_item \<Rightarrow> vpath option \<Rightarrow> written_copy option \<Rightarrow> ('s, reason_code, unit) vrun" where
  "before_move \<E> i d w =
    (case (d, w) of
       (Some dest, Some copy) \<Rightarrow> verify_transfer \<E> (item_source i) dest copy
     | _ \<Rightarrow> v_ret ())"

definition retire_target :: "venv \<Rightarrow> storage_kind \<Rightarrow> storage_item \<Rightarrow> vpath option \<Rightarrow> written_copy option \<Rightarrow> (item_change \<times> storage_item) storage_run" where
  "retire_target \<E> k i d w =
     v_bind (retire_entry \<E> (item_source i) (relied_on i) (before_move \<E> i d w)) (\<lambda>r.
     v_ret (retired_change k i r, i))"

definition retire_item :: "venv \<Rightarrow> storage_kind \<Rightarrow> storage_item \<Rightarrow> (item_change \<times> storage_item) storage_run" where
  "retire_item \<E> k i =
     (if k = MoveItems
      then v_bind (the_destination i) (\<lambda>dest. v_bind (the_written i) (\<lambda>w. retire_target \<E> k i (Some dest) (Some w)))
      else retire_target \<E> k i None None)"

definition begin_item :: "venv \<Rightarrow> string \<Rightarrow> storage_item \<Rightarrow> (item_change \<times> storage_item) storage_run" where
  "begin_item \<E> op i =
     v_bind (the_destination i) (\<lambda>dest.
     v_bind (v_try (begin_transfer \<E> op (item_seq i) dest)) (\<lambda>begun.
     v_ret (case begun of
        Inr w \<Rightarrow> ((to_phase i ItemWriting)\<lparr>change_written := Some w\<rparr>, i)
      | Inl reason \<Rightarrow> (settled_as i ItemBlocked (Some reason), i))))"

definition write_item :: "venv \<Rightarrow> nat \<Rightarrow> storage_item \<Rightarrow> (item_change \<times> storage_item) storage_run" where
  "write_item \<E> stack i =
     v_bind (the_destination i) (\<lambda>dest. v_bind (the_written i) (\<lambda>w.
     v_bind (v_try (write_transfer \<E> stack (item_source i) dest w)) (\<lambda>installed.
     v_ret (case installed of
        Inr c \<Rightarrow> ((to_phase i ItemInstalled)\<lparr>change_written := Some c\<rparr>, i)
      | Inl reason \<Rightarrow> (settled_as i ItemBlocked (Some reason), i)))))"

definition verify_item :: "venv \<Rightarrow> storage_kind \<Rightarrow> storage_item \<Rightarrow> (item_change \<times> storage_item) storage_run" where
  "verify_item \<E> k i =
     v_bind (the_destination i) (\<lambda>dest. v_bind (the_written i) (\<lambda>w.
     v_bind (v_try (verify_transfer \<E> (item_source i) dest w)) (\<lambda>verified.
     v_ret (case verified of
        Inr _ \<Rightarrow> (if k = CopyItems then settled_as i Copied None else to_phase i ItemVerified, i)
      | Inl reason \<Rightarrow> (settled_as i ItemBlocked (Some reason), i)))))"

text \<open>The next change of an item, and the item as it is recorded by then.\<close>

definition next_change :: "venv \<Rightarrow> nat \<Rightarrow> string \<Rightarrow> storage_kind \<Rightarrow> storage_item \<Rightarrow> (item_change \<times> storage_item) storage_run" where
  "next_change \<E> stack op k i =
     (let transfers = (k = CopyItems \<or> k = MoveItems) in
      if k = TrashItems \<and> item_phase i = ItemPending \<or> k = MoveItems \<and> item_phase i = ItemVerified
      then v_bind (record_change \<E> i (to_phase i ItemRetiring)) (retire_item \<E> k)
      else if (k = TrashItems \<or> k = MoveItems) \<and> item_phase i = ItemRetiring
      then v_bind (in_place \<E> (item_source i)) (\<lambda>there.
             if there then retire_item \<E> k i else v_ret (interrupted_change i, i))
      else if transfers \<and> item_phase i = ItemPending then begin_item \<E> op i
      else if transfers \<and> item_phase i = ItemWriting then write_item \<E> stack i
      else if transfers \<and> item_phase i = ItemInstalled then verify_item \<E> k i
      else v_err CannotAdvance)"

definition advance_item :: "venv \<Rightarrow> nat \<Rightarrow> string \<Rightarrow> storage_kind \<Rightarrow> storage_item \<Rightarrow> unit storage_run" where
  "advance_item \<E> stack op k i =
     v_bind (next_change \<E> stack op k i) (\<lambda>(c, current). v_bind (record_change \<E> current c) (\<lambda>_. v_ret ()))"

text \<open>\<open>step\<close>: start a reviewed operation, advance its first open item, and settle it once none is open.\<close>

definition v_get :: "(storage \<Rightarrow> 'a) \<Rightarrow> 'a storage_run" where
  "v_get f v = (Value (f v), v)"

definition catalog_read :: "venv \<Rightarrow> (storage \<Rightarrow> 'a) \<Rightarrow> 'a storage_run" where
  "catalog_read \<E> f = v_map_err (\<lambda>_. CatalogFailed) (call \<E> (\<lambda>v. Inr (f v, v)))"

definition start_reviewed :: "venv \<Rightarrow> unit storage_run" where
  "start_reviewed \<E> =
     v_bind (v_get storage_state) (\<lambda>s.
       if s = StorageReviewed then catalog_call \<E> start_storage_operation else v_ret ())"

definition advance_first :: "venv \<Rightarrow> nat \<Rightarrow> unit storage_run" where
  "advance_first \<E> stack =
     v_bind (v_get (\<lambda>v. (storage_name v, storage_kind v, find (\<lambda>i. item_outcome i = None) (storage_items v)))) (\<lambda>(op, k, open_item).
       case open_item of
         None \<Rightarrow> v_ret ()
       | Some i \<Rightarrow> v_bind (advance_item \<E> stack op k i) (\<lambda>_. catalog_read \<E> (\<lambda>_. ())))"

definition settle_done :: "venv \<Rightarrow> unit storage_run" where
  "settle_done \<E> =
     v_bind (v_get (\<lambda>v. list_all (\<lambda>i. item_outcome i \<noteq> None) (storage_items v))) (\<lambda>finished.
       if finished then catalog_call \<E> settle_storage_operation else v_ret ())"

definition storage_step :: "venv \<Rightarrow> nat \<Rightarrow> unit storage_run" where
  "storage_step \<E> stack =
     v_bind (catalog_read \<E> storage_state) (\<lambda>s.
       if s = StorageSettled then v_ret ()
       else v_bind (start_reviewed \<E>) (\<lambda>_. v_bind (advance_first \<E> stack) (\<lambda>_. settle_done \<E>)))"

text \<open>\<open>run_storage_operation\<close>: steps until the operation is settled, up to a number of rounds.\<close>

fun run_storage_operation :: "venv \<Rightarrow> nat \<Rightarrow> nat \<Rightarrow> unit storage_run" where
  "run_storage_operation \<E> stack 0 = v_die"
| "run_storage_operation \<E> stack (Suc n) =
     v_bind (storage_step \<E> stack) (\<lambda>_.
     v_bind (v_get storage_state) (\<lambda>s. if s = StorageSettled then v_ret () else run_storage_operation \<E> stack n))"

end
