(* ===== verification/VolumeLaws.thy ===== *)
theory VolumeLaws
  imports Storage
begin

text \<open>
  Reasoning about the custody code: weakest preconditions with a postcondition for a failure and one for
  the end of the process, runs that only read, and what a run leaves alone.
\<close>

declare split_paired_All [simp del] split_paired_Ex [simp del]

section \<open>Weakest preconditions\<close>

definition wpv ::
  "('s, 'e, 'a) vrun \<Rightarrow> ('a \<Rightarrow> 's volume_scheme \<Rightarrow> bool) \<Rightarrow> ('e \<Rightarrow> 's volume_scheme \<Rightarrow> bool) \<Rightarrow> ('s volume_scheme \<Rightarrow> bool) \<Rightarrow> 's volume_scheme \<Rightarrow> bool" where
  "wpv m Q F K v \<longleftrightarrow> (case m v of (Value a, v') \<Rightarrow> Q a v' | (Failed e, v') \<Rightarrow> F e v' | (Killed, v') \<Rightarrow> K v')"

lemma wpv_ret [simp]: "wpv (v_ret a) Q F K = Q a"
  by (rule ext) (simp add: wpv_def v_ret_def)

lemma wpv_err [simp]: "wpv (v_err e) Q F K = F e"
  by (rule ext) (simp add: wpv_def v_err_def)

lemma wpv_die [simp]: "wpv v_die Q F K = K"
  by (rule ext) (simp add: wpv_def v_die_def)

lemma wpv_bind [simp]: "wpv (v_bind m f) Q F K = wpv m (\<lambda>a. wpv (f a) Q F K) F K"
  by (rule ext) (simp add: wpv_def v_bind_def split: prod.split reply.split)

lemma wpv_try [simp]: "wpv (v_try m) Q F K = wpv m (\<lambda>a. Q (Inr a)) (\<lambda>e. Q (Inl e)) K"
  by (rule ext) (simp add: wpv_def v_try_def split: prod.split reply.split)

lemma wpv_map_err [simp]: "wpv (v_map_err h m) Q F K = wpv m Q (\<lambda>e. F (h e)) K"
  by (rule ext) (simp add: wpv_def v_map_err_def split: prod.split reply.split)

lemma wpv_ok [simp]: "wpv (v_ok m) Q F K = wpv m Q (\<lambda>_. Q False) K"
  by (simp add: v_ok_def)

lemma wpv_ignore [simp]: "wpv (v_ignore m) Q F K = wpv m (\<lambda>_. Q ()) (\<lambda>_. Q ()) K"
  by (simp add: v_ignore_def)

lemma wpv_now [simp]: "wpv (v_now f) Q F K v = Q (f (calls v)) v"
  by (simp add: wpv_def v_now_def)

lemma wpv_if [simp]: "wpv (if b then m else n) Q F K = (if b then wpv m Q F K else wpv n Q F K)"
  by simp

lemma wpv_mono:
  assumes "wpv m Q F K v" and "\<And>a w. Q a w \<Longrightarrow> Q' a w" and "\<And>e w. F e w \<Longrightarrow> F' e w" and "\<And>w. K w \<Longrightarrow> K' w"
  shows "wpv m Q' F' K' v"
  using assms by (auto simp: wpv_def split: prod.splits reply.splits)

lemma wpv_conj:
  assumes "wpv m Q F K v" and "wpv m Q' F' K' v"
  shows "wpv m (\<lambda>a w. Q a w \<and> Q' a w) (\<lambda>e w. F e w \<and> F' e w) (\<lambda>w. K w \<and> K' w) v"
  using assms by (auto simp: wpv_def split: prod.splits reply.splits)

lemma wpv_call:
  "wpv (call \<E> f) Q F K v \<longleftrightarrow>
     (if killed_at \<E> (calls v) then K v
      else let v' = v\<lparr>calls := Suc (calls v)\<rparr> in
        case fails_at \<E> (calls v) of
          Some e \<Rightarrow> F e v'
        | None \<Rightarrow> (case f v' of Inl e \<Rightarrow> F e v' | Inr (a, v'') \<Rightarrow> Q a v''))"
  by (auto simp: wpv_def call_def Let_def split: option.split sum.split)

section \<open>Entries\<close>

lemma map_of_filter_key: "map_of (filter (\<lambda>e. fst e \<noteq> p) xs) q = (if q = p then None else map_of xs q)"
  by (induction xs) auto

lemma find_drop [simp]: "find_entry (drop_entry p v) q = (if q = p then None else find_entry v q)"
  by (simp add: find_entry_def drop_entry_def map_of_filter_key)

lemma find_put [simp]: "find_entry (put_entry p i v) q = (if q = p then Some i else find_entry v q)"
  by (auto simp: find_entry_def put_entry_def map_of_filter_key map_add_def split: option.split)

lemma find_fields [simp]:
  "find_entry (set_node i n v) q = find_entry v q" "find_entry (v\<lparr>calls := c\<rparr>) q = find_entry v q"
  "find_entry (v\<lparr>next_inode := k\<rparr>) q = find_entry v q" "find_entry (v\<lparr>trash_bin := t\<rparr>) q = find_entry v q"
  "find_entry (v\<lparr>inodes := ns\<rparr>) q = find_entry v q"
  by (simp_all add: find_entry_def set_node_def)

lemma fields_put [simp]:
  "inodes (put_entry p i v) = inodes v" "next_inode (put_entry p i v) = next_inode v" "calls (put_entry p i v) = calls v"
  "trash_bin (put_entry p i v) = trash_bin v" "volume.more (put_entry p i v) = volume.more v"
  by (simp_all add: put_entry_def)

lemma fields_drop [simp]:
  "inodes (drop_entry p v) = inodes v" "next_inode (drop_entry p v) = next_inode v" "calls (drop_entry p v) = calls v"
  "trash_bin (drop_entry p v) = trash_bin v" "volume.more (drop_entry p v) = volume.more v"
  by (simp_all add: drop_entry_def)

lemma fields_node [simp]:
  "inodes (set_node i n v) = (inodes v)(i := n)" "next_inode (set_node i n v) = next_inode v" "calls (set_node i n v) = calls v"
  "trash_bin (set_node i n v) = trash_bin v" "volume.more (set_node i n v) = volume.more v"
  by (simp_all add: set_node_def)

definition holds_bytes :: "'s volume_scheme \<Rightarrow> vpath \<Rightarrow> bytes \<Rightarrow> bool" where
  "holds_bytes v p bs \<longleftrightarrow> (\<exists>i. find_entry v p = Some i \<and> vkind (inodes v i) = VFile \<and> vdata (inodes v i) = bs)"

lemma holds_bytes_calls [simp]: "holds_bytes (v\<lparr>calls := c\<rparr>) p bs = holds_bytes v p bs"
  by (simp add: holds_bytes_def)

section \<open>Runs that only read\<close>

definition later :: "'s volume_scheme \<Rightarrow> 's volume_scheme \<Rightarrow> bool" where
  "later v w \<longleftrightarrow> (\<exists>c \<ge> calls v. w = v\<lparr>calls := c\<rparr>)"

lemma later_refl [intro, simp]: "later v v"
  by (auto simp: later_def intro!: exI [of _ "calls v"])

lemma later_trans: "later u v \<Longrightarrow> later v w \<Longrightarrow> later u w"
  unfolding later_def by (elim exE conjE) (rule_tac x = ca in exI, simp)

lemma later_fields:
  assumes "later v w"
  shows "find_entry w = find_entry v" "inodes w = inodes v" "next_inode w = next_inode v" "trash_bin w = trash_bin v"
    "volume.more w = volume.more v" "calls v \<le> calls w" "dirents w = dirents v"
  using assms by (auto simp: later_def find_entry_def)

definition reads :: "('s, 'e, 'a) vrun \<Rightarrow> bool" where
  "reads m \<longleftrightarrow> (\<forall>v. later v (snd (m v)))"

named_theorems reads_rules \<open>runs that only read\<close>

lemma reads_ret [reads_rules]: "reads (v_ret a)"
  by (simp add: reads_def v_ret_def)

lemma reads_err [reads_rules]: "reads (v_err a)"
  by (simp add: reads_def v_err_def)

lemma reads_now [reads_rules]: "reads (v_now f)"
  by (simp add: reads_def v_now_def)

lemma reads_bind [reads_rules]: "reads m \<Longrightarrow> (\<And>a. reads (f a)) \<Longrightarrow> reads (v_bind m f)"
  unfolding reads_def v_bind_def
  by (rule allI, rename_tac v, case_tac "m v", rename_tac r w, case_tac r) (auto, metis later_trans snd_conv, (metis snd_conv)+)

lemma reads_try [reads_rules]: "reads m \<Longrightarrow> reads (v_try m)"
  unfolding reads_def v_try_def by (auto split: prod.split reply.split) (metis snd_conv)+

lemma reads_map_err [reads_rules]: "reads m \<Longrightarrow> reads (v_map_err h m)"
  unfolding reads_def v_map_err_def by (auto split: prod.split reply.split) (metis snd_conv)+

lemma reads_ok [reads_rules]: "reads m \<Longrightarrow> reads (v_ok m)"
  unfolding v_ok_def by (intro reads_rules)

lemma reads_ignore [reads_rules]: "reads m \<Longrightarrow> reads (v_ignore m)"
  unfolding v_ignore_def by (intro reads_rules)

lemma later_step [simp]: "later v (v\<lparr>calls := Suc (calls v)\<rparr>)"
  unfolding later_def by (rule exI [of _ "Suc (calls v)"]) simp

lemma reads_call:
  assumes "\<And>v a w. f v = Inr (a, w) \<Longrightarrow> w = v"
  shows "reads (call \<E> f)"
  unfolding reads_def call_def Let_def by (auto split: option.split sum.split prod.split dest!: assms)

lemma reads_sys [reads_rules]:
  "reads (sys_lstat \<E> p)" "reads (sys_fstat \<E> h)" "reads (sys_open \<E> p)" "reads (sys_read \<E> h)" "reads (sys_sync \<E>)"
  "reads (sys_read_dir \<E> k)" "reads (sys_listxattr \<E> h)" "reads (sys_getxattr \<E> h a)" "reads (sys_identify \<E> h)"
  unfolding sys_lstat_def sys_fstat_def sys_open_def sys_read_def sys_sync_def sys_read_dir_def sys_listxattr_def
    sys_getxattr_def sys_identify_def
  by (rule reads_call; auto split: option.splits if_splits)+

lemma reads_if [reads_rules]: "reads m \<Longrightarrow> reads n \<Longrightarrow> reads (if b then m else n)"
  by simp

text \<open>The rule for a run that only reads: the state stays, and the value is the one it has from there.\<close>

lemma wpv_reads:
  assumes "reads m"
    and "\<And>w a. later v w \<Longrightarrow> fst (m v) = Value a \<Longrightarrow> Q a w"
    and "\<And>w e. later v w \<Longrightarrow> fst (m v) = Failed e \<Longrightarrow> F e w" and "\<And>w. later v w \<Longrightarrow> K w"
  shows "wpv m Q F K v"
proof -
  have "later v (snd (m v))" using assms(1) by (simp add: reads_def)
  then show ?thesis using assms(2-) by (auto simp: wpv_def split: prod.split reply.split)
qed

lemma value_bind: "fst (v_bind m f v) = Value b \<Longrightarrow> \<exists>a. fst (m v) = Value a \<and> fst (f a (snd (m v))) = Value b"
  by (auto simp: v_bind_def split: prod.splits reply.splits)

lemma reads_snd: "reads m \<Longrightarrow> later v (snd (m v))"
  by (simp add: reads_def)

section \<open>What a run leaves alone\<close>

text \<open>
  Outside the named entries and the named inodes everything that was there stays; the Trash, and what
  extends the volume, stay as they are.
\<close>

definition frame :: "vpath set \<Rightarrow> nat set \<Rightarrow> 's volume_scheme \<Rightarrow> 's volume_scheme \<Rightarrow> bool" where
  "frame S I v w \<longleftrightarrow> (\<forall>p. p \<notin> S \<longrightarrow> find_entry w p = find_entry v p) \<and>
     (\<forall>i. i < next_inode v \<longrightarrow> i \<notin> I \<longrightarrow> inodes w i = inodes v i) \<and> next_inode v \<le> next_inode w \<and>
     calls v \<le> calls w \<and> trash_bin w = trash_bin v \<and> volume.more w = volume.more v"

lemma later_frame: "later v w \<Longrightarrow> frame S I v w"
  by (simp add: frame_def later_fields)

lemma frame_refl [simp]: "frame S I v v"
  by (simp add: frame_def)

lemma frame_trans:
  assumes "frame S I v w" and "frame S' I' w x" and "S' \<subseteq> S" and "\<And>i. i \<in> I' \<Longrightarrow> i < next_inode v \<Longrightarrow> i \<in> I"
  shows "frame S I v x"
  using assms unfolding frame_def by (auto; metis in_mono less_le_trans)

lemma frame_mono: "frame S I v w \<Longrightarrow> S \<subseteq> S' \<Longrightarrow> I \<subseteq> I' \<Longrightarrow> frame S' I' v w"
  by (auto simp: frame_def)

text \<open>Every entry names an inode that has been given out, and no name made of a uuid to come is taken.\<close>

definition sound :: "'s volume_scheme \<Rightarrow> bool" where
  "sound v \<longleftrightarrow> (\<forall>p i. find_entry v p = Some i \<longrightarrow> i < next_inode v)"

definition unguessed :: "(nat \<Rightarrow> string) \<Rightarrow> nat \<Rightarrow> vpath \<Rightarrow> bool" where
  "unguessed us c p \<longleftrightarrow> (\<forall>n \<ge> c. snd p \<noteq> aside_name_of (us n))"

definition unguessed_names :: "(nat \<Rightarrow> string) \<Rightarrow> 's volume_scheme \<Rightarrow> bool" where
  "unguessed_names us v \<longleftrightarrow> (\<forall>p. find_entry v p \<noteq> None \<longrightarrow> unguessed us (calls v) p)"

definition asides_to_come :: "(nat \<Rightarrow> string) \<Rightarrow> nat \<Rightarrow> nat \<Rightarrow> vpath set" where
  "asides_to_come us c folder = {(folder, aside_name_of (us n)) | n. c \<le> n}"

lemma unguessed_later: "unguessed us c p \<Longrightarrow> c \<le> d \<Longrightarrow> unguessed us d p"
  by (auto simp: unguessed_def)

lemma aside_name_inj [simp]: "aside_name_of u = aside_name_of u' \<longleftrightarrow> u = u'"
  by (simp add: aside_name_of_def)

lemma asides_later: "c \<le> d \<Longrightarrow> asides_to_come us d folder \<subseteq> asides_to_come us c folder"
  by (auto simp: asides_to_come_def)

section \<open>Invariants of a run\<close>

text \<open>A run keeps a property: it holds after it, however it ends. Runs that only read keep every property that does not count calls.\<close>

definition keeps :: "('s volume_scheme \<Rightarrow> bool) \<Rightarrow> ('s, 'e, 'a) vrun \<Rightarrow> bool" where
  "keeps P m \<longleftrightarrow> (\<forall>v. P v \<longrightarrow> P (snd (m v)))"

definition stable :: "('s volume_scheme \<Rightarrow> bool) \<Rightarrow> bool" where
  "stable P \<longleftrightarrow> (\<forall>v w. P v \<longrightarrow> later v w \<longrightarrow> P w)"

named_theorems keeps_rules \<open>runs that keep a property\<close>

lemma keeps_reads: "stable P \<Longrightarrow> reads m \<Longrightarrow> keeps P m"
  by (auto simp: keeps_def stable_def reads_def)

lemma keeps_ret [keeps_rules]: "keeps P (v_ret a)"
  by (simp add: keeps_def v_ret_def)

lemma keeps_err [keeps_rules]: "keeps P (v_err a)"
  by (simp add: keeps_def v_err_def)

lemma keeps_now [keeps_rules]: "keeps P (v_now f)"
  by (simp add: keeps_def v_now_def)

lemma keeps_bind [keeps_rules]: "keeps P m \<Longrightarrow> (\<And>a. keeps P (f a)) \<Longrightarrow> keeps P (v_bind m f)"
  unfolding keeps_def v_bind_def by (fastforce split: prod.split reply.split)

lemma keeps_try [keeps_rules]: "keeps P m \<Longrightarrow> keeps P (v_try m)"
  unfolding keeps_def v_try_def by (fastforce split: prod.split reply.split)

lemma keeps_map_err [keeps_rules]: "keeps P m \<Longrightarrow> keeps P (v_map_err h m)"
  unfolding keeps_def v_map_err_def by (fastforce split: prod.split reply.split)

lemma keeps_if [keeps_rules]: "keeps P m \<Longrightarrow> keeps P n \<Longrightarrow> keeps P (if b then m else n)"
  by simp

lemma keeps_cases [keeps_rules]:
  "(\<And>e. keeps P (f e)) \<Longrightarrow> (\<And>a. keeps P (g a)) \<Longrightarrow> keeps P (case r of Inl e \<Rightarrow> f e | Inr a \<Rightarrow> g a)"
  "keeps P k \<Longrightarrow> (\<And>a. keeps P (h a)) \<Longrightarrow> keeps P (case x of None \<Rightarrow> k | Some a \<Rightarrow> h a)"
  "(\<And>a b. keeps P (l a b)) \<Longrightarrow> keeps P (case y of (a, b) \<Rightarrow> l a b)"
  by (auto split: sum.split option.split prod.split)

lemma wpv_keeps: "keeps P m \<Longrightarrow> P v \<Longrightarrow> wpv m (\<lambda>_. P) (\<lambda>_. P) P v"
  by (fastforce simp: wpv_def keeps_def split: prod.split reply.split)

lemma wpv_later: "reads m \<Longrightarrow> wpv m (\<lambda>_. later v) (\<lambda>_. later v) (later v) v"
  by (simp add: wpv_reads)

lemma wpv_keep:
  assumes "keeps P m" and "P v" and "\<And>w. P w \<Longrightarrow> K w" and "\<And>w e. P w \<Longrightarrow> F e w" and "\<And>w a. P w \<Longrightarrow> Q a w"
  shows "wpv m Q F K v"
  by (rule wpv_mono [OF wpv_keeps [OF assms(1,2)]]) (auto intro: assms)

text \<open>What a run does, and what it keeps.\<close>

lemma wpv_with:
  assumes "wpv m Q F K v" and "keeps P m" and "P v"
    and "\<And>a w. Q a w \<Longrightarrow> P w \<Longrightarrow> Q' a w" and "\<And>e w. F e w \<Longrightarrow> P w \<Longrightarrow> F' e w" and "\<And>w. K w \<Longrightarrow> P w \<Longrightarrow> K' w"
  shows "wpv m Q' F' K' v"
  by (rule wpv_mono [OF wpv_conj [OF assms(1) wpv_keeps [OF assms(2,3)]]]) (auto intro: assms)

end
