(* ===== verification/TransferLaws.thy ===== *)
theory TransferLaws
  imports VolumeLaws
begin

text \<open>
  What the operations of \<open>custody.rs\<close> and \<open>custody/transfer.rs\<close> do to a volume: the observations only
  read, a read proves the bytes of what it names, a copy touches its own new file alone, and a move of a
  file keeps its bytes whatever fails and wherever it stops.
\<close>

section \<open>Observations\<close>

lemma reads_unavailable [reads_rules]: "reads m \<Longrightarrow> reads (unavailable m)"
  by (simp add: unavailable_def reads_map_err)

lemma reads_other [reads_rules]: "reads m \<Longrightarrow> reads (other m)"
  by (simp add: other_def reads_map_err)

lemma reads_write_failed [reads_rules]: "reads m \<Longrightarrow> reads (write_failed m)"
  by (simp add: write_failed_def reads_map_err)

lemma reads_case_sum [reads_rules]:
  "(\<And>e. reads (f e)) \<Longrightarrow> (\<And>a. reads (g a)) \<Longrightarrow> reads (case r of Inl e \<Rightarrow> f e | Inr a \<Rightarrow> g a)"
  by (cases r) auto

lemma reads_case_option [reads_rules]:
  "reads f \<Longrightarrow> (\<And>a. reads (g a)) \<Longrightarrow> reads (case r of None \<Rightarrow> f | Some a \<Rightarrow> g a)"
  by (cases r) auto

lemma reads_case_prod [reads_rules]: "(\<And>a b. reads (f a b)) \<Longrightarrow> reads (case r of (a, b) \<Rightarrow> f a b)"
  by (cases r) auto

lemma reads_probe [reads_rules]: "reads (probe_fingerprint \<E> p)"
  unfolding probe_fingerprint_def by (intro reads_rules)

lemma reads_handle_is [reads_rules]: "reads (handle_is \<E> h m i)"
  unfolding handle_is_def by (intro reads_rules)

lemma reads_open_unchanged [reads_rules]: "reads (open_unchanged \<E> p e)"
  unfolding open_unchanged_def by (intro reads_rules)

lemma reads_stream: "(\<And>bs. reads (sink bs)) \<Longrightarrow> reads (stream \<E> h bs sink)"
  by (induction \<E> h bs sink rule: stream.induct) (auto intro!: reads_rules)

lemma reads_read_unchanged [reads_rules]: "reads (read_unchanged \<E> p e no_sink)"
  unfolding read_unchanged_def no_sink_def by (intro reads_rules reads_stream)

lemma reads_holds_entry [reads_rules]: "reads (holds_entry \<E> p i)"
  unfolding holds_entry_def by (intro reads_rules)

lemma reads_both_meta [reads_rules]: "reads m \<Longrightarrow> reads n \<Longrightarrow> reads (both_meta f m n)"
  unfolding both_meta_def by (intro reads_rules)

lemma reads_second_link [reads_rules]: "reads (second_link \<E> p q)"
  unfolding second_link_def by (intro reads_rules)

lemma reads_names [reads_rules]: "reads (names \<E> p h)"
  unfolding names_def by (intro reads_rules)

lemma reads_starts_with [reads_rules]: "reads (starts_with \<E> h k n)"
  unfolding starts_with_def by (intro reads_rules)

lemma reads_sync_folder [reads_rules]: "reads (sync_folder \<E>)"
  unfolding sync_folder_def by (intro reads_rules)

lemma reads_link_holds [reads_rules]: "reads (link_holds \<E> p r t)"
  unfolding link_holds_def by (intro reads_rules)

lemma reads_file_holds [reads_rules]: "reads (file_holds \<E> p r)"
  unfolding file_holds_def by (intro reads_rules)

lemma reads_in_place [reads_rules]: "reads (in_place \<E> s)"
  unfolding in_place_def by (intro reads_rules) (cases "evidence_kind s"; auto intro!: reads_rules)

lemma reads_verify_source [reads_rules]: "reads (verify_source \<E> s)"
  unfolding verify_source_def by (cases "evidence_kind s") (auto intro!: reads_rules)

lemma reads_verify_kept [reads_rules]: "reads (verify_kept \<E> k)"
  unfolding verify_kept_def by (intro reads_rules)

lemma reads_verify_bytes [reads_rules]: "reads (verify_bytes \<E> d w n s)"
  unfolding verify_bytes_def by (intro reads_rules)

lemma reads_verify_transfer [reads_rules]: "reads (verify_transfer \<E> s d w)"
  unfolding verify_transfer_def by (intro reads_rules)

lemma reads_copy_of [reads_rules]: "reads (copy_of \<E> c h m)"
  unfolding copy_of_def by (intro reads_rules)

lemma reads_vacant [reads_rules]: "reads (vacant \<E> p)"
  unfolding vacant_def by (intro reads_rules)

section \<open>What is observed\<close>

lemma stable_later: "stable (later v)"
  by (auto simp: stable_def intro: later_trans)

lemma wpv_read_call:
  assumes "later u v" and "\<And>w. later u w \<Longrightarrow> K w" and "\<And>w e. later u w \<Longrightarrow> F e w"
    and "\<And>w a x. later u w \<Longrightarrow> f w = Inr (a, x) \<Longrightarrow> x = w \<and> Q a w"
  shows "wpv (call \<E> f) Q F K v"
proof -
  have step: "later u (v\<lparr>calls := Suc (calls v)\<rparr>)" using assms(1) later_step by (rule later_trans)
  show ?thesis
    using assms step by (auto simp: wpv_call Let_def split: option.split sum.split) (metis assms(4))+
qed

lemma later_find [simp]: "later u v \<Longrightarrow> find_entry v p = find_entry u p"
  by (simp add: later_fields)

lemma later_inodes [simp]: "later u v \<Longrightarrow> inodes v = inodes u"
  by (simp add: later_fields)

lemma wpv_lstat:
  assumes "later u v" and "\<And>w. later u w \<Longrightarrow> K w" and "\<And>w e. later u w \<Longrightarrow> F e w"
    and "\<And>w i. later u w \<Longrightarrow> find_entry u p = Some i \<Longrightarrow> Q (i, inodes u i) w"
  shows "wpv (sys_lstat \<E> p) Q F K v"
  unfolding sys_lstat_def by (rule wpv_read_call [OF assms(1-3)]) (auto split: option.splits intro: assms)

lemma wpv_fstat:
  assumes "later u v" and "\<And>w. later u w \<Longrightarrow> K w" and "\<And>w e. later u w \<Longrightarrow> F e w"
    and "\<And>w. later u w \<Longrightarrow> Q (h, inodes u h) w"
  shows "wpv (sys_fstat \<E> h) Q F K v"
  unfolding sys_fstat_def by (rule wpv_read_call [OF assms(1-3)]) (auto intro: assms)

lemma wpv_open:
  assumes "later u v" and "\<And>w. later u w \<Longrightarrow> K w" and "\<And>w e. later u w \<Longrightarrow> F e w"
    and "\<And>w i. later u w \<Longrightarrow> find_entry u p = Some i \<Longrightarrow> vkind (inodes u i) \<noteq> VLink \<Longrightarrow> Q i w"
  shows "wpv (sys_open \<E> p) Q F K v"
  unfolding sys_open_def
  by (rule wpv_read_call [OF assms(1-3)]) (auto split: option.splits if_splits intro: assms)

lemma wpv_read:
  assumes "later u v" and "\<And>w. later u w \<Longrightarrow> K w" and "\<And>w e. later u w \<Longrightarrow> F e w"
    and "\<And>w. later u w \<Longrightarrow> Q (vdata (inodes u h)) w"
  shows "wpv (sys_read \<E> h) Q F K v"
  unfolding sys_read_def by (rule wpv_read_call [OF assms(1-3)]) (auto intro: assms)

text \<open>A run that only reads, from a later state.\<close>

lemma wpv_skip:
  assumes "reads m" and "later u v" and "\<And>w. later u w \<Longrightarrow> K w" and "\<And>w e. later u w \<Longrightarrow> F e w"
    and "\<And>w a. later u w \<Longrightarrow> Q a w"
  shows "wpv m Q F K v"
  by (rule wpv_reads [OF assms(1)]) (use assms later_trans in blast)+

lemma wpv_unavailable [simp]: "wpv (unavailable m) Q F K = wpv m Q (\<lambda>_. F CheckUnavailable) K"
  by (simp add: unavailable_def)

lemma wpv_other [simp]: "wpv (other m) Q F K = wpv m Q (\<lambda>_. F OtherError) K"
  by (simp add: other_def)

lemma wpv_write_failed [simp]: "wpv (write_failed m) Q F K = wpv m Q (\<lambda>_. F WriteFailed) K"
  by (simp add: write_failed_def)

lemma wpv_probe:
  assumes "later u v" and "\<And>w. later u w \<Longrightarrow> K w" and "\<And>w e. later u w \<Longrightarrow> F e w"
    and "\<And>w i. later u w \<Longrightarrow> find_entry u p = Some i \<Longrightarrow> vkind (inodes u i) = VFile \<Longrightarrow>
      Q (fingerprint_of (inode_identity \<E> i) (inodes u i)) w"
  shows "wpv (probe_fingerprint \<E> p) Q F K v"
  unfolding probe_fingerprint_def sys_identify_def wpv_bind
  by (rule wpv_lstat [OF assms(1-3)]) (auto intro!: assms(2-4) wpv_read_call [of u])

lemma wpv_open_unchanged:
  assumes "later u v" and "\<And>w. later u w \<Longrightarrow> K w" and "\<And>w e. later u w \<Longrightarrow> F e w"
    and "\<And>w i. later u w \<Longrightarrow> find_entry u p = Some i \<Longrightarrow> vkind (inodes u i) = VFile \<Longrightarrow>
      as_expected e (fingerprint_of (inode_identity \<E> i) (inodes u i)) \<Longrightarrow> Q (i, i, inodes u i) w"
  shows "wpv (open_unchanged \<E> p e) Q F K v"
  unfolding open_unchanged_def wpv_bind wpv_unavailable
  by (rule wpv_lstat [OF assms(1-3)])
    (auto intro!: assms wpv_probe [of u] wpv_open [of u] wpv_skip [OF reads_handle_is, of u])

lemma wpv_any: "(\<And>a w. Q a w) \<Longrightarrow> (\<And>e w. F e w) \<Longrightarrow> (\<And>w. K w) \<Longrightarrow> wpv m Q F K v"
  by (auto simp: wpv_def split: prod.split reply.split)

definition file_at :: "'s volume_scheme \<Rightarrow> vpath \<Rightarrow> bytes option" where
  "file_at v p =
    (case find_entry v p of
       None \<Rightarrow> None
     | Some i \<Rightarrow> (if vkind (inodes v i) = VFile then Some (vdata (inodes v i)) else None))"

lemma file_at_later [simp]: "later u v \<Longrightarrow> file_at v p = file_at u p"
  by (simp add: file_at_def split: option.split)

lemma file_at_calls [simp]: "file_at (v\<lparr>calls := c\<rparr>) p = file_at v p"
  by (simp add: file_at_def split: option.split)

text \<open>The digest of an unchanged read is that of the file the path named at its start, whatever the sink does.\<close>

lemma wpv_read_digest:
  "wpv (read_unchanged \<E> p e sink) (\<lambda>d _. \<exists>bs. file_at v p = Some bs \<and> d = sha256_of \<E> bs \<and> length bs = expect_size e)
     (\<lambda>_ _. True) (\<lambda>_. True) v"
  unfolding read_unchanged_def wpv_bind
  by (rule wpv_open_unchanged [OF later_refl])
    (auto simp: file_at_def fingerprint_of_def as_expected_def intro!: wpv_any)

lemma keeps_unavailable [keeps_rules]: "keeps P m \<Longrightarrow> keeps P (unavailable m)"
  by (simp add: unavailable_def keeps_map_err)

lemma keeps_other [keeps_rules]: "keeps P m \<Longrightarrow> keeps P (other m)"
  by (simp add: other_def keeps_map_err)

lemma keeps_write_failed [keeps_rules]: "keeps P m \<Longrightarrow> keeps P (write_failed m)"
  by (simp add: write_failed_def keeps_map_err)

lemma keeps_stream:
  assumes "stable P" and "\<And>bs. keeps P (sink bs)"
  shows "keeps P (stream \<E> h bs sink)"
  using assms
proof (induction \<E> h bs sink rule: stream.induct)
  case (1 \<E> h sink)
  then show ?case by (auto intro!: keeps_reads reads_rules)
next
  case (2 \<E> h b bs sink)
  show ?case
    unfolding stream.simps using 2 by (intro keeps_rules) (auto intro: keeps_reads reads_rules)
qed

lemma keeps_read_unchanged:
  assumes "stable P" and "\<And>bs. keeps P (sink bs)"
  shows "keeps P (read_unchanged \<E> p e sink)"
  unfolding read_unchanged_def
  by (intro keeps_rules keeps_stream assms) (auto intro!: keeps_reads [OF assms(1)] reads_rules)

section \<open>A copy\<close>

text \<open>A new file is being made under a name: nothing else is touched, and the name is free or has the new file.\<close>

definition making :: "'s volume_scheme \<Rightarrow> vpath \<Rightarrow> bool \<Rightarrow> 's volume_scheme \<Rightarrow> bool" where
  "making v dest there w \<longleftrightarrow> frame {dest} {} v w \<and> next_inode w = Suc (next_inode v) \<and>
     vkind (inodes w (next_inode v)) = VFile \<and> find_entry w dest = (if there then Some (next_inode v) else None)"

lemma stable_making [simp]: "stable (making v dest b)"
  by (auto simp: stable_def making_def frame_def dest: later_fields(6)) (auto simp: later_fields)

lemma making_later: "making v dest b w \<Longrightarrow> later w x \<Longrightarrow> making v dest b x"
  using stable_making unfolding stable_def by blast

definition writes_to :: "nat \<Rightarrow> ('s, 'e, 'a) vrun \<Rightarrow> bool" where
  "writes_to h m \<longleftrightarrow> (\<forall>v. \<exists>c n. calls v \<le> c \<and> vkind n = vkind (inodes v h) \<and> snd (m v) = set_node h n (v\<lparr>calls := c\<rparr>))"

lemma writes_call:
  assumes "\<And>v. \<exists>n. f v = Inr ((), set_node h n v) \<and> vkind n = vkind (inodes v h)"
  shows "writes_to h (call \<E> f)"
  unfolding writes_to_def
proof
  fix v :: "'a volume_scheme"
  have same: "v = set_node h (inodes v h) (v\<lparr>calls := calls v\<rparr>)" "v\<lparr>calls := c\<rparr> = set_node h (inodes v h) (v\<lparr>calls := c\<rparr>)" for c
    by (simp_all add: set_node_def)
  obtain n where n: "f (v\<lparr>calls := Suc (calls v)\<rparr>) = Inr ((), set_node h n (v\<lparr>calls := Suc (calls v)\<rparr>))"
    "vkind n = vkind (inodes v h)"
    using assms [of "v\<lparr>calls := Suc (calls v)\<rparr>"] by auto
  show "\<exists>c n. calls v \<le> c \<and> vkind n = vkind (inodes v h) \<and> snd (call \<E> f v) = set_node h n (v\<lparr>calls := c\<rparr>)"
  proof (cases "killed_at \<E> (calls v)")
    case True
    then show ?thesis using same(1) by (intro exI [of _ "calls v"] exI [of _ "inodes v h"]) (simp add: call_def)
  next
    case False
    show ?thesis
    proof (cases "fails_at \<E> (calls v)")
      case None
      then show ?thesis using False n by (intro exI [of _ "Suc (calls v)"] exI [of _ n]) (simp add: call_def)
    next
      case (Some e)
      then show ?thesis using False same(2) [of "Suc (calls v)"]
        by (intro exI [of _ "Suc (calls v)"] exI [of _ "inodes v h"]) (simp add: call_def)
    qed
  qed
qed

lemma writes_sys:
  "writes_to h (sys_write \<E> h bs)" "writes_to h (sys_set_modified \<E> h t)" "writes_to h (sys_setxattr \<E> h a x)"
  "writes_to h (sys_truncate \<E> h)"
  unfolding sys_write_def sys_set_modified_def sys_setxattr_def sys_truncate_def
  by (rule writes_call; auto)+

lemma keeps_making:
  assumes "writes_to (next_inode v) m"
  shows "keeps (making v dest b) m"
  unfolding keeps_def
proof (intro allI impI)
  fix w :: "'a volume_scheme"
  assume m: "making v dest b w"
  obtain c n where c: "calls w \<le> c" "vkind n = vkind (inodes w (next_inode v))"
    "snd (m w) = set_node (next_inode v) n (w\<lparr>calls := c\<rparr>)"
    using assms unfolding writes_to_def by blast
  show "making v dest b (snd (m w))"
    using m c(1,2) unfolding c(3) making_def frame_def by auto
qed

lemma keeps_making_write [keeps_rules]:
  "keeps (making v dest b) (sys_write \<E> (next_inode v) bs)" "keeps (making v dest b) (sys_set_modified \<E> (next_inode v) t)"
  "keeps (making v dest b) (sys_setxattr \<E> (next_inode v) a x)"
  by (rule keeps_making, rule writes_sys)+

lemma keeps_settle_file:
  assumes "stable P" and "\<And>t. keeps P (sys_set_modified \<E> h t)"
  shows "keeps P (settle_file \<E> h ns)"
  unfolding settle_file_def by (intro keeps_rules assms keeps_reads [OF assms(1)] reads_rules)

lemma keeps_carry_each:
  assumes "stable P" and "\<And>a x. keeps P (sys_setxattr \<E> copy a x)"
  shows "keeps P (carry_each \<E> source copy ns)"
  by (induction ns) (auto intro!: keeps_rules assms keeps_reads [OF assms(1) reads_sys(8)])

lemma keeps_carry_xattrs:
  assumes "stable P" and "\<And>a x. keeps P (sys_setxattr \<E> copy a x)"
  shows "keeps P (carry_xattrs \<E> source copy)"
  unfolding carry_xattrs_def
  by (intro keeps_rules keeps_reads [OF assms(1) reads_sys(7)] keeps_carry_each assms)

lemma file_at_frame:
  assumes f: "frame S {} v w" and "p \<notin> S" and p: "file_at v p = Some bs" and s: "sound v"
  shows "file_at w p = Some bs"
proof -
  obtain i where i: "find_entry v p = Some i" using p by (auto simp: file_at_def split: option.splits)
  then have "i < next_inode v" using s by (cases p) (auto simp: sound_def)
  then have "inodes w i = inodes v i" using f by (simp add: frame_def)
  moreover have "find_entry w p = Some i" using f assms(2) i by (cases p) (auto simp: frame_def)
  ultimately show ?thesis using p i by (simp add: file_at_def split: if_splits)
qed

lemma making_file:
  "making v dest b w \<Longrightarrow> file_at v p = Some bs \<Longrightarrow> sound v \<Longrightarrow> p \<noteq> dest \<Longrightarrow> file_at w p = Some bs"
  by (rule file_at_frame [of "{dest}"]) (auto simp: making_def)

lemma making_dest: "making v dest True w \<Longrightarrow> file_at w dest = Some (vdata (inodes w (next_inode v)))"
  by (simp add: making_def file_at_def)

text \<open>A copy that is taken as filled holds the bytes of its source: its own are read again and compared.\<close>

lemma wpv_fill_copy:
  assumes m: "making v dest True w" and bs: "file_at v from = Some bs" and "from \<noteq> dest" and "sound v"
    and sha: "inj (sha256_of \<E>)"
    and ends: "\<And>x. making v dest True x \<Longrightarrow> K x" "\<And>x e. making v dest True x \<Longrightarrow> F e x"
      "\<And>x i. making v dest True x \<Longrightarrow> vdata (inodes x (next_inode v)) = bs \<Longrightarrow> Q i x"
  shows "wpv (fill_copy \<E> from dest f src (next_inode v)) Q F K w"
proof -
  let ?M = "making v dest True" and ?D = "\<lambda>X x. making v dest True x \<and> vdata (inodes x (next_inode v)) = X"
  have stable_D: "stable (?D X)" for X by (auto simp: stable_def later_fields intro: making_later)
  note reading = keeps_reads [OF stable_making] and keep = wpv_keep [OF _ _ ends(1,2)]
  have now: "file_at x from = Some bs" if "?M x" for x
    using making_file [OF that bs] assms by simp
  show ?thesis
    unfolding fill_copy_def wpv_bind wpv_other
    apply (rule wpv_with [OF wpv_read_digest keeps_read_unchanged [OF stable_making keeps_making_write(1)] m])
      apply (rule keep [OF keeps_carry_xattrs [OF stable_making keeps_making_write(3)]], assumption+)
      apply (rule keep [OF keeps_settle_file [OF stable_making keeps_making_write(2)]], assumption+)
      apply (rule keep [OF reading [OF reads_sync_folder]], assumption+)
      apply (rule keep [OF reading [OF reads_probe]], assumption+)
      apply (rule wpv_with [OF wpv_read_digest keeps_reads [OF stable_D reads_read_unchanged]], erule conjI, rule refl)
        apply (auto simp: making_dest now [OF m] inj_eq [OF sha] intro: ends
            intro!: wpv_keep [of "?D bs", OF keeps_reads [OF stable_D reads_names]])
    done
qed

section \<open>Calls that change entries\<close>

lemma wpv_do_call:
  assumes "later u v" and "\<And>w. later u w \<Longrightarrow> K w" and "\<And>w e. later u w \<Longrightarrow> F e w"
    and "\<And>w a x. later u w \<Longrightarrow> calls u < calls w \<Longrightarrow> f w = Inr (a, x) \<Longrightarrow> Q a x"
  shows "wpv (call \<E> f) Q F K v"
proof -
  have step: "later u (v\<lparr>calls := Suc (calls v)\<rparr>)" using assms(1) later_step by (rule later_trans)
  have "calls u < calls (v\<lparr>calls := Suc (calls v)\<rparr>)" using assms(1) by (simp add: later_fields less_Suc_eq_le)
  then show ?thesis
    using assms step by (auto simp: wpv_call Let_def split: option.split sum.split)
qed

lemma wpv_remove_file:
  assumes "later u v" and "\<And>w. later u w \<Longrightarrow> K w" and "\<And>w e. later u w \<Longrightarrow> F e w"
    and "\<And>w i. later u w \<Longrightarrow> find_entry u p = Some i \<Longrightarrow> vkind (inodes u i) \<noteq> VFolder \<Longrightarrow> Q () (drop_entry p w)"
  shows "wpv (sys_remove_file \<E> p) Q F K v"
  unfolding sys_remove_file_def
  by (rule wpv_do_call [OF assms(1-3)]) (auto split: option.splits if_splits intro: assms)

lemma wpv_rename_free:
  assumes "later u v" and "\<And>w. later u w \<Longrightarrow> K w" and "\<And>w e. later u w \<Longrightarrow> F e w"
    and "find_entry u b = None"
    and "\<And>w i. later u w \<Longrightarrow> calls u < calls w \<Longrightarrow> find_entry u a = Some i \<Longrightarrow> Q () (put_entry b i (drop_entry a w))"
  shows "wpv (sys_rename \<E> a b) Q F K v"
  unfolding sys_rename_def
  by (rule wpv_do_call [OF assms(1-3)]) (auto split: option.splits intro: assms simp: assms(4))

lemma wpv_rename_noreplace:
  assumes "later u v" and "\<And>w. later u w \<Longrightarrow> K w" and "\<And>w e. later u w \<Longrightarrow> F e w"
    and "\<And>w i. later u w \<Longrightarrow> find_entry u a = Some i \<Longrightarrow> find_entry u b = None \<Longrightarrow> Q () (put_entry b i (drop_entry a w))"
  shows "wpv (sys_rename_noreplace \<E> a b) Q F K v"
  unfolding sys_rename_noreplace_def
  by (rule wpv_do_call [OF assms(1-3)]) (auto split: option.splits if_splits intro: assms)

lemma wpv_persist:
  assumes "later u v" and "\<And>w. later u w \<Longrightarrow> K w" and "\<And>w e. later u w \<Longrightarrow> F e w"
    and "\<And>w i. later u w \<Longrightarrow> find_entry u a = Some i \<Longrightarrow> find_entry u b = None \<Longrightarrow> Q () (put_entry b i (drop_entry a w))"
    and "\<And>w i. later u w \<Longrightarrow> find_entry u a = Some i \<Longrightarrow> find_entry u b = None \<Longrightarrow> Q () (put_entry b i w)"
  shows "wpv (sys_persist_noclobber \<E> a b) Q F K v"
  unfolding sys_persist_noclobber_def
  by (rule wpv_do_call [OF assms(1-3)]) (auto split: option.splits if_splits persisting.splits intro: assms)

lemma wpv_names:
  assumes "later u v" and "\<And>w. later u w \<Longrightarrow> K w"
    and "\<And>w. later u w \<Longrightarrow> Q False w" and "\<And>w. later u w \<Longrightarrow> find_entry u p = Some h \<Longrightarrow> Q True w"
  shows "wpv (names \<E> p h) Q F K v"
  unfolding names_def both_meta_def wpv_bind wpv_try wpv_ret
proof (rule wpv_lstat [OF assms(1,2)], assumption)
  fix w e assume "later u w"
  then show "wpv (sys_fstat \<E> h) (\<lambda>b. Q (case Inl e of Inl _ \<Rightarrow> False | Inr l \<Rightarrow> case Inr b of Inl _ \<Rightarrow> False | Inr r \<Rightarrow> same_entry r l))
      (\<lambda>e'. Q (case Inl e of Inl _ \<Rightarrow> False | Inr l \<Rightarrow> case Inl e' of Inl _ \<Rightarrow> False | Inr r \<Rightarrow> same_entry r l)) K w"
    by (rule wpv_fstat [OF _ assms(2)]) (simp_all add: assms(3))
next
  fix w i assume w: "later u w" and i: "find_entry u p = Some i"
  show "wpv (sys_fstat \<E> h) (\<lambda>b. Q (case Inr (i, inodes u i) of Inl _ \<Rightarrow> False | Inr l \<Rightarrow> case Inr b of Inl _ \<Rightarrow> False | Inr r \<Rightarrow> same_entry r l))
      (\<lambda>e'. Q (case Inr (i, inodes u i) of Inl _ \<Rightarrow> False | Inr l \<Rightarrow> case Inl e' of Inl _ \<Rightarrow> False | Inr r \<Rightarrow> same_entry r l)) K w"
    using i by (intro wpv_fstat [OF w assms(2)]; cases "h = i") (simp_all add: same_entry_def is_link_def assms(3,4))
qed

lemma wpv_drop_copy:
  assumes "later u v" and "\<And>w. later u w \<Longrightarrow> K w" and "\<And>w. later u w \<Longrightarrow> Q () w"
    and "\<And>w. later u w \<Longrightarrow> find_entry u p = Some h \<Longrightarrow> Q () (drop_entry p w)"
  shows "wpv (drop_copy \<E> p h) Q F K v"
  unfolding drop_copy_def wpv_bind
  by (rule wpv_names [OF assms(1,2)]) (auto intro!: wpv_remove_file [of u] intro: assms)

lemma making_drop:
  "making v dest True w \<Longrightarrow> later w x \<Longrightarrow> making v dest False (drop_entry dest x)"
  by (auto simp: making_def frame_def later_fields dest: later_fields(6))

lemma making_refl:
  assumes "later v w" and "find_entry v dest = None"
  shows "making v dest True
    (put_entry dest (next_inode v) (set_node (next_inode v) (empty_node VFile) (w\<lparr>next_inode := Suc (next_inode v)\<rparr>)))"
  using assms by (auto simp: making_def frame_def later_fields empty_node_def dest: later_fields(6))

lemma wpv_create_file:
  assumes "later u v" and "\<And>w. later u w \<Longrightarrow> K w" and "\<And>w e. later u w \<Longrightarrow> F e w"
    and "\<And>w. find_entry u p = None \<Longrightarrow> making u p True w \<Longrightarrow> Q (next_inode u) w"
  shows "wpv (sys_create \<E> VFile p) Q F K v"
  unfolding sys_create_def
  by (rule wpv_do_call [OF assms(1-3)])
    (auto split: if_splits intro!: assms(4) making_refl simp: later_fields)

text \<open>A copy under a new name: it holds the bytes of its source, or the name is as good as untouched.\<close>

lemma wpv_copy_onto_new:
  assumes bs: "file_at v from = Some bs" and "from \<noteq> dest" and "sound v" and sha: "inj (sha256_of \<E>)"
    and ends: "\<And>x. later v x \<Longrightarrow> K x" "\<And>x e. later v x \<Longrightarrow> F e x"
      "\<And>x b. making v dest b x \<Longrightarrow> find_entry v dest = None \<Longrightarrow> K x" "\<And>x b e. making v dest b x \<Longrightarrow> find_entry v dest = None \<Longrightarrow> F e x"
      "\<And>x h i. making v dest True x \<Longrightarrow> find_entry v dest = None \<Longrightarrow> vdata (inodes x (next_inode v)) = bs \<Longrightarrow>
        find_entry v from = Some h \<Longrightarrow> Q (h, next_inode v, i) x"
  shows "wpv (copy_onto_new \<E> from dest) Q F K v"
  unfolding copy_onto_new_def wpv_bind wpv_other wpv_try
  apply (rule wpv_probe [OF later_refl ends(1,2)], assumption+)
  apply (rule wpv_open [OF _ ends(1,2)], assumption+)
  apply (rule wpv_create_file [OF _ ends(1,2)], assumption+)
  apply (rule wpv_fill_copy [OF _ assms(1-4)])
     apply (auto intro: ends intro!: wpv_drop_copy [OF later_refl] dest: making_later making_drop)
  done

section \<open>A move\<close>

definition ready :: "(nat \<Rightarrow> string) \<Rightarrow> 's volume_scheme \<Rightarrow> bool" where
  "ready us v \<longleftrightarrow> inj us \<and> sound v \<and> unguessed_names us v"

text \<open>The names a move may use: its two, and hidden names to come beside the source.\<close>

definition names_of_move :: "(nat \<Rightarrow> string) \<Rightarrow> nat \<Rightarrow> vpath \<Rightarrow> vpath \<Rightarrow> vpath set" where
  "names_of_move us c from dest = insert from (insert dest (asides_to_come us c (fst from)))"

text \<open>However a move ends, one of its names has the bytes, nothing else is touched, and what was at the destination is.\<close>

definition move_halted :: "(nat \<Rightarrow> string) \<Rightarrow> vpath \<Rightarrow> vpath \<Rightarrow> bytes \<Rightarrow> 's volume_scheme \<Rightarrow> 's volume_scheme \<Rightarrow> bool" where
  "move_halted us from dest bs v w \<longleftrightarrow>
     (\<exists>p \<in> names_of_move us (calls v) from dest. file_at w p = Some bs) \<and>
     frame (names_of_move us (calls v) from dest) {} v w \<and>
     (find_entry v dest \<noteq> None \<longrightarrow> find_entry w dest = find_entry v dest)"

definition move_done :: "(nat \<Rightarrow> string) \<Rightarrow> vpath \<Rightarrow> vpath \<Rightarrow> bytes \<Rightarrow> 's volume_scheme \<Rightarrow> 's volume_scheme \<Rightarrow> bool" where
  "move_done us from dest bs v w \<longleftrightarrow>
     find_entry v dest = None \<and> file_at w dest = Some bs \<and> frame (names_of_move us (calls v) from dest) {} v w"

definition moves_safely :: "venv \<Rightarrow> 's mover \<Rightarrow> bool" where
  "moves_safely \<E> mv \<longleftrightarrow> (\<forall>v from dest bs.
     ready (new_uuid \<E>) v \<longrightarrow> unguessed (new_uuid \<E>) (calls v) dest \<longrightarrow> from \<noteq> dest \<longrightarrow> file_at v from = Some bs \<longrightarrow>
     wpv (mv from dest) (\<lambda>_. move_done (new_uuid \<E>) from dest bs v) (\<lambda>_. move_halted (new_uuid \<E>) from dest bs v)
       (move_halted (new_uuid \<E>) from dest bs v) v)"

lemma ready_later: "ready us v \<Longrightarrow> later v w \<Longrightarrow> ready us w"
  by (simp add: ready_def sound_def unguessed_names_def later_fields(1-3)) (meson unguessed_later later_fields(6))

lemma later_file: "later v w \<Longrightarrow> file_at w = file_at v"
  by (rule ext) simp

lemma wpv_mover:
  assumes "moves_safely \<E> mv" and "later u v" and "ready (new_uuid \<E>) u" and "unguessed (new_uuid \<E>) (calls u) dest"
    and "from \<noteq> dest" and "file_at u from = Some bs"
    and "\<And>w a. file_at w dest = Some bs \<Longrightarrow> frame (names_of_move (new_uuid \<E>) (calls u) from dest) {} u w \<Longrightarrow> Q a w"
    and "\<And>w e p. p \<in> names_of_move (new_uuid \<E>) (calls u) from dest \<Longrightarrow> file_at w p = Some bs \<Longrightarrow>
      frame (names_of_move (new_uuid \<E>) (calls u) from dest) {} u w \<Longrightarrow> F e w \<and> K w"
  shows "wpv (mv from dest) Q F K v"
proof -
  have names: "names_of_move (new_uuid \<E>) (calls v) from dest \<subseteq> names_of_move (new_uuid \<E>) (calls u) from dest"
    using asides_later [OF later_fields(6) [OF assms(2)]] by (auto simp: names_of_move_def)
  have frame: "frame (names_of_move (new_uuid \<E>) (calls u) from dest) {} u w"
    if "frame (names_of_move (new_uuid \<E>) (calls v) from dest) {} v w" for w
    using frame_trans [OF later_frame [OF assms(2)] that names] by simp
  have "wpv (mv from dest) (\<lambda>_. move_done (new_uuid \<E>) from dest bs v) (\<lambda>_. move_halted (new_uuid \<E>) from dest bs v)
       (move_halted (new_uuid \<E>) from dest bs v) v"
    using assms(1-6) ready_later [OF assms(3,2)] unguessed_later [OF assms(4) later_fields(6) [OF assms(2)]]
    by (simp add: moves_safely_def)
  then show ?thesis
    by (rule wpv_mono) (use names in \<open>auto simp: move_done_def move_halted_def dest!: frame intro: assms(7) assms(8) [THEN conjunct1] assms(8) [THEN conjunct2]\<close>)
qed

text \<open>The end of a verified copy: the source, moved aside, is unlinked or put back.\<close>

lemma wpv_unlink_aside:
  assumes mv: "moves_safely \<E> mv" and ready: "ready (new_uuid \<E>) u" and "later u v"
    and hidden: "file_at u aside = Some bs" and copy: "file_at u dest = Some bs"
    and names: "unguessed (new_uuid \<E>) (calls u) from" "aside \<noteq> from" "fst aside = fst from" "dest \<noteq> from" "dest \<noteq> aside"
      "unguessed (new_uuid \<E>) (calls u) dest"
    and S: "S = insert dest (names_of_move (new_uuid \<E>) (calls u) aside from)"
    and Q: "\<And>w a. file_at w dest = Some bs \<Longrightarrow> frame S {} u w \<Longrightarrow> Q a w"
    and F: "\<And>w e p. p \<in> S \<Longrightarrow> file_at w p = Some bs \<Longrightarrow> frame S {} u w \<Longrightarrow> F e w"
    and K: "\<And>w p. p \<in> S \<Longrightarrow> file_at w p = Some bs \<Longrightarrow> frame S {} u w \<Longrightarrow> K w"
  shows "wpv (unlink_aside \<E> mv from dest aside (source, created, i)) Q F K v"
proof -
  let ?N = "names_of_move (new_uuid \<E>) (calls u) aside from"
  have S': "?N \<subseteq> S" "aside \<in> S" "dest \<in> S" "from \<in> S" using S by (auto simp: names_of_move_def)
  have away: "dest \<notin> ?N"
    using names by (auto simp: names_of_move_def asides_to_come_def unguessed_def)
  have s: "sound u" using ready by (simp add: ready_def)
  have dest: "file_at w dest = Some bs" if "frame ?N {} u w" for w
    using file_at_frame [OF that away copy s] .
  have SN: "frame S {} u w" if "frame ?N {} u w" for w
    using frame_mono [OF that S'(1)] by simp
  have K': "K w" if "later u w" for w
    using K [of aside w] S' that hidden by (simp add: later_frame)
  have drop: "frame S {} u (drop_entry p w)" if "frame S {} u w" "p \<in> S" for p w
    using that by (auto simp: frame_def)
  have file_drop: "file_at (drop_entry p w) q = file_at w q" if "p \<noteq> q" for p q and w :: "'a volume_scheme"
    using that by (simp add: file_at_def split: option.split)
  note put_back = wpv_mover [OF mv _ ready names(1,2) hidden]
  show ?thesis
    unfolding unlink_aside_def prod.case wpv_bind
  proof (rule wpv_names [OF assms(3) K'], assumption)
    fix w assume w: "later u w"
    show "wpv (if \<not> False then v_bind (other (mv aside from)) (\<lambda>_. v_ret i)
        else v_bind (v_try (sys_remove_file \<E> aside)) (\<lambda>removed. case removed of
           Inl e \<Rightarrow> v_bind (other (mv aside from)) (\<lambda>_. v_bind (drop_copy \<E> dest created) (\<lambda>_. v_err e))
         | Inr _ \<Rightarrow> v_bind (v_ignore (sync_folder \<E>)) (\<lambda>_. v_ret i))) Q F K w"
      unfolding not_False_eq_True if_True wpv_bind wpv_other wpv_ret
      by (rule put_back [OF w]) (use S' in \<open>auto intro: Q F K dest SN\<close>)
  next
    fix w assume w: "later u w"
    show "wpv (if \<not> True then v_bind (other (mv aside from)) (\<lambda>_. v_ret i)
        else v_bind (v_try (sys_remove_file \<E> aside)) (\<lambda>removed. case removed of
           Inl e \<Rightarrow> v_bind (other (mv aside from)) (\<lambda>_. v_bind (drop_copy \<E> dest created) (\<lambda>_. v_err e))
         | Inr _ \<Rightarrow> v_bind (v_ignore (sync_folder \<E>)) (\<lambda>_. v_ret i))) Q F K w"
      unfolding not_True_eq_False if_False wpv_bind wpv_try sum.case
    proof (rule wpv_remove_file [OF w K'], assumption)
      fix x e assume x: "later u x"
      show "wpv (other (mv aside from)) (\<lambda>_. wpv (drop_copy \<E> dest created) (\<lambda>_. wpv (v_err e) Q F K) F K) F K x"
        unfolding wpv_other
      proof (rule put_back [OF x])
        fix y a assume y: "file_at y from = Some bs" "frame ?N {} u y"
        have "file_at z from = Some bs \<and> frame S {} u z" if "later y z" for z
          using that y SN frame_trans [OF SN [OF y(2)] later_frame [OF that, of "{}" "{}"]] by simp
        then have "K z" "F e z" "F e (drop_entry dest z)" if "later y z" for z
          using that K [of "from" z] F [of "from" z e] F [of "from" "drop_entry dest z" e] S' drop [of z dest] file_drop names(4) by auto
        then show "wpv (drop_copy \<E> dest created) (\<lambda>_. wpv (v_err e) Q F K) F K y"
          by (intro wpv_drop_copy [OF later_refl]) simp_all
      qed (use S' in \<open>auto intro: F K SN\<close>)
    next
      fix x j assume x: "later u x"
      have "file_at y dest = Some bs \<and> frame S {} u y" if "later (drop_entry aside x) y" for y
        using that x copy names(5) drop [OF later_frame [OF x] S'(2)]
          frame_trans [OF drop [OF later_frame [OF x] S'(2)] later_frame [OF that, of "{}" "{}"]] by (simp add: file_drop)
      then show "wpv (v_ignore (sync_folder \<E>)) (\<lambda>_. wpv (v_ret i) Q F K) F K (drop_entry aside x)"
        unfolding wpv_ignore wpv_ret
        by (intro wpv_skip [OF reads_sync_folder later_refl]) (use S' in \<open>auto intro: K Q\<close>)
    qed
  qed
qed

lemma file_put: "file_at (put_entry p i w) q = (if q = p then (if vkind (inodes w i) = VFile then Some (vdata (inodes w i)) else None) else file_at w q)"
  by (simp add: file_at_def split: option.split)

lemma file_drop: "file_at (drop_entry p w) q = (if q = p then None else file_at w q)"
  by (simp add: file_at_def split: option.split)

lemma file_at_SomeD: "file_at v p = Some bs \<Longrightarrow> \<exists>i. find_entry v p = Some i \<and> vkind (inodes v i) = VFile \<and> vdata (inodes v i) = bs"
  by (auto simp: file_at_def split: option.splits if_splits)

text \<open>The state between the copy and the end of its source.\<close>

lemma set_aside_ready:
  assumes r: "ready us v" and "unguessed us (calls v) dest" and m: "making v dest True w" and "later w x" and "calls w < calls x"
    and src: "find_entry v from = Some h"
  shows "ready us (put_entry (fst from, aside_name_of (us (calls w))) h (drop_entry from x))"
proof -
  have calls: "calls v \<le> calls w" using m by (simp add: making_def frame_def)
  have nxt: "next_inode x = Suc (next_inode v)" "h < next_inode v"
    using m assms(4) r src by (auto simp: making_def later_fields ready_def sound_def)
  have find: "find_entry x p = (if p = dest then Some (next_inode v) else find_entry v p)" for p
    using m assms(4) by (auto simp: making_def frame_def)
  have far: "us n \<noteq> us (calls w)" if "calls x \<le> n" for n
    using that assms(5) r by (auto simp: ready_def inj_eq)
  let ?a = "(fst from, aside_name_of (us (calls w)))"
  let ?u = "put_entry ?a h (drop_entry from x)"
  have find_u: "find_entry ?u p = (if p = ?a then Some h else if p = from then None else find_entry x p)" for p
    by simp
  have "i < next_inode ?u" if "find_entry ?u p = Some i" for p i
    using that nxt r unfolding find_u by (auto simp: find ready_def sound_def less_Suc_eq split: if_splits)
  moreover have "unguessed us (calls ?u) p" if "find_entry ?u p \<noteq> None" for p
  proof (cases "p = ?a")
    case True
    then show ?thesis unfolding unguessed_def using far [symmetric] by (simp del: not_all) 
  next
    case False
    then have "unguessed us (calls v) p"
      using that r assms(2) unfolding find_u find by (auto simp: ready_def unguessed_names_def split: if_splits)
    then show ?thesis using calls assms(5) by (auto intro: unguessed_later)
  qed
  ultimately show ?thesis using r by (auto simp: ready_def sound_def unguessed_names_def)
qed

lemma wpv_remove_source:
  assumes mv: "moves_safely \<E> mv" and r: "ready (new_uuid \<E>) v" and dest: "unguessed (new_uuid \<E>) (calls v) dest"
    and "from \<noteq> dest" and bs: "file_at v from = Some bs" and free: "find_entry v dest = None"
    and m: "making v dest True w" "vdata (inodes w (next_inode v)) = bs"
    and Q: "\<And>x a. move_done (new_uuid \<E>) from dest bs v x \<Longrightarrow> Q a x"
    and F: "\<And>x e. move_halted (new_uuid \<E>) from dest bs v x \<Longrightarrow> F e x" and K: "\<And>x. move_halted (new_uuid \<E>) from dest bs v x \<Longrightarrow> K x"
  shows "wpv (remove_source \<E> mv from dest (source, created, i)) Q F K w"
proof -
  let ?us = "new_uuid \<E>"
  let ?S = "names_of_move ?us (calls v) from dest"
  define aside where "aside = (fst from, aside_name_of (?us (calls w)))"
  have in_S: "from \<in> ?S" "dest \<in> ?S" by (simp_all add: names_of_move_def)
  have s: "sound v" using r by (simp add: ready_def)
  have calls: "calls v \<le> calls w" using m by (simp add: making_def frame_def)
  obtain h where h: "find_entry v from = Some h" using bs file_at_SomeD by blast
  have src: "file_at w from = Some bs" and copy: "file_at w dest = Some bs"
    using making_file [OF m(1) bs s assms(4)] making_dest [OF m(1)] m(2) by simp_all
  have frame_w: "frame ?S {} v x" if "later w x" for x
    using m(1) that by (auto simp: making_def names_of_move_def intro: frame_trans [OF frame_mono later_frame [of _ _ "{}" "{}"]])
  have here: "move_halted ?us from dest bs v x" if "later w x" for x
    using that src in_S frame_w free by (auto simp: move_halted_def)
  have gone: "find_entry w aside = None"
  proof (rule ccontr)
    assume taken: "find_entry w aside \<noteq> None"
    have "unguessed ?us (calls v) aside"
      using taken m r dest by (cases "aside = dest") (auto simp: making_def frame_def ready_def unguessed_names_def)
    then show False using calls by (auto simp: unguessed_def aside_def)
  qed
  show ?thesis
    unfolding remove_source_def aside_of_def wpv_bind wpv_now wpv_ret wpv_try fst_conv snd_conv aside_def [symmetric] sum.case
  proof (rule wpv_rename_free [OF later_refl _ _ gone])
    fix x assume "later w x" then show "K x" by (rule K [OF here])
  next
    fix x e assume x: "later w x"
    have "wpv (drop_copy \<E> dest created) (\<lambda>_. F e) F K x"
    proof (rule wpv_drop_copy [OF x])
      fix y assume y: "later w y"
      then have "frame ?S {} v (drop_entry dest y)" "file_at (drop_entry dest y) from = Some bs"
        using frame_w [OF y] in_S src assms(4) by (auto simp: frame_def file_drop)
      then show "F e (drop_entry dest y)" using in_S free by (intro F) (auto simp: move_halted_def)
    qed (auto intro: K F here)
    moreover have "Q i x" if "e = NotFound"
      using Q [of x i] free copy frame_w [OF x] x by (simp add: move_done_def)
    ultimately show "wpv (if e = NotFound then v_ret i else v_bind (drop_copy \<E> dest created) (\<lambda>_. v_err e)) Q F K x"
      by simp
  next
    fix x j assume x: "later w x" "calls w < calls x" and j: "find_entry w from = Some j"
    let ?u = "put_entry aside j (drop_entry from x)"
    have jh: "j = h" using j m(1) h assms(4) by (auto simp: making_def frame_def)
    have apart: "aside \<noteq> from" "aside \<noteq> dest" using gone j copy by (auto simp: file_at_def)
    have r_u: "ready ?us ?u" unfolding aside_def jh by (rule set_aside_ready [OF r dest m(1) x h])
    have u_aside: "file_at ?u aside = Some bs"
      using src j x by (auto simp: file_put file_at_def split: if_splits)
    have u_copy: "file_at ?u dest = Some bs"
      using copy x apart assms(4) by (simp add: file_put file_drop)
    let ?T = "insert dest (names_of_move ?us (calls x) aside from)"
    have sub: "?T \<subseteq> ?S"
      using asides_later [of "calls v" "calls x" ?us "fst from"] calls x(2)
      by (auto simp: names_of_move_def aside_def asides_to_come_def)
    have frame_u: "frame ?S {} v ?u"
      using frame_w [OF x(1)] sub in_S by (auto simp: frame_def names_of_move_def)
    have un: "unguessed ?us (calls ?u) from" "unguessed ?us (calls ?u) dest"
      using unguessed_later [of ?us "calls v" _ "calls x"] r h dest calls x(2)
      by (auto simp: ready_def unguessed_names_def)
    have ends: "frame ?S {} v y" if "frame ?T {} ?u y" for y
      using frame_trans [OF frame_u that] sub by simp
    show "wpv (unlink_aside \<E> mv from dest aside (source, created, i)) Q F K ?u"
      by (rule wpv_unlink_aside [OF mv r_u later_refl u_aside u_copy un(1)])
        (use apart assms(4) un sub free ends in \<open>auto simp: aside_def [symmetric] intro!: Q F K simp: move_done_def move_halted_def\<close>,
         auto simp: aside_def)
  qed
qed

lemma moved_done:
  assumes "later v w" and "file_at v from = Some bs" and "find_entry v from = Some i" and "find_entry v dest = None"
  shows "move_done us from dest bs v (put_entry dest i (drop_entry from w))" "move_done us from dest bs v (put_entry dest i w)"
  using assms
  by (auto simp: move_done_def file_put file_at_def frame_def names_of_move_def later_fields split: if_splits dest: later_fields(6))

lemma move_later:
  assumes w: "later v w"
  shows "move_done us from dest bs w x \<Longrightarrow> move_done us from dest bs v x"
    and "move_halted us from dest bs w x \<Longrightarrow> move_halted us from dest bs v x"
proof -
  have sub: "names_of_move us (calls w) from dest \<subseteq> names_of_move us (calls v) from dest"
    using asides_later [OF later_fields(6) [OF w]] by (auto simp: names_of_move_def)
  have fr: "frame (names_of_move us (calls v) from dest) {} v x" if "frame (names_of_move us (calls w) from dest) {} w x" for x
    using frame_trans [OF later_frame [OF w] that sub] by simp
  show "move_done us from dest bs w x \<Longrightarrow> move_done us from dest bs v x"
    using fr w by (auto simp: move_done_def)
  show "move_halted us from dest bs w x \<Longrightarrow> move_halted us from dest bs v x"
    using sub fr w by (auto simp: move_halted_def)
qed

definition moves_from :: "venv \<Rightarrow> vpath \<Rightarrow> vpath \<Rightarrow> bytes \<Rightarrow> 's volume_scheme \<Rightarrow> bool" where
  "moves_from \<E> from dest bs v \<longleftrightarrow>
     ready (new_uuid \<E>) v \<and> unguessed (new_uuid \<E>) (calls v) dest \<and> from \<noteq> dest \<and> file_at v from = Some bs"

definition moves_right :: "venv \<Rightarrow> vpath \<Rightarrow> vpath \<Rightarrow> bytes \<Rightarrow> 's volume_scheme \<Rightarrow> ('s, vio_error, 'a) vrun \<Rightarrow> 's volume_scheme \<Rightarrow> bool" where
  "moves_right \<E> from dest bs v m w \<longleftrightarrow>
     wpv m (\<lambda>_. move_done (new_uuid \<E>) from dest bs v) (\<lambda>_. move_halted (new_uuid \<E>) from dest bs v)
       (move_halted (new_uuid \<E>) from dest bs v) w"

lemma moves_from_later: "moves_from \<E> from dest bs v \<Longrightarrow> later v w \<Longrightarrow> moves_from \<E> from dest bs w"
  by (auto simp: moves_from_def intro: ready_later unguessed_later dest: later_fields(6))

lemma moves_right_later: "moves_right \<E> from dest bs w m w \<Longrightarrow> later v w \<Longrightarrow> moves_right \<E> from dest bs v m w"
  unfolding moves_right_def by (erule wpv_mono) (auto intro: move_later)

lemma moves_safely_iff:
  "moves_safely \<E> mv \<longleftrightarrow> (\<forall>v from dest bs. moves_from \<E> from dest bs v \<longrightarrow> moves_right \<E> from dest bs v (mv from dest) v)"
  unfolding moves_safely_def moves_from_def moves_right_def by blast

lemma halted_still: "moves_from \<E> from dest bs v \<Longrightarrow> later v w \<Longrightarrow> move_halted (new_uuid \<E>) from dest bs v w"
  by (auto simp: moves_from_def move_halted_def names_of_move_def later_frame)

lemma moves_by_copy:
  assumes mv: "moves_safely \<E> mv" and sha: "inj (sha256_of \<E>)" and v: "moves_from \<E> from dest bs v"
  shows "moves_right \<E> from dest bs v
    (v_bind (copy_onto_new \<E> from dest) (\<lambda>copied. v_bind (remove_source \<E> mv from dest copied) (\<lambda>i. v_ret (MovedCopied i)))) v"
proof -
  note r = v [unfolded moves_from_def, THEN conjunct1]
    and dest = v [unfolded moves_from_def, THEN conjunct2, THEN conjunct1]
    and ne = v [unfolded moves_from_def, THEN conjunct2, THEN conjunct2, THEN conjunct1]
    and bs = v [unfolded moves_from_def, THEN conjunct2, THEN conjunct2, THEN conjunct2]
  have s: "sound v" using r by (simp add: ready_def)
  have mid: "move_halted (new_uuid \<E>) from dest bs v x" if "making v dest b x" "find_entry v dest = None" for b x
    using that making_file [OF that(1) bs s ne] by (auto simp: move_halted_def making_def names_of_move_def intro: frame_mono)
  show ?thesis
    unfolding moves_right_def wpv_bind wpv_ret
    by (rule wpv_copy_onto_new [OF bs ne s sha])
      (auto intro: halted_still [OF v] mid intro!: wpv_remove_source [OF mv r dest ne bs])
qed

lemma wpv_without_noreplace:
  assumes mv: "moves_safely \<E> mv" and sha: "inj (sha256_of \<E>)"
  shows "moves_safely \<E> (without_noreplace \<E> mv)"
  unfolding moves_safely_iff
proof (intro allI impI)
  fix v :: "'a volume_scheme" and src dest bs
  assume v: "moves_from \<E> src dest bs v"
  have bs: "file_at v src = Some bs" using v by (simp add: moves_from_def)
  obtain i where i: "find_entry v src = Some i" "vkind (inodes v i) = VFile" using file_at_SomeD [OF bs] by blast
  note stays = halted_still [OF v] and moved = moved_done [OF _ bs i(1)]
  have copying: "moves_right \<E> src dest bs v (v_bind (copy_onto_new \<E> src dest) (\<lambda>copied.
      v_bind (remove_source \<E> mv src dest copied) (\<lambda>i. v_ret (MovedCopied i)))) w" if "later v w" for w
    by (rule moves_right_later [OF moves_by_copy [OF mv sha moves_from_later [OF v that]] that])
  show "moves_right \<E> src dest bs v (without_noreplace \<E> mv src dest) v"
    unfolding without_noreplace_def moves_right_def
    apply (subst wpv_bind)
    apply (rule wpv_lstat [OF later_refl stays stays], assumption+)
    using i apply (simp del: wpv_if wpv_bind)
    apply (subst wpv_bind, subst wpv_try)
    apply (rule wpv_persist [OF _ stays], assumption+)
      apply (use copying in \<open>auto simp: moves_right_def simp del: wpv_bind intro: stays moved\<close>)
    done
qed

theorem moves_safely_move: "inj (sha256_of \<E>) \<Longrightarrow> moves_safely \<E> (move_noreplace \<E> n)"
proof (induction n)
  case 0
  show ?case by (auto simp: moves_safely_iff moves_right_def intro: halted_still)
next
  case (Suc n)
  note sub = wpv_without_noreplace [OF Suc.IH [OF Suc.prems] Suc.prems]
  show ?case
    unfolding moves_safely_iff
  proof (intro allI impI)
    fix v :: "'a volume_scheme" and src dest bs
    assume v: "moves_from \<E> src dest bs v"
    have bs: "file_at v src = Some bs" using v by (simp add: moves_from_def)
    obtain i where i: "find_entry v src = Some i" using file_at_SomeD [OF bs] by blast
    note stays = halted_still [OF v] and moved = moved_done [OF _ bs i]
    have again: "moves_right \<E> src dest bs v (without_noreplace \<E> (move_noreplace \<E> n) src dest) w" if "later v w" for w
      using sub moves_from_later [OF v that] by (intro moves_right_later [OF _ that]) (simp add: moves_safely_iff)
    show "moves_right \<E> src dest bs v (move_noreplace \<E> (Suc n) src dest) v"
      unfolding move_noreplace.simps moves_right_def
      apply (subst wpv_bind, subst wpv_try)
      apply (rule wpv_rename_noreplace [OF later_refl stays], assumption)
       apply (use again i in \<open>auto simp: moves_right_def simp del: wpv_bind intro: stays moved\<close>)
      done
  qed
qed

lemma file_at_same:
  assumes "find_entry w p = find_entry v p" and f: "frame S {} v w" and s: "sound v"
  shows "file_at w p = file_at v p"
proof (cases "find_entry v p")
  case (Some i)
  then have "i < next_inode v" using s by (auto simp: sound_def)
  then have "inodes w i = inodes v i" using f by (simp add: frame_def)
  then show ?thesis using assms(1) Some by (simp add: file_at_def)
qed (use assms(1) in \<open>simp add: file_at_def\<close>)

end
