(* ===== verification/StorageLaws.thy ===== *)
theory StorageLaws
  imports TransferLaws
begin

text \<open>
  What a step of a storage operation does to the rows of its items and to the Trash: properties that no
  call of a transfer touches are kept by every transfer, the changes the executor records are the ones the
  journal takes, and an entry goes to the Trash only after what it depends on has been read again.
\<close>

section \<open>Properties kept by every transfer\<close>

text \<open>
  The calls a transfer makes, without the Trash. A property each of them keeps is kept by whatever is
  made of them.
\<close>

locale call_invariant =
  fixes \<E> :: venv and P :: "'s volume_scheme \<Rightarrow> bool"
  assumes time: "stable P"
    and create: "keeps P (sys_create \<E> k p)"
    and append_bytes: "keeps P (sys_write \<E> h bs)"
    and truncate: "keeps P (sys_truncate \<E> h)"
    and set_modified: "keeps P (sys_set_modified \<E> h t)"
    and setxattr: "keeps P (sys_setxattr \<E> h a x)"
    and remove_file: "keeps P (sys_remove_file \<E> p)"
    and remove_dir: "keeps P (sys_remove_dir \<E> p)"
    and rename: "keeps P (sys_rename \<E> p q)"
    and rename_noreplace: "keeps P (sys_rename_noreplace \<E> p q)"
    and persist: "keeps P (sys_persist_noclobber \<E> p q)"
begin

lemmas calls_keep = create append_bytes truncate set_modified setxattr remove_file remove_dir rename rename_noreplace persist

lemma observes: "reads m \<Longrightarrow> keeps P m"
  by (rule keeps_reads [OF time])

lemma v_ok: "keeps P m \<Longrightarrow> keeps P (v_ok m)"
  unfolding v_ok_def by (intro keeps_rules)

lemma v_ignore: "keeps P m \<Longrightarrow> keeps P (v_ignore m)"
  unfolding v_ignore_def by (intro keeps_rules)

lemmas try_ok = v_ok v_ignore

lemma discard: "keeps P (discard \<E> p i)"
  unfolding discard_def by (intro keeps_rules try_ok calls_keep observes reads_rules)

lemma drop_copy: "keeps P (drop_copy \<E> p h)"
  unfolding drop_copy_def by (intro keeps_rules try_ok calls_keep observes reads_rules)

lemma remove_unfinished_copy: "keeps P (remove_unfinished_copy \<E> p q)"
  unfolding remove_unfinished_copy_def Let_def
  by (intro keeps_rules try_ok calls_keep; (intro observes reads_rules)?)

lemma settle: "keeps P (settle_file \<E> h ns)"
  by (rule keeps_settle_file [OF time set_modified])

lemma read: "(\<And>bs. keeps P (sink bs)) \<Longrightarrow> keeps P (read_unchanged \<E> p e sink)"
  by (rule keeps_read_unchanged [OF time])

lemma fill_copy: "keeps P (fill_copy \<E> p q f h k)"
  unfolding fill_copy_def
  by (intro keeps_rules read settle keeps_carry_xattrs time calls_keep observes reads_rules)

lemma copy_onto_new: "keeps P (copy_onto_new \<E> p q)"
  unfolding copy_onto_new_def
  by (intro keeps_rules fill_copy drop_copy calls_keep observes reads_rules)

lemma over_placeholder: "keeps P (over_placeholder \<E> p q h)"
  unfolding over_placeholder_def
  by (intro keeps_rules try_ok calls_keep observes reads_rules)

lemma without_noreplace:
  assumes "\<And>p q. keeps P (mv p q)"
  shows "keeps P (without_noreplace \<E> mv p q)"
  unfolding without_noreplace_def remove_source_def unlink_aside_def aside_of_def
  by (intro keeps_rules try_ok calls_keep copy_onto_new over_placeholder drop_copy assms; (intro observes reads_rules)?)

lemma move: "keeps P (move_noreplace \<E> n p q)"
proof (induction n arbitrary: p q)
  case 0
  show ?case by (simp add: keeps_def v_die_def)
next
  case (Suc n)
  show ?case by (simp, intro keeps_rules calls_keep without_noreplace Suc.IH)
qed

lemma begin_copy: "keeps P (begin_transfer \<E> op n p)"
  unfolding begin_transfer_def
  by (intro keeps_rules calls_keep; (intro observes reads_rules)?)

lemma fill_partial:
  assumes "\<And>h. keeps P (fill h)"
  shows "keeps P (fill_partial \<E> w ns fill)"
  unfolding fill_partial_def open_partial_def
  by (intro keeps_rules calls_keep settle discard assms observes reads_rules)

lemma fill_from_source: "keeps P (fill_from_source \<E> s w)"
  unfolding fill_from_source_def by (intro keeps_rules fill_partial read calls_keep)

lemma install: "keeps P (install_partial \<E> n p w)"
  unfolding install_partial_def
  by (intro keeps_rules move discard remove_unfinished_copy) (auto intro!: keeps_rules intro: observes reads_rules split: moved_how.split)

lemma transfer: "keeps P (write_transfer \<E> n s p w)"
  unfolding write_transfer_def
  by (intro keeps_rules discard fill_from_source install observes reads_rules)

end

lemma keeps_call:
  assumes "stable P" and "\<And>v a w. P v \<Longrightarrow> f v = Inr (a, w) \<Longrightarrow> P w"
  shows "keeps P (call \<E> f)"
  unfolding keeps_def
proof (intro allI impI)
  fix v assume v: "P v"
  then have "P (v\<lparr>calls := Suc (calls v)\<rparr>)" using assms(1) later_step unfolding stable_def by blast
  then show "P (snd (call \<E> f v))"
    using v assms(2) by (auto simp: call_def Let_def split: option.split sum.split)
qed

text \<open>The Trash, and what extends a volume, are nothing a transfer touches.\<close>

lemma stable_fields: "stable (\<lambda>v. trash_bin v = t)" "stable (\<lambda>v. volume.more v = m)"
  by (auto simp: stable_def later_fields)

definition touches_neither :: "('s, vio_error, 'a) vrun \<Rightarrow> bool" where
  "touches_neither m \<longleftrightarrow> (\<forall>v. trash_bin (snd (m v)) = trash_bin v \<and> volume.more (snd (m v)) = volume.more v)"

lemma touches_call:
  assumes "\<And>v a w. f v = Inr (a, w) \<Longrightarrow> trash_bin w = trash_bin v \<and> volume.more w = volume.more v"
  shows "touches_neither (call \<E> f)"
  unfolding touches_neither_def
proof
  fix v
  show "trash_bin (snd (call \<E> f v)) = trash_bin v \<and> volume.more (snd (call \<E> f v)) = volume.more v"
    using assms [of "v\<lparr>calls := Suc (calls v)\<rparr>"]
    by (auto simp add: call_def Let_def split: option.split sum.split)
qed

lemma touches_sys_create: "touches_neither (sys_create \<E> k p)"
  unfolding sys_create_def by (rule touches_call) (auto split: option.splits if_splits persisting.splits)

lemma touches_sys_write: "touches_neither (sys_write \<E> h bs)"
  unfolding sys_write_def by (rule touches_call) (auto split: option.splits if_splits persisting.splits)

lemma touches_sys_truncate: "touches_neither (sys_truncate \<E> h)"
  unfolding sys_truncate_def by (rule touches_call) (auto split: option.splits if_splits persisting.splits)

lemma touches_sys_set_modified: "touches_neither (sys_set_modified \<E> h t)"
  unfolding sys_set_modified_def by (rule touches_call) (auto split: option.splits if_splits persisting.splits)

lemma touches_sys_setxattr: "touches_neither (sys_setxattr \<E> h a x)"
  unfolding sys_setxattr_def by (rule touches_call) (auto split: option.splits if_splits persisting.splits)

lemma touches_sys_remove_file: "touches_neither (sys_remove_file \<E> p)"
  unfolding sys_remove_file_def by (rule touches_call) (auto split: option.splits if_splits persisting.splits)

lemma touches_sys_remove_dir: "touches_neither (sys_remove_dir \<E> p)"
  unfolding sys_remove_dir_def by (rule touches_call) (auto split: option.splits if_splits persisting.splits)

lemma touches_sys_rename: "touches_neither (sys_rename \<E> p q)"
  unfolding sys_rename_def
  by (rule touches_call) (auto split: if_splits option.splits)

lemma touches_sys_rename_noreplace: "touches_neither (sys_rename_noreplace \<E> p q)"
  unfolding sys_rename_noreplace_def by (rule touches_call) (auto split: option.splits if_splits persisting.splits)

lemma touches_sys_persist_noclobber: "touches_neither (sys_persist_noclobber \<E> p q)"
  unfolding sys_persist_noclobber_def
  by (rule touches_call, rename_tac v a w, case_tac "persists_at \<E> (calls v)") (auto split: option.splits if_splits)

lemmas touches_neither_sys = touches_sys_create touches_sys_write touches_sys_truncate touches_sys_set_modified
  touches_sys_setxattr touches_sys_remove_file touches_sys_remove_dir touches_sys_rename touches_sys_rename_noreplace touches_sys_persist_noclobber

lemma keeps_fields:
  assumes "touches_neither m"
  shows "keeps (\<lambda>v. trash_bin v = t) m" "keeps (\<lambda>v. volume.more v = r) m"
  using assms by (auto simp: touches_neither_def keeps_def)

interpretation bin: call_invariant \<E> "\<lambda>v. trash_bin v = t" for \<E> t
  by unfold_locales (rule stable_fields | rule keeps_fields, rule touches_neither_sys)+

interpretation rows: call_invariant \<E> "\<lambda>v. volume.more v = m" for \<E> m
  by unfold_locales (rule stable_fields | rule keeps_fields, rule touches_neither_sys)+

section \<open>What a re-reading proves\<close>

definition has_digest :: "venv \<Rightarrow> 's volume_scheme \<Rightarrow> vpath \<Rightarrow> string option \<Rightarrow> bool" where
  "has_digest \<E> v p sha \<longleftrightarrow> (\<exists>bs. file_at v p = Some bs \<and> Some (sha256_of \<E> bs) = sha)"

definition link_reads_target :: "'s volume_scheme \<Rightarrow> vpath \<Rightarrow> bytes \<Rightarrow> bool" where
  "link_reads_target v p target \<longleftrightarrow> (\<exists>i. find_entry v p = Some i \<and> vkind (inodes v i) = VLink \<and> vdata (inodes v i) = target)"

definition is_reviewed :: "venv \<Rightarrow> entry_evidence \<Rightarrow> 's volume_scheme \<Rightarrow> bool" where
  "is_reviewed \<E> s v \<longleftrightarrow>
    (case evidence_kind s of
       EntryFile \<Rightarrow> has_digest \<E> v (evidence_path s) (evidence_sha256 s)
     | EntryLink target \<Rightarrow> link_reads_target v (evidence_path s) target)"

lemma reviewed_later [simp]:
  "later u v \<Longrightarrow> has_digest \<E> v p sha = has_digest \<E> u p sha"
  "later u v \<Longrightarrow> is_reviewed \<E> s v = is_reviewed \<E> s u"
  by (simp_all add: has_digest_def is_reviewed_def link_reads_target_def split: entry_kind.split)

lemma wpv_read_proof:
  assumes "later u v"
    and "\<And>w. later u w \<Longrightarrow> K w" and "\<And>w e. later u w \<Longrightarrow> F e w"
    and "\<And>w d. later u w \<Longrightarrow> has_digest \<E> u p (Some d) \<Longrightarrow> Q d w"
  shows "wpv (read_unchanged \<E> p e no_sink) Q F K v"
  by (rule wpv_with [OF wpv_read_digest keeps_reads [OF stable_later [of u] reads_read_unchanged] assms(1)])
    (use assms in \<open>auto simp: has_digest_def\<close>)

lemma wpv_verify_bytes:
  assumes "later u v"
    and "\<And>w. later u w \<Longrightarrow> K w" and "\<And>w e. later u w \<Longrightarrow> F e w" and "\<And>w. later u w \<Longrightarrow> has_digest \<E> u dest sha \<Longrightarrow> Q () w"
  shows "wpv (verify_bytes \<E> dest c n sha) Q F K v"
  unfolding verify_bytes_def wpv_bind
  by (rule wpv_skip [OF reads_holds_entry assms(1)]) (auto intro: assms intro!: wpv_read_proof [of u])

lemma wpv_verify_transfer:
  assumes "later u v" and "\<And>w. later u w \<Longrightarrow> K w" and "\<And>w e. later u w \<Longrightarrow> F e w"
    and "\<And>w. later u w \<Longrightarrow> has_digest \<E> u dest (evidence_sha256 s) \<Longrightarrow> Q () w"
  shows "wpv (verify_transfer \<E> s dest c) Q F K v"
  unfolding verify_transfer_def by (rule wpv_verify_bytes [OF assms(1)]) (use assms in auto)

lemma wpv_verify_kept:
  assumes "later u v" and "\<And>w. later u w \<Longrightarrow> K w" and "\<And>w e. later u w \<Longrightarrow> F e w"
    and "\<And>w. later u w \<Longrightarrow> has_digest \<E> u (kept_path k) (Some (kept_sha256 k)) \<Longrightarrow> Q () w"
  shows "wpv (verify_kept \<E> k) Q F K v"
  unfolding verify_kept_def wpv_bind wpv_map_err
  by (rule wpv_read_proof [OF assms(1)]) (auto intro: assms)

lemma wpv_verify_all_kept:
  assumes "later u v" and "\<And>w. later u w \<Longrightarrow> K w" and "\<And>w e. later u w \<Longrightarrow> F e w"
    and "\<And>w. later u w \<Longrightarrow> \<forall>k \<in> set ks. has_digest \<E> u (kept_path k) (Some (kept_sha256 k)) \<Longrightarrow> Q () w"
  shows "wpv (verify_all_kept \<E> ks) Q F K v"
  using assms by (induction ks arbitrary: v) (auto intro!: wpv_verify_kept [of u])

lemma wpv_link_holds:
  assumes "later u v" and "\<And>w. later u w \<Longrightarrow> K w" and "\<And>w e. later u w \<Longrightarrow> F e w"
    and "\<And>w. later u w \<Longrightarrow> link_reads_target u p target \<Longrightarrow> Q () w"
  shows "wpv (link_holds \<E> p r target) Q F K v"
  unfolding link_holds_def wpv_bind wpv_unavailable
  by (rule wpv_lstat [OF assms(1-3)])
    (use assms in \<open>auto intro!: wpv_read [of u] wpv_skip [OF reads_sys(9), of u] simp: is_link_def link_reads_target_def\<close>)

lemma wpv_verify_source:
  assumes "later u v" and "\<And>w. later u w \<Longrightarrow> K w" and "\<And>w e. later u w \<Longrightarrow> F e w"
    and "\<And>w. later u w \<Longrightarrow> is_reviewed \<E> s u \<Longrightarrow> Q () w"
  shows "wpv (verify_source \<E> s) Q F K v"
proof (cases "evidence_kind s")
  case EntryFile
  then show ?thesis
    using assms by (auto simp: verify_source_def is_reviewed_def intro!: wpv_read_proof [of u])
next
  case (EntryLink target)
  then show ?thesis
    using assms by (auto simp: verify_source_def is_reviewed_def intro!: wpv_link_holds [of u])
qed

lemma wpv_in_place:
  assumes "later u v" and "\<And>w. later u w \<Longrightarrow> K w" and "\<And>w. later u w \<Longrightarrow> Q False w"
    and "\<And>w. later u w \<Longrightarrow> find_entry u (evidence_path s) \<noteq> None \<Longrightarrow> Q True w"
  shows "wpv (in_place \<E> s) Q F K v"
proof (cases "evidence_kind s")
  case EntryFile
  then show ?thesis
    using assms by (auto simp: in_place_def file_holds_def intro!: wpv_probe [of u])
next
  case (EntryLink target)
  then show ?thesis
    using assms by (auto simp: in_place_def link_reads_target_def intro!: wpv_link_holds [of u])
qed

section \<open>Retiring an entry\<close>

text \<open>Nothing on the volume has changed, or one entry went to the Trash, proven, with all it depends on, just before.\<close>

definition same_disk :: "'s volume_scheme \<Rightarrow> 's volume_scheme \<Rightarrow> bool" where
  "same_disk v w \<longleftrightarrow> find_entry w = find_entry v \<and> inodes w = inodes v \<and> trash_bin w = trash_bin v"

definition went_to_trash :: "venv \<Rightarrow> entry_evidence \<Rightarrow> kept_copy list \<Rightarrow> ('s volume_scheme \<Rightarrow> bool) \<Rightarrow> 's volume_scheme \<Rightarrow> 's volume_scheme \<Rightarrow> bool" where
  "went_to_trash \<E> s kept B v w \<longleftrightarrow>
     (\<exists>i. find_entry v (evidence_path s) = Some i \<and> trash_bin w = (evidence_path s, i) # trash_bin v) \<and>
     find_entry w = (find_entry v)(evidence_path s := None) \<and> inodes w = inodes v \<and>
     is_reviewed \<E> s v \<and> (\<forall>k \<in> set kept. has_digest \<E> v (kept_path k) (Some (kept_sha256 k))) \<and> B v"

text \<open>A failing call does not say that an entry is absent.\<close>

definition absence_is_real :: "venv \<Rightarrow> bool" where
  "absence_is_real \<E> \<longleftrightarrow> (\<forall>n. fails_at \<E> n \<noteq> Some NotFound)"

lemma later_same_disk [simp]: "later v w \<Longrightarrow> same_disk v w"
  by (simp add: same_disk_def later_fields)

lemma wpv_move_to_trash:
  assumes "later u v" and "\<And>w. later u w \<Longrightarrow> K w" and "\<And>w e. later u w \<Longrightarrow> F e w" and "\<And>w. later u w \<Longrightarrow> Q () w"
    and "\<And>w i. later u w \<Longrightarrow> find_entry u p = Some i \<Longrightarrow> Q () (to_trash p i w)"
    and "\<And>w i e. later u w \<Longrightarrow> find_entry u p = Some i \<Longrightarrow> F e (to_trash p i w)"
  shows "wpv (sys_move_to_trash \<E> p) Q F K v"
proof -
  have step: "later u (v\<lparr>calls := Suc (calls v)\<rparr>)" using assms(1) later_step by (rule later_trans)
  show ?thesis
    unfolding wpv_def sys_move_to_trash_def call_def
    using step assms(1) by (auto simp: Let_def intro: assms split: option.split sum.split trashing.split)
qed

lemma wpv_entry_gone:
  assumes "absence_is_real \<E>" and "later u v" and "\<And>w. later u w \<Longrightarrow> K w"
    and "\<And>w. later u w \<Longrightarrow> find_entry u p = None \<Longrightarrow> Q True w" and "\<And>w. later u w \<Longrightarrow> Q False w"
  shows "wpv (entry_gone \<E> p) Q F K v"
proof -
  have real: "(e = NotFound) = False" if "fails_at \<E> (calls v) = Some e" for e
    using assms(1) that by (auto simp: absence_is_real_def)
  have step: "later u (v\<lparr>calls := Suc (calls v)\<rparr>)" using assms(2) later_step by (rule later_trans)
  show ?thesis
    unfolding entry_gone_def sys_lstat_def wpv_bind wpv_try wpv_call wpv_ret
    using step assms(2) real by (auto simp: Let_def intro: assms split: option.split)
qed

lemma find_to_trash [simp]: "find_entry (to_trash p i w) p = None"
  by (simp add: to_trash_def)

text \<open>What the executor reports of a retirement against what became of the entry.\<close>

definition retirement_true :: "venv \<Rightarrow> entry_evidence \<Rightarrow> kept_copy list \<Rightarrow> ('s volume_scheme \<Rightarrow> bool) \<Rightarrow> 's volume_scheme \<Rightarrow> retirement \<Rightarrow> 's volume_scheme \<Rightarrow> bool" where
  "retirement_true \<E> s kept B v r w \<longleftrightarrow>
    (case r of
       RetirementMoved \<Rightarrow> went_to_trash \<E> s kept B v w
     | RetirementUncertain _ \<Rightarrow> same_disk v w \<or> went_to_trash \<E> s kept B v w
     | _ \<Rightarrow> same_disk v w)"

definition halfway :: "venv \<Rightarrow> entry_evidence \<Rightarrow> kept_copy list \<Rightarrow> ('s volume_scheme \<Rightarrow> bool) \<Rightarrow> 's volume_scheme \<Rightarrow> 's volume_scheme \<Rightarrow> bool" where
  "halfway \<E> s kept B v w \<longleftrightarrow> same_disk v w \<or> went_to_trash \<E> s kept B v w"

lemma trash_later:
  assumes "later v u" and "find_entry v (evidence_path s) = Some i" and "later (to_trash (evidence_path s) i u) w"
    and "is_reviewed \<E> s v" and "\<forall>k \<in> set kept. has_digest \<E> v (kept_path k) (Some (kept_sha256 k))" and "B v"
  shows "went_to_trash \<E> s kept B v w"
proof -
  have "find_entry w = (find_entry v)(evidence_path s := None)"
    using assms(1,3) by (auto simp: to_trash_def)
  then show ?thesis
    using assms by (auto simp: went_to_trash_def to_trash_def later_fields)
qed

lemma wpv_after_trashing:
  assumes real: "absence_is_real \<E>" and "later u x"
    and "\<And>w. later u w \<Longrightarrow> K w"
    and moved: "\<And>w. later u w \<Longrightarrow> \<not> refused \<Longrightarrow> find_entry u (evidence_path s) = None \<Longrightarrow> Q RetirementMoved w"
    and stays: "\<And>w c. later u w \<Longrightarrow> find_entry u (evidence_path s) \<noteq> None \<Longrightarrow> Q (RetirementBlocked c) w"
    and unknown: "\<And>w c. later u w \<Longrightarrow> Q (RetirementUncertain c) w"
  shows "wpv (entry_gone \<E> (evidence_path s)) (\<lambda>gone. wpv (after_trashing \<E> s refused gone) Q F K) F K x"
proof (rule wpv_entry_gone [OF real assms(2,3)], assumption)
  fix w assume "later u w" "find_entry u (evidence_path s) = None"
  then show "wpv (after_trashing \<E> s refused True) Q F K w"
    by (cases refused) (auto simp: after_trashing_def intro: moved unknown)
next
  fix w assume w: "later u w"
  show "wpv (after_trashing \<E> s refused False) Q F K w"
    unfolding after_trashing_def using w stays by (auto intro!: wpv_in_place [of u] intro: assms unknown)
qed

text \<open>
  A retirement says the truth, and its entry only goes once the check before the move, the kept copies it
  relies on and the entry itself have been read again.
\<close>

lemma wpv_retire_entry:
  assumes real: "absence_is_real \<E>"
    and before: "\<And>x Q F K. later v x \<Longrightarrow> (\<And>w. later v w \<Longrightarrow> K w) \<Longrightarrow> (\<And>w e. later v w \<Longrightarrow> F e w) \<Longrightarrow>
      (\<And>w. later v w \<Longrightarrow> B v \<Longrightarrow> Q () w) \<Longrightarrow> wpv before Q F K x"
    and Q: "\<And>r w. retirement_true \<E> s kept B v r w \<Longrightarrow> volume.more w = volume.more v \<Longrightarrow> Q r w"
    and K: "\<And>w. halfway \<E> s kept B v w \<Longrightarrow> volume.more w = volume.more v \<Longrightarrow> K w"
  shows "wpv (retire_entry \<E> s kept before) Q F K v"
proof -
  have same: "K w" "Q (RetirementBlocked c) w" "Q (RetirementUnsupported c) w" "Q (RetirementUncertain c) w" if "later v w" for w c
    using that by (auto intro!: K Q simp: halfway_def retirement_true_def later_fields)
  show ?thesis
  proof (cases "trash_supports \<E> (evidence_path s) (size_bytes (evidence_print s))")
    case False
    then show ?thesis by (simp add: retire_entry_def same)
  next
    case True
    have trashing: "wpv (sys_move_to_trash \<E> (evidence_path s))
        (\<lambda>a. wpv (entry_gone \<E> (evidence_path s)) (\<lambda>gone. wpv (after_trashing \<E> s (Inr a \<noteq> Inr ()) gone) Q F K) F K)
        (\<lambda>e. wpv (entry_gone \<E> (evidence_path s)) (\<lambda>gone. wpv (after_trashing \<E> s (Inl e \<noteq> Inr ()) gone) Q F K) F K) K x"
      if x: "later v x" and checked: "is_reviewed \<E> s v" "\<forall>k \<in> set kept. has_digest \<E> v (kept_path k) (Some (kept_sha256 k))" "B v" for x
    proof -
      have there: "find_entry v (evidence_path s) \<noteq> None"
        using checked(1) by (auto simp: is_reviewed_def has_digest_def link_reads_target_def split: entry_kind.splits dest!: file_at_SomeD)
      have gone: "went_to_trash \<E> s kept B v w \<and> volume.more w = volume.more v"
        if "later v y" "find_entry v (evidence_path s) = Some i" "later (to_trash (evidence_path s) i y) w" for y i w
        using trash_later [of v y s i w \<E> kept B] checked that by (simp add: later_fields to_trash_def)
      show ?thesis
      proof (rule wpv_move_to_trash [OF x])
        fix w assume "later v w" then show "K w" by (rule same)
      next
        fix w e assume w: "later v w"
        show "wpv (entry_gone \<E> (evidence_path s)) (\<lambda>gone. wpv (after_trashing \<E> s (Inl e \<noteq> Inr ()) gone) Q F K) F K w"
          by (rule wpv_after_trashing [OF real w]) (auto intro: same)
      next
        fix w assume w: "later v w"
        show "wpv (entry_gone \<E> (evidence_path s)) (\<lambda>gone. wpv (after_trashing \<E> s (Inr () \<noteq> Inr ()) gone) Q F K) F K w"
          by (rule wpv_after_trashing [OF real w]) (use there in \<open>auto intro: same\<close>)
      next
        fix w i assume w: "later v w" and i: "find_entry v (evidence_path s) = Some i"
        show "wpv (entry_gone \<E> (evidence_path s)) (\<lambda>gone. wpv (after_trashing \<E> s (Inr () \<noteq> Inr ()) gone) Q F K) F K (to_trash (evidence_path s) i w)"
          by (rule wpv_after_trashing [OF real later_refl])
            (use gone [OF w i] in \<open>auto intro!: K Q simp: halfway_def retirement_true_def\<close>)
      next
        fix w i e assume w: "later v w" and i: "find_entry v (evidence_path s) = Some i"
        show "wpv (entry_gone \<E> (evidence_path s)) (\<lambda>gone. wpv (after_trashing \<E> s (Inl e \<noteq> Inr ()) gone) Q F K) F K (to_trash (evidence_path s) i w)"
          by (rule wpv_after_trashing [OF real later_refl])
            (use gone [OF w i] in \<open>auto intro!: K Q simp: halfway_def retirement_true_def\<close>)
      qed
    qed
    show ?thesis
      unfolding retire_entry_def using True
      by (auto intro!: before wpv_verify_all_kept [of v] wpv_verify_source [of v] same intro: trashing [simplified])
  qed
qed

end
