(* ===== verification/StorageSteps.thy ===== *)
theory StorageSteps
  imports StorageLaws
begin

text \<open>
  The rows of a storage operation: what is well formed, which changes the executor proposes, and what one
  step does to the rows and to the disk.
\<close>

section \<open>Well-formed rows\<close>

definition explained :: "entry_outcome option \<Rightarrow> bool" where
  "explained r \<longleftrightarrow> r \<in> {Some ItemBlocked, Some ItemUncertain, Some SourceKept}"

definition wrote :: "storage_kind \<Rightarrow> item_phase \<Rightarrow> bool" where
  "wrote k p \<longleftrightarrow> p \<in> {ItemWriting, ItemInstalled, ItemVerified} \<or> k = MoveItems \<and> p = ItemRetiring"

definition item_ok :: "storage_kind \<Rightarrow> storage_item \<Rightarrow> bool" where
  "item_ok k i \<longleftrightarrow>
     phase_fits k (item_phase i) \<and> (item_outcome i = None \<longleftrightarrow> item_phase i \<noteq> ItemSettled) \<and>
     (case item_outcome i of None \<Rightarrow> True | Some r \<Rightarrow> item_outcome_fits k r) \<and>
     (item_reason i \<noteq> None \<longleftrightarrow> explained (item_outcome i)) \<and>
     (wrote k (item_phase i) \<longrightarrow> item_written i \<noteq> None) \<and> (k = TrashItems \<longrightarrow> item_written i = None) \<and>
     (k \<noteq> TrashItems \<longrightarrow> item_destination i \<noteq> None) \<and> \<not> (k = CopyItems \<and> item_phase i = ItemVerified)"

definition storage_ok :: "storage \<Rightarrow> bool" where
  "storage_ok v \<longleftrightarrow> distinct (map item_seq (storage_items v)) \<and> (\<forall>i \<in> set (storage_items v). item_ok (storage_kind v) i) \<and>
     (storage_state v = StorageSettled \<longrightarrow> (\<forall>i \<in> set (storage_items v). item_outcome i \<noteq> None))"

text \<open>What is left to do: the steps to its end of every open item, and the settling.\<close>

definition phase_rank :: "item_phase \<Rightarrow> nat" where
  "phase_rank p =
    (case p of ItemPending \<Rightarrow> 5 | ItemWriting \<Rightarrow> 4 | ItemInstalled \<Rightarrow> 3 | ItemVerified \<Rightarrow> 2 | ItemRetiring \<Rightarrow> 1 | ItemSettled \<Rightarrow> 0)"

definition work_left :: "storage \<Rightarrow> nat" where
  "work_left v = sum_list (map (\<lambda>i. phase_rank (item_phase i)) (storage_items v))"

text \<open>A change the executor may propose for an open item.\<close>

definition fits :: "storage_kind \<Rightarrow> storage_item \<Rightarrow> item_change \<Rightarrow> bool" where
  "fits k i c \<longleftrightarrow> validate_change k c = Inr () \<and> phase_rank (change_phase c) < phase_rank (item_phase i) \<and>
     \<not> (k = CopyItems \<and> change_phase c = ItemVerified)"

lemma validated:
  "validate_change k c = Inr () \<longleftrightarrow>
     phase_fits k (change_phase c) \<and> (change_outcome c = None \<longleftrightarrow> change_phase c \<noteq> ItemSettled) \<and>
     (case change_outcome c of None \<Rightarrow> True | Some r \<Rightarrow> item_outcome_fits k r) \<and>
     (change_reason c \<noteq> None \<longleftrightarrow> explained (change_outcome c)) \<and>
     (wrote k (change_phase c) \<longrightarrow> change_written c \<noteq> None) \<and> (k = TrashItems \<longrightarrow> change_written c = None)"
  by (auto simp: validate_change_def outcome_checked_def and_then_def explained_def wrote_def
      split: sum.splits option.splits if_splits)

lemma apply_change_simps [simp]:
  "item_seq (apply_change c i) = item_seq i" "item_phase (apply_change c i) = change_phase c"
  "item_outcome (apply_change c i) = change_outcome c" "item_written (apply_change c i) = change_written c"
  "item_reason (apply_change c i) = change_reason c" "item_source (apply_change c i) = item_source i"
  "relied_on (apply_change c i) = relied_on i" "item_destination (apply_change c i) = item_destination i"
  by (simp_all add: apply_change_def)

lemma apply_change_ok:
  "item_ok k i \<Longrightarrow> fits k i c \<Longrightarrow> item_ok k (apply_change c i)"
  by (auto simp: item_ok_def fits_def validated)

section \<open>Rows through a run\<close>

lemma rows_same:
  assumes "volume.more w = volume.more v"
  shows "storage_items w = storage_items v" "storage_kind w = storage_kind v" "storage_state w = storage_state v"
    "storage_name w = storage_name v"
  using assms by (cases v; cases w; simp)+

lemma ok_same:
  assumes "volume.more w = volume.more v"
  shows "storage_ok w = storage_ok v" "work_left w = work_left v"
  by (simp_all add: storage_ok_def work_left_def rows_same [OF assms])

lemma later_rows: "later v w \<Longrightarrow> volume.more w = volume.more v"
  by (simp add: later_fields)

text \<open>The row an advance works on.\<close>

definition current_row :: "storage \<Rightarrow> storage_item \<Rightarrow> bool" where
  "current_row v i \<longleftrightarrow> storage_ok v \<and> storage_state v = StorageRunning \<and>
     find_item (item_seq i) (storage_items v) = Some i \<and> item_outcome i = None"

lemma current_same:
  assumes "volume.more w = volume.more v"
  shows "current_row w i = current_row v i"
  by (simp add: current_row_def ok_same [OF assms] rows_same [OF assms])

lemma find_itemD: "find_item n is = Some i \<Longrightarrow> i \<in> set is \<and> item_seq i = n"
  by (auto simp: find_item_def find_Some_iff)

lemma current_ok: "current_row v i \<Longrightarrow> item_ok (storage_kind v) i"
  by (auto simp: current_row_def storage_ok_def dest: find_itemD)

lemma find_first_open: "storage_ok v \<Longrightarrow> find (\<lambda>i. item_outcome i = None) (storage_items v) = Some i \<Longrightarrow>
  find_item (item_seq i) (storage_items v) = Some i"
proof -
  have "distinct (map item_seq is) \<Longrightarrow> i \<in> set is \<Longrightarrow> find (\<lambda>j. item_seq j = item_seq i) is = Some i" for "is" :: "storage_item list"
    by (induction "is") auto
  then show "storage_ok v \<Longrightarrow> find (\<lambda>i. item_outcome i = None) (storage_items v) = Some i \<Longrightarrow> ?thesis"
    unfolding storage_ok_def find_item_def by (metis find_Some_iff nth_mem)
qed

definition changed_rows :: "storage \<Rightarrow> storage_item \<Rightarrow> item_change \<Rightarrow> storage \<Rightarrow> bool" where
  "changed_rows v i c w \<longleftrightarrow>
     storage_items w = map (\<lambda>j. if item_seq j = item_seq i then apply_change c i else j) (storage_items v) \<and>
     storage_kind w = storage_kind v \<and> storage_state w = storage_state v \<and> storage_name w = storage_name v"

lemma unique_row:
  "distinct (map item_seq is) \<Longrightarrow> i \<in> set is \<Longrightarrow> j \<in> set is \<Longrightarrow> item_seq j = item_seq i \<Longrightarrow> j = i"
  by (meson distinct_map inj_onD)

lemma sum_list_changed:
  assumes "distinct (map item_seq is)" and "i \<in> set is" and "f x < f i"
  shows "sum_list (map f (map (\<lambda>j. if item_seq j = item_seq i then x else j) is)) < (sum_list (map f is) :: nat)"
  using assms
proof (induction "is")
  case (Cons a as)
  show ?case
  proof (cases "item_seq a = item_seq i")
    case True
    then have "i = a" using Cons.prems(1,2) by (auto simp: image_iff)
    moreover have rest: "map (\<lambda>j. if item_seq j = item_seq i then x else j) as = as"
      using True Cons.prems(1) by (intro map_idI) (auto simp: image_iff)
    ultimately show ?thesis using Cons.prems(3) by (simp only: list.map rest sum_list.Cons if_True refl add_less_cancel_right)
  next
    case False
    then have "i \<in> set as" using Cons.prems(2) by auto
    then show ?thesis using Cons.IH Cons.prems(1,3) False by simp
  qed
qed simp

lemma changed_rows_ok:
  assumes r: "changed_rows v i c w" and v: "current_row v i" and c: "fits (storage_kind v) i c"
  shows "storage_ok w" "work_left w < work_left v" "change_outcome c = None \<Longrightarrow> current_row w (apply_change c i)"
    "find_item (item_seq i) (storage_items w) = Some (apply_change c i)"
proof -
  have in_rows: "i \<in> set (storage_items v)" and d: "distinct (map item_seq (storage_items v))"
    using v find_itemD by (auto simp: current_row_def storage_ok_def)
  have seqs: "map item_seq (storage_items w) = map item_seq (storage_items v)"
    using r by (simp add: changed_rows_def)
  show ok: "storage_ok w"
    using r v d apply_change_ok [OF current_ok [OF v] c] unfolding storage_ok_def seqs
    by (auto simp: changed_rows_def current_row_def storage_ok_def)
  show "work_left w < work_left v"
    using sum_list_changed [OF d in_rows, of "\<lambda>i. phase_rank (item_phase i)" "apply_change c i"] r c
    by (simp add: work_left_def changed_rows_def fits_def comp_def)
  have "find (\<lambda>j. item_seq j = item_seq i) (map (\<lambda>j. if item_seq j = item_seq i then apply_change c i else j) is) = Some (apply_change c i)"
    if "i \<in> set is" for "is" using that by (induction "is") auto
  then show f: "find_item (item_seq i) (storage_items w) = Some (apply_change c i)"
    using in_rows r by (simp add: find_item_def changed_rows_def)
  show "change_outcome c = None \<Longrightarrow> current_row w (apply_change c i)"
    using ok f r v by (auto simp: current_row_def changed_rows_def)
qed

text \<open>A proposed change is recorded, or the catalog fails with nothing recorded.\<close>

lemma wpv_record:
  assumes v: "current_row v i" and c: "fits (storage_kind v) i c"
    and K: "\<And>w. later v w \<Longrightarrow> K w" and F: "\<And>w. later v w \<Longrightarrow> F CatalogFailed w"
    and Q: "\<And>w. changed_rows v i c w \<Longrightarrow> same_disk v w \<Longrightarrow> Q (apply_change c i) w"
  shows "wpv (record_change \<E> i c) Q F K v"
proof -
  have in_rows: "i \<in> set (storage_items v)" and d: "distinct (map item_seq (storage_items v))"
    and f: "find_item (item_seq i) (storage_items v) = Some i"
    using v find_itemD by (auto simp: current_row_def storage_ok_def)
  have upd: "changed_rows v i c (update_item (item_seq i) c w)" "same_disk v (update_item (item_seq i) c w)" if "later v w" for w
    using unique_row [OF d in_rows] rows_same [OF later_rows [OF that]] that
    by (auto simp: changed_rows_def update_item_def same_disk_def later_fields fun_eq_iff find_entry_def)
  have val: "validate_change (storage_kind v) c = Inr ()" using c by (simp add: fits_def)
  show ?thesis
    unfolding record_change_def advance_storage_item_def wpv_bind wpv_map_err
  proof (rule wpv_do_call [OF later_refl K F], assumption+)
    fix w a x
    assume w: "later v w" and "Inr (case find_item (item_seq i) (storage_items w) of
        None \<Rightarrow> (None, w)
      | Some i' \<Rightarrow>
          (if validate_change (storage_kind w) c \<noteq> Inr () \<or> storage_state w \<noteq> StorageRunning \<or>
              item_outcome i' \<noteq> None \<or> item_revision i' \<noteq> item_revision i
           then (None, w) else (Some (apply_change c i'), update_item (item_seq i) c w))) = Inr (a, x)"
    then have "a = Some (apply_change c i)" "x = update_item (item_seq i) c w"
      using v f val rows_same [OF later_rows [OF w]] by (auto simp: current_row_def)
    then show "wpv (case a of None \<Rightarrow> v_err ChangeRefused | Some i \<Rightarrow> v_ret i) Q F K x"
      using Q [OF upd [OF w]] by simp
  qed
qed

text \<open>Rows keep their number and source, and a row with an outcome does not change again.\<close>

definition rows_kept :: "storage \<Rightarrow> storage \<Rightarrow> bool" where
  "rows_kept v w \<longleftrightarrow> (\<forall>i \<in> set (storage_items v). item_outcome i \<noteq> None \<longrightarrow> i \<in> set (storage_items w)) \<and>
     map (\<lambda>i. (item_seq i, item_source i)) (storage_items w) = map (\<lambda>i. (item_seq i, item_source i)) (storage_items v)"

lemma rows_kept_items: "storage_items w = storage_items v \<Longrightarrow> rows_kept v w"
  by (simp add: rows_kept_def)

lemma rows_kept_same: "volume.more w = volume.more v \<Longrightarrow> rows_kept v w"
  using rows_same by (intro rows_kept_items) blast

lemma rows_kept_trans: "rows_kept u v \<Longrightarrow> rows_kept v w \<Longrightarrow> rows_kept u w"
  by (simp add: rows_kept_def)

lemma changed_rows_kept:
  assumes r: "changed_rows v i c w" and v: "current_row v i"
  shows "rows_kept v w"
proof -
  have d: "distinct (map item_seq (storage_items v))" and i: "i \<in> set (storage_items v)" and o: "item_outcome i = None"
    using v find_itemD by (auto simp: current_row_def storage_ok_def)
  have "j \<in> set (storage_items w)" if "j \<in> set (storage_items v)" "item_outcome j \<noteq> None" for j
  proof -
    have "item_seq j \<noteq> item_seq i" using unique_row [OF d i that(1)] o that(2) by auto
    then show ?thesis using that(1) r by (auto simp: changed_rows_def intro!: image_eqI [of _ _ j])
  qed
  moreover have "(item_seq (apply_change c i), item_source (apply_change c i)) = (item_seq j, item_source j)"
    if "j \<in> set (storage_items v)" "item_seq j = item_seq i" for j
    using unique_row [OF d i that] by simp
  ultimately show ?thesis using r by (auto simp: rows_kept_def changed_rows_def comp_def)
qed

section \<open>One item\<close>

definition destination_proven :: "venv \<Rightarrow> storage_kind \<Rightarrow> storage_item \<Rightarrow> storage \<Rightarrow> bool" where
  "destination_proven \<E> k i v \<longleftrightarrow>
     (k = MoveItems \<longrightarrow> (\<exists>d. item_destination i = Some d \<and> has_digest \<E> v d (evidence_sha256 (item_source i))))"

definition retired_proven :: "venv \<Rightarrow> storage_kind \<Rightarrow> storage_item \<Rightarrow> storage \<Rightarrow> storage \<Rightarrow> bool" where
  "retired_proven \<E> k i v w \<longleftrightarrow> k \<noteq> CopyItems \<and> went_to_trash \<E> (item_source i) (relied_on i) (destination_proven \<E> k i) v w"

lemma proven_change [simp]:
  "destination_proven \<E> k (apply_change c i) = destination_proven \<E> k i"
  "retired_proven \<E> k (apply_change c i) = retired_proven \<E> k i"
proof -
  show d: "destination_proven \<E> k (apply_change c i) = destination_proven \<E> k i"
    by (rule ext) (simp add: destination_proven_def)
  show "retired_proven \<E> k (apply_change c i) = retired_proven \<E> k i"
    by (intro ext) (simp add: retired_proven_def d)
qed

text \<open>What an outcome claims about the disk, and what holds if none is reached.\<close>

definition outcome_true :: "venv \<Rightarrow> storage_kind \<Rightarrow> storage_item \<Rightarrow> storage \<Rightarrow> entry_outcome option \<Rightarrow> storage \<Rightarrow> bool" where
  "outcome_true \<E> k i v r w \<longleftrightarrow>
    (case r of
       None \<Rightarrow> trash_bin w = trash_bin v
     | Some Copied \<Rightarrow> trash_bin w = trash_bin v \<and>
         (\<exists>d. item_destination i = Some d \<and> has_digest \<E> w d (evidence_sha256 (item_source i)))
     | Some Trashed \<Rightarrow> retired_proven \<E> k i v w
     | Some Moved \<Rightarrow> retired_proven \<E> k i v w
     | Some SourceKept \<Rightarrow> trash_bin w = trash_bin v
     | Some ItemBlocked \<Rightarrow> trash_bin w = trash_bin v
     | Some ItemUncertain \<Rightarrow> trash_bin w = trash_bin v \<or> retired_proven \<E> k i v w)"

definition no_worse :: "venv \<Rightarrow> storage_kind \<Rightarrow> storage_item \<Rightarrow> storage \<Rightarrow> storage \<Rightarrow> bool" where
  "no_worse \<E> k i v w \<longleftrightarrow> (trash_bin w = trash_bin v \<or> retired_proven \<E> k i v w) \<and>
     storage_ok w \<and> storage_kind w = storage_kind v \<and> rows_kept v w"

definition proposed :: "venv \<Rightarrow> storage \<Rightarrow> storage_item \<Rightarrow> item_change \<times> storage_item \<Rightarrow> storage \<Rightarrow> bool" where
  "proposed \<E> v i = (\<lambda>(c, now) w.
     current_row w now \<and> item_seq now = item_seq i \<and> storage_kind w = storage_kind v \<and> work_left w \<le> work_left v \<and>
     rows_kept v w \<and> fits (storage_kind v) now c \<and> outcome_true \<E> (storage_kind v) i v (change_outcome c) w)"

text \<open>A state a transfer leads to: the Trash and the rows as they were.\<close>

definition only_files :: "storage \<Rightarrow> storage \<Rightarrow> bool" where
  "only_files v w \<longleftrightarrow> trash_bin w = trash_bin v \<and> volume.more w = volume.more v"

lemma keeps_conj: "keeps P m \<Longrightarrow> keeps R m \<Longrightarrow> keeps (\<lambda>v. P v \<and> R v) m"
  by (simp add: keeps_def)

lemma keeps_only_files:
  "keeps (only_files v) (begin_transfer \<E> op n p)" "keeps (only_files v) (write_transfer \<E> m s p c)"
  unfolding only_files_def
  by (intro keeps_conj bin.begin_copy rows.begin_copy, intro keeps_conj bin.transfer rows.transfer)

lemma only_files_refl: "only_files v v"
  by (simp add: only_files_def)

lemma only_files_later: "later v w \<Longrightarrow> only_files v w"
  by (simp add: only_files_def later_fields)

lemma files_no_worse: "only_files v w \<Longrightarrow> current_row v i \<Longrightarrow> no_worse \<E> k i v w"
  using ok_same [of w v] rows_same [of w v] rows_kept_same [of w v] by (simp add: only_files_def no_worse_def current_row_def)

lemma files_proposed:
  assumes "only_files v w" and "current_row v i" and "fits (storage_kind v) i c"
    and "change_outcome c \<in> {None, Some ItemBlocked, Some SourceKept, Some ItemUncertain} \<or>
      change_outcome c = Some Copied \<and> (\<exists>d. item_destination i = Some d \<and> has_digest \<E> w d (evidence_sha256 (item_source i)))"
  shows "proposed \<E> v i (c, i) w"
  using assms current_same [of w v] ok_same [of w v] rows_same [of w v] rows_kept_same [of w v]
  by (auto simp: proposed_def only_files_def outcome_true_def)

lemmas fits_rules = fits_def validated to_phase_def settled_as_def interrupted_change_def retired_change_def phase_fits_def
  phase_rank_def wrote_def explained_def item_outcome_fits_def item_ok_def

lemma retired_disk:
  assumes "same_disk v u" and "retired_proven \<E> k i u w"
  shows "retired_proven \<E> k i v w"
proof -
  have f: "file_at u = file_at v" using assms(1) by (auto simp: same_disk_def file_at_def fun_eq_iff split: option.split)
  have d: "has_digest \<E> u = has_digest \<E> v" by (auto simp: has_digest_def f fun_eq_iff)
  have r: "is_reviewed \<E> s u = is_reviewed \<E> s v" for s
    using assms(1) by (auto simp: is_reviewed_def d link_reads_target_def same_disk_def split: entry_kind.split)
  have p: "destination_proven \<E> k i u = destination_proven \<E> k i v" by (simp add: destination_proven_def d)
  show ?thesis
    using assms(2) assms(1) unfolding retired_proven_def went_to_trash_def d r p by (simp add: same_disk_def)
qed

lemma retired_after:
  assumes "same_disk u w" and "retired_proven \<E> k i v u"
  shows "retired_proven \<E> k i v w"
  using assms by (simp add: retired_proven_def went_to_trash_def same_disk_def)

lemma wpv_retire_target:
  assumes real: "absence_is_real \<E>" and v: "current_row v i" and k: "storage_kind v = k"
    and kind: "k = TrashItems \<and> d = None \<or> k = MoveItems \<and> (\<exists>dest c. d = Some dest \<and> cw = Some c \<and> item_destination i = Some dest)"
    and phase: "item_phase i = ItemRetiring"
    and Q: "\<And>c w. proposed \<E> v i (c, i) w \<Longrightarrow> Q (c, i) w" and K: "\<And>w. no_worse \<E> k i v w \<Longrightarrow> K w"
  shows "wpv (retire_target \<E> k i d cw) Q F K v"
proof -
  have ok: "item_ok k i" using current_ok [OF v] k by simp
  have B: "wpv (before_move \<E> i d cw) Q' F' K' x"
    if "later v x" "\<And>w. later v w \<Longrightarrow> K' w" "\<And>w e. later v w \<Longrightarrow> F' e w" "\<And>w. later v w \<Longrightarrow> destination_proven \<E> k i v \<Longrightarrow> Q' () w"
    for x Q' K' and F' :: "reason_code \<Rightarrow> storage \<Rightarrow> bool"
    using kind that by (auto simp: before_move_def destination_proven_def intro!: wpv_verify_transfer [of v])
  show ?thesis
    unfolding retire_target_def wpv_bind wpv_ret
  proof (rule wpv_retire_entry [OF real B])
    fix w assume "halfway \<E> (item_source i) (relied_on i) (destination_proven \<E> k i) v w" "volume.more w = volume.more v"
    then show "K w"
      using v ok_same [of w v] rows_same [of w v] rows_kept_same [of w v] kind
      by (intro K) (auto simp: halfway_def no_worse_def same_disk_def retired_proven_def current_row_def)
  next
    fix r w assume r: "retirement_true \<E> (item_source i) (relied_on i) (destination_proven \<E> k i) v r w"
      and m: "volume.more w = volume.more v"
    have "fits k i (retired_change k i r)"
      using ok kind phase v by (cases r) (auto simp: fits_rules current_row_def)
    then have "proposed \<E> v i (retired_change k i r, i) w"
      using r kind k v current_same [OF m, of i] ok_same [OF m] rows_same [OF m] rows_kept_same [OF m]
      by (cases r) (auto simp: proposed_def retirement_true_def outcome_true_def retired_change_def settled_as_def same_disk_def retired_proven_def)
    then show "Q (retired_change k i r, i) w" by (rule Q)
  qed
qed

lemma wpv_retire_item:
  assumes real: "absence_is_real \<E>" and v: "current_row v i" and k: "storage_kind v = k" "k \<noteq> CopyItems"
    and phase: "item_phase i = ItemRetiring"
    and Q: "\<And>c w. proposed \<E> v i (c, i) w \<Longrightarrow> Q (c, i) w" and K: "\<And>w. no_worse \<E> k i v w \<Longrightarrow> K w"
  shows "wpv (retire_item \<E> k i) Q F K v"
proof (cases "k = MoveItems")
  case True
  obtain d c where "item_destination i = Some d" "item_written i = Some c"
    using current_ok [OF v] k True phase by (auto simp: item_ok_def wrote_def)
  then show ?thesis
    using True phase by (auto simp: retire_item_def the_destination_def the_written_def intro!: wpv_retire_target [OF real v] intro: Q K simp: k)
next
  case False
  then have "k = TrashItems" using k(2) by (cases k) auto
  then show ?thesis
    by (auto simp: retire_item_def intro!: wpv_retire_target [OF real v] intro: Q K simp: k phase)
qed

text \<open>The three steps of a transfer.\<close>

lemma wpv_begin_item:
  assumes v: "current_row v i" and "storage_kind v \<noteq> TrashItems" and "item_phase i = ItemPending"
    and Q: "\<And>a w. proposed \<E> v i a w \<Longrightarrow> Q a w" and K: "\<And>w. no_worse \<E> (storage_kind v) i v w \<Longrightarrow> K w"
  shows "wpv (begin_item \<E> op i) Q F K v"
proof -
  obtain d where d: "item_destination i = Some d" using current_ok [OF v] assms(2) by (auto simp: item_ok_def)
  have "fits (storage_kind v) i ((to_phase i ItemWriting)\<lparr>change_written := Some c\<rparr>)"
    "fits (storage_kind v) i (settled_as i ItemBlocked (Some r))" for c r
    using current_ok [OF v] assms by (cases "storage_kind v"; auto simp: fits_rules)+
  then have "proposed \<E> v i ((to_phase i ItemWriting)\<lparr>change_written := Some c\<rparr>, i) w"
    "proposed \<E> v i (settled_as i ItemBlocked (Some r), i) w" if "only_files v w" for c r w
    using that by (auto intro!: files_proposed v simp: to_phase_def settled_as_def)
  then show ?thesis
    unfolding begin_item_def the_destination_def d
    by (auto intro!: wpv_keep [OF keeps_only_files(1) only_files_refl] Q K files_no_worse v split: sum.split)
qed

lemma wpv_write_item:
  assumes v: "current_row v i" and "storage_kind v \<noteq> TrashItems" and "item_phase i = ItemWriting"
    and Q: "\<And>a w. proposed \<E> v i a w \<Longrightarrow> Q a w" and K: "\<And>w. no_worse \<E> (storage_kind v) i v w \<Longrightarrow> K w"
  shows "wpv (write_item \<E> stack i) Q F K v"
proof -
  obtain d c where d: "item_destination i = Some d" "item_written i = Some c"
    using current_ok [OF v] assms by (auto simp: item_ok_def wrote_def)
  have "fits (storage_kind v) i ((to_phase i ItemInstalled)\<lparr>change_written := Some c\<rparr>)"
    "fits (storage_kind v) i (settled_as i ItemBlocked (Some r))" for c r
    using current_ok [OF v] assms by (cases "storage_kind v"; auto simp: fits_rules)+
  then have "proposed \<E> v i ((to_phase i ItemInstalled)\<lparr>change_written := Some c\<rparr>, i) w"
    "proposed \<E> v i (settled_as i ItemBlocked (Some r), i) w" if "only_files v w" for c r w
    using that by (auto intro!: files_proposed v simp: to_phase_def settled_as_def)
  then show ?thesis
    unfolding write_item_def the_destination_def the_written_def d
    by (auto intro!: wpv_keep [OF keeps_only_files(2) only_files_refl] Q K files_no_worse v split: sum.split)
qed

lemma wpv_verify_item:
  assumes v: "current_row v i" and "storage_kind v \<noteq> TrashItems" and "item_phase i = ItemInstalled"
    and Q: "\<And>a w. proposed \<E> v i a w \<Longrightarrow> Q a w" and K: "\<And>w. no_worse \<E> (storage_kind v) i v w \<Longrightarrow> K w"
  shows "wpv (verify_item \<E> (storage_kind v) i) Q F K v"
proof -
  obtain d c where d: "item_destination i = Some d" "item_written i = Some c"
    using current_ok [OF v] assms by (auto simp: item_ok_def wrote_def)
  have fit: "storage_kind v = CopyItems \<Longrightarrow> fits (storage_kind v) i (settled_as i Copied None)"
    "storage_kind v \<noteq> CopyItems \<Longrightarrow> fits (storage_kind v) i (to_phase i ItemVerified)"
    "fits (storage_kind v) i (settled_as i ItemBlocked (Some r))" for r
    using current_ok [OF v] assms by (cases "storage_kind v"; auto simp: fits_rules)+
  have blocked: "proposed \<E> v i (settled_as i ItemBlocked (Some r), i) w" if "later v w" for r w
    using fit(3) by (intro files_proposed only_files_later that v) (auto simp: settled_as_def)
  have copied: "proposed \<E> v i (settled_as i Copied None, i) w"
    if "storage_kind v = CopyItems" "later v w" "has_digest \<E> v d (evidence_sha256 (item_source i))" for w
    using that fit(1) d by (intro files_proposed only_files_later v) (auto simp: settled_as_def)
  have verified: "proposed \<E> v i (to_phase i ItemVerified, i) w" if "storage_kind v \<noteq> CopyItems" "later v w" for w
    using that fit(2) by (intro files_proposed only_files_later v) (auto simp: to_phase_def)
  show ?thesis
    unfolding verify_item_def the_destination_def the_written_def d
    by (auto intro!: wpv_verify_transfer [OF later_refl] Q K files_no_worse only_files_later v blocked copied verified)
qed

lemma next_retiring:
  "k \<noteq> CopyItems \<Longrightarrow> item_phase i = ItemRetiring \<Longrightarrow> next_change \<E> stack op k i =
     v_bind (in_place \<E> (item_source i)) (\<lambda>there. if there then retire_item \<E> k i else v_ret (interrupted_change i, i))"
  unfolding next_change_def Let_def by (rule trans [OF if_not_P if_P]) (auto, cases k, auto)

text \<open>
  The next change of an item: proposed over the row as recorded by then, true of the disk, and taken by
  the journal.
\<close>

lemma wpv_next_change:
  assumes real: "absence_is_real \<E>" and v: "current_row v i"
    and Q: "\<And>a w. proposed \<E> v i a w \<Longrightarrow> Q a w" and K: "\<And>w. no_worse \<E> (storage_kind v) i v w \<Longrightarrow> K w"
    and F: "\<And>w. no_worse \<E> (storage_kind v) i v w \<Longrightarrow> F CatalogFailed w"
  shows "wpv (next_change \<E> stack op (storage_kind v) i) Q F K v"
proof -
  let ?k = "storage_kind v"
  note ok = current_ok [OF v]
  have later: "no_worse \<E> ?k i v w" if "later v w" for w
    by (rule files_no_worse [OF only_files_later [OF that] v])
  consider (retire) "?k = TrashItems \<and> item_phase i = ItemPending \<or> ?k = MoveItems \<and> item_phase i = ItemVerified"
    | (retiring) "?k \<noteq> CopyItems" "item_phase i = ItemRetiring"
    | (pending) "?k \<noteq> TrashItems" "item_phase i = ItemPending"
    | (writing) "?k \<noteq> TrashItems" "item_phase i = ItemWriting"
    | (installed) "?k \<noteq> TrashItems" "item_phase i = ItemInstalled"
    using ok v by (cases "item_phase i"; cases ?k) (auto simp: item_ok_def phase_fits_def current_row_def)
  then show ?thesis
  proof cases
    case retire
    let ?c = "to_phase i ItemRetiring"
    let ?j = "apply_change ?c i"
    have c: "fits ?k i ?c" using retire ok v by (elim disjE conjE) (simp_all add: fits_rules current_row_def)
    have none: "change_outcome ?c = None" by (simp add: to_phase_def)
    have phase: "item_phase ?j = ItemRetiring" by (simp add: to_phase_def)
    have "wpv (record_change \<E> i ?c) (\<lambda>j. wpv (retire_item \<E> ?k j) Q F K) F K v"
    proof (rule wpv_record [OF v c])
      fix w assume r: "changed_rows v i ?c w" and d: "same_disk v w"
      have row: "current_row w ?j" and less: "work_left w < work_left v"
        using changed_rows_ok [OF r v c] none by simp_all
      have k: "storage_kind w = ?k" using r by (simp add: changed_rows_def)
      have t: "trash_bin w = trash_bin v" using d by (simp add: same_disk_def)
      note kept = rows_kept_trans [OF changed_rows_kept [OF r v]]
      have before: "proposed \<E> v i (c', ?j) x" if p: "proposed \<E> w ?j (c', ?j) x" for c' x
      proof -
        have not_copied: "change_outcome c' \<noteq> Some Copied"
          using p k retire by (auto simp: proposed_def fits_def validated item_outcome_fits_def split: option.splits)
        have "retired_proven \<E> ?k i v x" if "retired_proven \<E> ?k i w x" by (rule retired_disk [OF d that])
        then show ?thesis
          using p k less not_copied t kept unfolding proposed_def outcome_true_def
          by (auto split: option.splits entry_outcome.splits)
      qed
      show "wpv (retire_item \<E> ?k ?j) Q F K w"
      proof (rule wpv_retire_item [OF real row k _ phase])
        show "?k \<noteq> CopyItems" using retire by auto
        show "Q (c', ?j) x" if "proposed \<E> w ?j (c', ?j) x" for c' x using before [OF that] by (rule Q)
        show "K x" if "no_worse \<E> ?k ?j w x" for x
          using that retired_disk [OF d, of \<E> ?k i x] k t kept by (intro K) (auto simp: no_worse_def)
      qed
    qed (auto intro: K F later)
    then show ?thesis using retire by (simp add: next_change_def)
  next
    case retiring
    have q: "Q (interrupted_change i, i) w" if "later v w" for w
      using ok retiring by (intro Q files_proposed only_files_later that v) (cases ?k; auto simp: fits_rules)+
    have "wpv (in_place \<E> (item_source i)) (\<lambda>there. wpv (if there then retire_item \<E> ?k i else v_ret (interrupted_change i, i)) Q F K) F K v"
    proof (rule wpv_in_place [OF later_refl])
      fix w assume w: "later v w"
      have row: "current_row w i" and k: "storage_kind w = ?k"
        using v current_same [OF later_rows [OF w]] rows_same [OF later_rows [OF w]] by simp_all
      have less: "work_left w = work_left v" by (rule ok_same [OF later_rows [OF w]])
      note kept = rows_kept_trans [OF rows_kept_same [OF later_rows [OF w]]]
      have "wpv (retire_item \<E> ?k i) Q F K w"
      proof (rule wpv_retire_item [OF real row k retiring])
        have d: "same_disk v w" using w by simp
        show "Q (c, i) x" if "proposed \<E> w i (c, i) x" for c x
        proof (rule Q)
          have "change_outcome c \<noteq> Some Copied"
            using that k retiring by (auto simp: proposed_def fits_def validated item_outcome_fits_def split: option.splits)
          then show "proposed \<E> v i (c, i) x"
            using that k less retired_disk [OF d, of \<E> ?k i x] d kept unfolding proposed_def outcome_true_def same_disk_def
            by (auto split: option.splits entry_outcome.splits)
        qed
        show "K x" if "no_worse \<E> ?k i w x" for x
          using that retired_disk [OF d, of \<E> ?k i x] k d kept by (intro K) (auto simp: no_worse_def same_disk_def)
      qed
      then show "wpv (if True then retire_item \<E> ?k i else v_ret (interrupted_change i, i)) Q F K w" by simp
    qed (auto intro: K later q)
    then show ?thesis by (simp only: next_retiring [OF retiring] wpv_bind)
  next
    case pending
    then show ?thesis by (cases ?k) (auto simp: next_change_def intro!: wpv_begin_item [OF v] intro: Q K)
  next
    case writing
    then show ?thesis by (cases ?k) (auto simp: next_change_def intro!: wpv_write_item [OF v] intro: Q K)
  next
    case installed
    have "wpv (verify_item \<E> ?k i) Q F K v" by (rule wpv_verify_item [OF v installed]) (auto intro: Q K)
    then show ?thesis using installed by (cases ?k) (auto simp: next_change_def)
  qed
qed

section \<open>A step of the operation\<close>

text \<open>What a step leaves: rows that are well formed, the Trash as it was or with one item's proven source, and on success less to do and an outcome that is true.\<close>

definition stepped :: "venv \<Rightarrow> storage \<Rightarrow> storage \<Rightarrow> bool" where
  "stepped \<E> v w \<longleftrightarrow> storage_ok w \<and> storage_kind w = storage_kind v \<and> rows_kept v w \<and>
     (trash_bin w = trash_bin v \<or> (\<exists>i \<in> set (storage_items v). retired_proven \<E> (storage_kind v) i v w))"

definition advanced :: "venv \<Rightarrow> storage \<Rightarrow> storage_item \<Rightarrow> storage \<Rightarrow> bool" where
  "advanced \<E> v i w \<longleftrightarrow> storage_ok w \<and> storage_state w = StorageRunning \<and> storage_kind w = storage_kind v \<and> work_left w < work_left v \<and>
     (\<exists>j. find_item (item_seq i) (storage_items w) = Some j \<and> outcome_true \<E> (storage_kind v) i v (item_outcome j) w)"

lemma outcome_same_disk:
  assumes "same_disk u w" and "outcome_true \<E> k i v r u"
  shows "outcome_true \<E> k i v r w"
proof -
  have f: "file_at w = file_at u" using assms(1) by (auto simp: same_disk_def file_at_def fun_eq_iff split: option.split)
  have d: "has_digest \<E> w = has_digest \<E> u" by (auto simp: has_digest_def f fun_eq_iff)
  show ?thesis
    using assms(2) retired_after [OF assms(1), of \<E> k i v] assms(1) d unfolding outcome_true_def same_disk_def
    by (auto split: option.splits entry_outcome.splits)
qed

lemma outcome_bin: "outcome_true \<E> k i v r w \<Longrightarrow> trash_bin w = trash_bin v \<or> retired_proven \<E> k i v w"
  by (auto simp: outcome_true_def split: option.splits entry_outcome.splits)

lemma no_worse_stepped: "no_worse \<E> (storage_kind v) i v w \<Longrightarrow> i \<in> set (storage_items v) \<Longrightarrow> stepped \<E> v w"
  by (auto simp: no_worse_def stepped_def)

lemma wpv_advance_item:
  assumes real: "absence_is_real \<E>" and v: "current_row v i"
    and Q: "\<And>w. advanced \<E> v i w \<Longrightarrow> stepped \<E> v w \<Longrightarrow> Q () w" and K: "\<And>w. stepped \<E> v w \<Longrightarrow> K w"
    and F: "\<And>w. stepped \<E> v w \<Longrightarrow> F CatalogFailed w"
  shows "wpv (advance_item \<E> stack op (storage_kind v) i) Q F K v"
proof -
  have i: "i \<in> set (storage_items v)" using v find_itemD by (auto simp: current_row_def)
  show ?thesis
    unfolding advance_item_def wpv_bind
  proof (rule wpv_next_change [OF real v])
    fix a w assume a: "proposed \<E> v i a w"
    obtain c j where cj: "a = (c, j)" by (cases a)
    have row: "current_row w j" and k: "storage_kind w = storage_kind v" and fit: "fits (storage_kind w) j c"
      and seq: "item_seq j = item_seq i" and less: "work_left w \<le> work_left v"
      and true: "outcome_true \<E> (storage_kind v) i v (change_outcome c) w" and kept: "rows_kept v w"
      using a by (simp_all add: cj proposed_def)
    have here: "stepped \<E> v x" if "later w x" for x
      using row outcome_bin [OF true] retired_after [of w x \<E> "storage_kind v" i v] that i k
        ok_same [OF later_rows [OF that]] rows_same [OF later_rows [OF that]]
        rows_kept_trans [OF kept rows_kept_same [OF later_rows [OF that]]]
      by (auto simp: stepped_def current_row_def later_fields)
    have "wpv (record_change \<E> j c) (\<lambda>_. Q ()) F K w"
    proof (rule wpv_record [OF row fit])
      fix x assume r: "changed_rows w j c x" and d: "same_disk w x"
      note rows = changed_rows_ok [OF r row fit]
      have t: "outcome_true \<E> (storage_kind v) i v (change_outcome c) x" by (rule outcome_same_disk [OF d true])
      have "advanced \<E> v i x"
        using rows t r k less seq row by (auto simp: advanced_def changed_rows_def current_row_def)
      moreover have "stepped \<E> v x"
        using rows(1) r k outcome_bin [OF t] i rows_kept_trans [OF kept changed_rows_kept [OF r row]] by (auto simp: stepped_def changed_rows_def)
      ultimately show "Q () x" by (rule Q)
    qed (auto intro: K F here)
    then show "wpv (case a of (c, current) \<Rightarrow> v_bind (record_change \<E> current c) (\<lambda>_. v_ret ())) Q F K w"
      by (simp add: cj)
  qed (auto intro: K F no_worse_stepped i)
qed

definition same_items :: "storage \<Rightarrow> storage \<Rightarrow> bool" where
  "same_items v w \<longleftrightarrow> storage_items w = storage_items v \<and> storage_kind w = storage_kind v \<and> same_disk v w"

lemma same_items_later: "later v w \<Longrightarrow> same_items v w"
  using rows_same [OF later_rows] by (auto simp: same_items_def)

lemma same_items_trans: "same_items u v \<Longrightarrow> same_items v w \<Longrightarrow> same_items u w"
  by (simp add: same_items_def same_disk_def)

lemma stepped_from:
  assumes "same_items v u" and "stepped \<E> u w"
  shows "stepped \<E> v w"
proof -
  have d: "same_disk v u" using assms(1) by (simp add: same_items_def)
  have "retired_proven \<E> k i v w" if "retired_proven \<E> k i u w" for k i by (rule retired_disk [OF d that])
  then show ?thesis
    using assms rows_kept_trans [OF rows_kept_items [of u v], of w] unfolding stepped_def same_items_def same_disk_def
    by (elim conjE disjE) (simp_all, blast)
qed

lemma outcome_from:
  assumes "same_disk v u" and "outcome_true \<E> k i u r w"
  shows "outcome_true \<E> k i v r w"
  using assms retired_disk [OF assms(1), of \<E> k i w] unfolding outcome_true_def
  by (auto simp: same_disk_def split: option.splits entry_outcome.splits)

lemma stepped_to:
  assumes "stepped \<E> v u" and "same_items u w" and "storage_ok w"
  shows "stepped \<E> v w"
proof -
  have d: "same_disk u w" using assms(2) by (simp add: same_items_def)
  have "retired_proven \<E> k i v w" if "retired_proven \<E> k i v u" for k i by (rule retired_after [OF d that])
  then show ?thesis
    using assms rows_kept_trans [OF _ rows_kept_items [of w u], of v] unfolding stepped_def same_items_def same_disk_def
    by (elim conjE disjE) (simp_all, blast)
qed

text \<open>The first open item of a step, and what became of it.\<close>

definition first_open :: "storage \<Rightarrow> storage_item option" where
  "first_open v = find (\<lambda>i. item_outcome i = None) (storage_items v)"

definition first_true :: "venv \<Rightarrow> storage \<Rightarrow> storage \<Rightarrow> bool" where
  "first_true \<E> v w \<longleftrightarrow> (\<forall>i. first_open v = Some i \<longrightarrow>
     (\<exists>j. find_item (item_seq i) (storage_items w) = Some j \<and> outcome_true \<E> (storage_kind v) i v (item_outcome j) w))"

definition step_done :: "venv \<Rightarrow> storage \<Rightarrow> storage \<Rightarrow> bool" where
  "step_done \<E> v w \<longleftrightarrow> stepped \<E> v w \<and> first_true \<E> v w \<and> (storage_state w = StorageSettled \<or> work_left w < work_left v)"

lemma wpv_catalog_call:
  assumes "f v = Inr u" and "\<And>c. f (v\<lparr>calls := c\<rparr>) = Inr (u\<lparr>calls := c\<rparr>)"
    and "\<And>w. later v w \<Longrightarrow> K w" and "\<And>w. later v w \<Longrightarrow> F CatalogFailed w" and "\<And>c. Q () (u\<lparr>calls := c\<rparr>)"
  shows "wpv (catalog_call \<E> f) Q F K v"
  unfolding catalog_call_def using assms by (auto simp: wpv_call Let_def split: option.split)

lemma wpv_start_reviewed:
  assumes "storage_ok v" and "storage_state v \<noteq> StorageSettled"
    and K: "\<And>w. later v w \<Longrightarrow> K w" and F: "\<And>w. later v w \<Longrightarrow> F CatalogFailed w"
    and Q: "\<And>w. same_items v w \<Longrightarrow> storage_ok w \<Longrightarrow> storage_state w = StorageRunning \<Longrightarrow> Q () w"
  shows "wpv (start_reviewed \<E>) Q F K v"
proof (cases "storage_state v")
  case StorageReviewed
  let ?u = "v\<lparr>storage_state := StorageRunning\<rparr>"
  have "same_items v (?u\<lparr>calls := c\<rparr>)" "storage_ok (?u\<lparr>calls := c\<rparr>)" for c
    using assms(1) by (auto simp: same_items_def same_disk_def storage_ok_def find_entry_def fun_eq_iff)
  then have "wpv (catalog_call \<E> start_storage_operation) Q F K v"
    using StorageReviewed K F Q by (intro wpv_catalog_call [of _ _ ?u]) (auto simp: start_storage_operation_def)
  then show ?thesis
    using StorageReviewed by (simp add: start_reviewed_def wpv_def v_bind_def v_get_def)
next
  case StorageRunning
  then show ?thesis
    using Q [of v] assms(1) by (simp add: start_reviewed_def wpv_def v_bind_def v_get_def v_ret_def same_items_def same_disk_def)
qed (use assms(2) in simp)

lemma wpv_get [simp]: "wpv (v_get f) Q F K v = Q (f v) v"
  by (simp add: wpv_def v_get_def)

lemma wpv_settle_done:
  assumes ok: "storage_ok v" and run: "storage_state v = StorageRunning"
    and K: "\<And>w. later v w \<Longrightarrow> K w" and F: "\<And>w. later v w \<Longrightarrow> F CatalogFailed w"
    and Q: "\<And>w. same_items v w \<Longrightarrow> storage_ok w \<Longrightarrow>
      storage_state w = StorageSettled \<or> first_open v \<noteq> None \<Longrightarrow> Q () w"
  shows "wpv (settle_done \<E>) Q F K v"
proof (cases "list_all (\<lambda>i. item_outcome i \<noteq> None) (storage_items v)")
  case True
  let ?u = "v\<lparr>storage_state := StorageSettled\<rparr>"
  have all: "\<forall>i \<in> set (storage_items v). item_outcome i \<noteq> None" using True by (simp add: list_all_iff)
  have "same_items v (?u\<lparr>calls := c\<rparr>)" "storage_ok (?u\<lparr>calls := c\<rparr>)" for c
    using ok all by (auto simp: same_items_def same_disk_def storage_ok_def find_entry_def fun_eq_iff)
  then have "wpv (catalog_call \<E> settle_storage_operation) Q F K v"
    using all run K F Q by (intro wpv_catalog_call [of _ _ ?u]) (auto simp: settle_storage_operation_def list_ex_iff)
  then show ?thesis using True by (simp add: settle_done_def)
next
  case False
  then have "first_open v \<noteq> None" by (auto simp: first_open_def find_None_iff list_all_iff)
  then show ?thesis using False Q [of v] ok by (simp add: settle_done_def same_items_def same_disk_def)
qed

lemma wpv_advance_first:
  assumes real: "absence_is_real \<E>" and ok: "storage_ok v" and run: "storage_state v = StorageRunning"
    and K: "\<And>w. stepped \<E> v w \<Longrightarrow> K w" and F: "\<And>w. stepped \<E> v w \<Longrightarrow> F CatalogFailed w"
    and Q: "\<And>w. stepped \<E> v w \<Longrightarrow> storage_state w = StorageRunning \<Longrightarrow> first_true \<E> v w \<Longrightarrow>
      (first_open v = None \<Longrightarrow> w = v) \<Longrightarrow> (first_open v \<noteq> None \<Longrightarrow> work_left w < work_left v) \<Longrightarrow> Q () w"
  shows "wpv (advance_first \<E> stack) Q F K v"
proof (cases "first_open v")
  case None
  have "stepped \<E> v v" using ok by (simp add: stepped_def rows_kept_def)
  then show ?thesis using None Q [of v] run by (simp add: advance_first_def first_open_def first_true_def)
next
  case (Some i)
  have row: "current_row v i"
    using Some ok run find_first_open [OF ok] by (auto simp: first_open_def current_row_def find_Some_iff)
  have "wpv (advance_item \<E> stack (storage_name v) (storage_kind v) i) (\<lambda>_. wpv (catalog_read \<E> (\<lambda>_. ())) Q F K) F K v"
  proof (rule wpv_advance_item [OF real row])
    fix w assume a: "advanced \<E> v i w" and s: "stepped \<E> v w"
    have on: "stepped \<E> v x" if "later w x" for x
      using s that ok_same [OF later_rows [OF that]] by (intro stepped_to [OF s same_items_later]) (auto simp: stepped_def)
    have done': "Q () x" if "later w x" for x
    proof (rule Q [OF on [OF that]])
      note rs = rows_same [OF later_rows [OF that]] and os = ok_same [OF later_rows [OF that]]
      show "storage_state x = StorageRunning" "work_left x < work_left v"
        using a rs os by (auto simp: advanced_def)
      show "first_true \<E> v x"
        using a Some rs outcome_same_disk [of w x] that by (auto simp: first_true_def advanced_def)
      show "x = v" if "first_open v = None" using that Some by simp
    qed
    show "wpv (catalog_read \<E> (\<lambda>_. ())) Q F K w"
      unfolding catalog_read_def wpv_map_err
      by (rule wpv_read_call [OF later_refl]) (auto intro: K F on done')
  qed (auto intro: K F)
  then show ?thesis using Some by (simp add: advance_first_def first_open_def)
qed

lemma wpv_storage_step:
  assumes real: "absence_is_real \<E>" and ok: "storage_ok v" and open_state: "storage_state v \<noteq> StorageSettled"
    and K: "\<And>w. stepped \<E> v w \<Longrightarrow> K w" and F: "\<And>w. stepped \<E> v w \<Longrightarrow> F CatalogFailed w"
    and Q: "\<And>w. step_done \<E> v w \<Longrightarrow> Q () w"
  shows "wpv (storage_step \<E> stack) Q F K v"
proof -
  have on: "stepped \<E> v w" if "later v w" for w
    using that ok ok_same [OF later_rows [OF that]] rows_same [OF later_rows [OF that]] rows_kept_same [OF later_rows [OF that]]
    by (simp add: stepped_def later_fields)
  have go: "wpv (v_bind (start_reviewed \<E>) (\<lambda>_. v_bind (advance_first \<E> stack) (\<lambda>_. settle_done \<E>))) Q F K w" if w: "later v w" for w
    unfolding wpv_bind
  proof (rule wpv_start_reviewed)
    show "storage_ok w" "storage_state w \<noteq> StorageSettled"
      using ok open_state ok_same [OF later_rows [OF w]] rows_same [OF later_rows [OF w]] by simp_all
    show "K x" "F CatalogFailed x" if "later w x" for x
      using on [OF later_trans [OF w that]] by (auto intro: K F)
    fix x assume wx: "same_items w x" and x: "storage_ok x" "storage_state x = StorageRunning"
    have vx: "same_items v x" by (rule same_items_trans [OF same_items_later [OF w] wx])
    have fo: "first_open x = first_open v" and wl: "work_left x = work_left v"
      using vx by (simp_all add: first_open_def same_items_def work_left_def)
    show "wpv (advance_first \<E> stack) (\<lambda>_. wpv (settle_done \<E>) Q F K) F K x"
    proof (rule wpv_advance_first [OF real x])
      show "K y" "F CatalogFailed y" if "stepped \<E> x y" for y
        using stepped_from [OF vx that] by (auto intro: K F)
      fix y assume y: "stepped \<E> x y" "storage_state y = StorageRunning" "first_true \<E> x y"
        and none: "first_open x = None \<Longrightarrow> y = x" and some: "first_open x \<noteq> None \<Longrightarrow> work_left y < work_left x"
      have vy: "stepped \<E> v y" by (rule stepped_from [OF vx y(1)])
      have oky: "storage_ok y" using y(1) by (simp add: stepped_def)
      show "wpv (settle_done \<E>) Q F K y"
      proof (rule wpv_settle_done [OF oky y(2)])
        show "K z" "F CatalogFailed z" if "later y z" for z
          using stepped_to [OF vy same_items_later [OF that]] ok_same [OF later_rows [OF that]] oky by (auto intro: K F)
        fix z assume yz: "same_items y z" and z: "storage_ok z" and fin: "storage_state z = StorageSettled \<or> first_open y \<noteq> None"
        have "first_true \<E> v z"
          unfolding first_true_def
        proof (intro allI impI)
          fix i assume "first_open v = Some i"
          then obtain j where j: "find_item (item_seq i) (storage_items y) = Some j" "outcome_true \<E> (storage_kind x) i x (item_outcome j) y"
            using y(3) fo by (auto simp: first_true_def)
          have "outcome_true \<E> (storage_kind v) i v (item_outcome j) z"
            using outcome_same_disk [OF _ outcome_from [OF _ j(2)], of z v] vx yz by (simp add: same_items_def)
          then show "\<exists>j. find_item (item_seq i) (storage_items z) = Some j \<and> outcome_true \<E> (storage_kind v) i v (item_outcome j) z"
            using j(1) yz by (auto simp: same_items_def)
        qed
        moreover have "storage_state z = StorageSettled \<or> work_left z < work_left v"
        proof (cases "first_open x")
          case None
          then show ?thesis using none fin by auto
        next
          case (Some i)
          then show ?thesis using some wl yz by (simp add: work_left_def same_items_def)
        qed
        ultimately show "Q () z"
          using stepped_to [OF vy yz z] by (intro Q) (simp add: step_done_def)
      qed
    qed
  qed
  show ?thesis
    unfolding storage_step_def wpv_bind catalog_read_def wpv_map_err
    by (rule wpv_read_call [OF later_refl])
      (use go open_state in \<open>auto intro: K F on simp: rows_same(3) [OF later_rows] simp del: wpv_bind\<close>)
qed

end
