(* ===== verification/CustodyProps.thy ===== *)
theory CustodyProps
  imports TransferLaws
begin

text \<open>
  What custody guarantees: a move keeps the bytes it moves, and what a storage operation trashes has been
  proven first.
\<close>

section \<open>Moving a file\<close>

text \<open>
  C1. Whatever a move of a regular file meets - calls that fail, a volume that renames, links or copies, an end of the process before any call, at any depth of nested moves back - the bytes are afterwards under the old name, the new name or a hidden name beside the old one; a file that was at the new name is still there; no other entry or file changes; and a move that reports success has put the bytes under the new name.\<close>

theorem move_never_loses_the_file:
  assumes "inj (sha256_of \<E>)" and "inj (new_uuid \<E>)" and "sound v" and "unguessed_names (new_uuid \<E>) v"
    and "unguessed (new_uuid \<E>) (calls v) dest" and "from \<noteq> dest" and "file_at v from = Some bs"
    and "move_noreplace \<E> n from dest v = (r, w)"
  shows "(\<exists>p \<in> names_of_move (new_uuid \<E>) (calls v) from dest. file_at w p = Some bs) \<and>
    (find_entry v dest \<noteq> None \<longrightarrow> find_entry w dest = find_entry v dest \<and> file_at w dest = file_at v dest \<and> (\<forall>how. r \<noteq> Value how)) \<and>
    (\<forall>p. p \<notin> names_of_move (new_uuid \<E>) (calls v) from dest \<longrightarrow> find_entry w p = find_entry v p \<and> file_at w p = file_at v p) \<and>
    trash_bin w = trash_bin v \<and>
    (\<forall>how. r = Value how \<longrightarrow> file_at w dest = Some bs)"
proof -
  have v: "moves_from \<E> from dest bs v"
    using assms by (simp add: moves_from_def ready_def)
  have "moves_right \<E> from dest bs v (move_noreplace \<E> n from dest) v"
    using v moves_safely_move [OF assms(1)] unfolding moves_safely_iff by blast
  then have ends: "case r of Value _ \<Rightarrow> move_done (new_uuid \<E>) from dest bs v w
      | _ \<Rightarrow> move_halted (new_uuid \<E>) from dest bs v w"
    using assms(8) by (auto simp: moves_right_def wpv_def split: reply.splits)
  then have f: "frame (names_of_move (new_uuid \<E>) (calls v) from dest) {} v w"
    by (auto simp: move_done_def move_halted_def split: reply.splits)
  note same = file_at_same [OF _ f assms(3)]
  have "find_entry w p = find_entry v p" if "p \<notin> names_of_move (new_uuid \<E>) (calls v) from dest" for p
    using f that by (simp add: frame_def)
  moreover have "\<exists>p \<in> names_of_move (new_uuid \<E>) (calls v) from dest. file_at w p = Some bs"
    using ends by (auto simp: move_done_def move_halted_def names_of_move_def split: reply.splits)
  moreover have "trash_bin w = trash_bin v" using f by (simp add: frame_def)
  ultimately show ?thesis
    using ends same [of dest] by (auto simp: move_done_def move_halted_def same split: reply.splits)
qed

text \<open>A volume without links and without a rename that does not replace: the file goes by a verified copy.\<close>

definition bare_volume_env :: venv where
  "bare_volume_env =
    \<lparr>killed_at = \<lambda>_. False, fails_at = \<lambda>_. None, noreplace_error = Some NoSuchCall,
     persists_at = \<lambda>_. Refuses Unsupported, stored = \<lambda>_ bs. bs, chunk = \<lambda>_. 1,
     sha256_of = map (\<lambda>b. char_of (unat b)), inode_identity = \<lambda>i. \<lparr>on_volume = \<lparr>filesystem = ''exfat'', stable_id = Some ''v'', file_ids_stable = True,
       case_sensitivity = Sensitive, normalization = Sensitive\<rparr>, file_id = Some (show_nat i)\<rparr>,
     trash_at = \<lambda>_. Trashes, trash_supports = \<lambda>_ _. True, folder_ready = \<lambda>_. True,
     new_uuid = \<lambda>n. replicate n (CHR ''a''), on_macos = False\<rparr>"

definition one_file_volume :: volume where
  "one_file_volume =
    \<lparr>dirents = [((0, ''a.fits''), 1)], inodes = \<lambda>_. \<lparr>vkind = VFile, vdata = [1, 2, 3], vtime = 7, vattrs = []\<rparr>,
     next_inode = 2, trash_bin = [], calls = 0\<rparr>"

lemma bare_sha_inj: "inj (sha256_of bare_volume_env)"
proof -
  have "inj (\<lambda>b :: 8 word. char_of (unat b) :: char)"
  proof (rule injI)
    fix a b :: "8 word"
    assume "(char_of (unat a) :: char) = char_of (unat b)"
    then have "unat a mod 256 = unat b mod 256" by (metis of_char_of)
    then have "unat a = unat b" using unsigned_less [of a, where ?'a = nat] unsigned_less [of b, where ?'a = nat] by simp
    then show "a = b" by (rule unsigned_word_eqI)
  qed
  then show ?thesis by (simp add: bare_volume_env_def inj_mapI)
qed

lemma bare_uuid_inj: "inj (new_uuid bare_volume_env)"
  by (auto simp: bare_volume_env_def intro!: injI dest: arg_cong [of _ _ length])

lemma one_file_names:
  "sound one_file_volume" "unguessed_names (new_uuid bare_volume_env) one_file_volume"
  "unguessed (new_uuid bare_volume_env) n (0, ''b.fits'')" "file_at one_file_volume (0, ''a.fits'') = Some [1, 2, 3]"
  by (auto simp: sound_def unguessed_names_def unguessed_def one_file_volume_def find_entry_def file_at_def aside_name_of_def
      ASIDE_PREFIX_def)

lemma bare_move_succeeds:
  "fst (move_noreplace bare_volume_env 2 (0, ''a.fits'') (0, ''b.fits'') one_file_volume) = Value (MovedCopied (inode_identity bare_volume_env 2))"
  by code_simp

theorem move_never_loses_the_file_witness:
  "file_at (snd (move_noreplace bare_volume_env 2 (0, ''a.fits'') (0, ''b.fits'') one_file_volume)) (0, ''b.fits'') = Some [1, 2, 3]"
  using move_never_loses_the_file [OF bare_sha_inj bare_uuid_inj one_file_names(1,2,3) _ one_file_names(4) prod.collapse [symmetric]]
    bare_move_succeeds by simp

end
