(* ===== verification/StorageProps.thy ===== *)
theory StorageProps
  imports StorageSteps CustodyProps
begin

text \<open>
  What a storage operation guarantees: what goes to the Trash has been proven first, an outcome that is
  recorded is true of the disk, the journal takes every change the executor proposes, and an operation
  ends within a number of steps that its rows give; over any number of sessions as well.
\<close>

section \<open>One step\<close>

lemma storage_step_cases:
  assumes "absence_is_real \<E>" and "storage_ok v" and "storage_state v \<noteq> StorageSettled"
    and "storage_step \<E> stack v = (r, w)"
  shows "stepped \<E> v w" "\<And>e. r = Failed e \<Longrightarrow> e = CatalogFailed" "r = Value () \<Longrightarrow> step_done \<E> v w"
proof -
  have "wpv (storage_step \<E> stack) (\<lambda>_. step_done \<E> v) (\<lambda>e w. e = CatalogFailed \<and> stepped \<E> v w) (stepped \<E> v) v"
    by (rule wpv_storage_step [OF assms(1-3)]) auto
  then show "stepped \<E> v w" "\<And>e. r = Failed e \<Longrightarrow> e = CatalogFailed" "r = Value () \<Longrightarrow> step_done \<E> v w"
    using assms(4) by (auto simp: wpv_def step_done_def split: reply.splits)
qed

text \<open>
  C4. Whatever happens in a step - failing calls, a Trash that refuses, lies or takes the entry anyway, an
  end of the process before any call - the Trash afterwards is as it was, or it has got exactly one entry
  more: the source of an item of the operation, which is not a Copy. At the moment it went, the source
  held its reviewed bytes (or read its reviewed target), every kept copy the item relies on held its own,
  and for a Move the destination held the reviewed bytes. No other entry and no file changed with it.
\<close>

theorem only_proven_entries_are_trashed:
  assumes "absence_is_real \<E>" and "storage_ok v" and "storage_state v \<noteq> StorageSettled"
    and "storage_step \<E> stack v = (r, w)" and "trash_bin w \<noteq> trash_bin v"
  shows "\<exists>i \<in> set (storage_items v). \<exists>n. storage_kind v \<noteq> CopyItems \<and>
    find_entry v (evidence_path (item_source i)) = Some n \<and>
    trash_bin w = (evidence_path (item_source i), n) # trash_bin v \<and>
    is_reviewed \<E> (item_source i) v \<and>
    (\<forall>k \<in> set (relied_on i). has_digest \<E> v (kept_path k) (Some (kept_sha256 k))) \<and>
    (storage_kind v = MoveItems \<longrightarrow> (\<exists>d. item_destination i = Some d \<and> has_digest \<E> v d (evidence_sha256 (item_source i)))) \<and>
    find_entry w = (find_entry v)(evidence_path (item_source i) := None) \<and> inodes w = inodes v"
  using storage_step_cases(1) [OF assms(1-4)] assms(5)
  by (auto simp: stepped_def retired_proven_def went_to_trash_def destination_proven_def)

text \<open>
  C5. When a step returns, the outcome recorded for the first open item is true of the disk: Copied says
  that the destination now holds the reviewed bytes, Trashed and Moved that the proven source went to the
  Trash, Blocked, Source kept and no outcome yet that the Trash is untouched; only Uncertain leaves it
  open.
\<close>

theorem recorded_outcomes_are_true:
  assumes "absence_is_real \<E>" and "storage_ok v" and "storage_state v \<noteq> StorageSettled"
    and "storage_step \<E> stack v = (Value (), w)" and "first_open v = Some i"
  shows "\<exists>j. find_item (item_seq i) (storage_items w) = Some j \<and>
    (item_outcome j = Some Copied \<longrightarrow>
      (\<exists>d. item_destination i = Some d \<and> has_digest \<E> w d (evidence_sha256 (item_source i)))) \<and>
    (item_outcome j \<in> {Some Trashed, Some Moved} \<longrightarrow> retired_proven \<E> (storage_kind v) i v w) \<and>
    (item_outcome j \<in> {None, Some Copied, Some ItemBlocked, Some SourceKept} \<longrightarrow> trash_bin w = trash_bin v)"
proof -
  have "first_true \<E> v w"
    using storage_step_cases(3) [OF assms(1-4)] by (simp add: step_done_def)
  then obtain j where "find_item (item_seq i) (storage_items w) = Some j" "outcome_true \<E> (storage_kind v) i v (item_outcome j) w"
    using assms(5) by (auto simp: first_true_def)
  then show ?thesis
    by (intro exI [of _ j]) (auto simp: outcome_true_def)
qed

text \<open>
  C6. The journal takes every change the executor proposes: from well-formed rows a step fails only
  because the catalog itself does, never because a change is refused, an item cannot advance, or a
  destination or a written copy is missing; its rows are well formed afterwards, keep their sources, and
  a row with an outcome never changes again.
\<close>

theorem executor_and_journal_agree:
  assumes "absence_is_real \<E>" and "storage_ok v" and "storage_state v \<noteq> StorageSettled"
    and "storage_step \<E> stack v = (r, w)"
  shows "storage_ok w \<and> rows_kept v w \<and> (\<forall>e. r = Failed e \<longrightarrow> e = CatalogFailed)"
  using storage_step_cases [OF assms] by (auto simp: stepped_def)

section \<open>Running to the end\<close>

lemma settled_step:
  assumes "storage_state v = StorageSettled"
  shows "wpv (storage_step \<E> stack) (\<lambda>_. later v) (\<lambda>e w. e = CatalogFailed \<and> later v w) (later v) v"
  unfolding storage_step_def wpv_bind catalog_read_def wpv_map_err
  by (rule wpv_read_call [OF later_refl]) (auto simp: assms rows_same(3) [OF later_rows])

lemma run_fuel:
  assumes "absence_is_real \<E>"
  shows "storage_ok v \<Longrightarrow> work_left v < n \<Longrightarrow> work_left v < m \<Longrightarrow>
    run_storage_operation \<E> stack n v = run_storage_operation \<E> stack m v"
proof (induction "work_left v" arbitrary: v n m rule: less_induct)
  case less
  obtain n' m' where nm: "n = Suc n'" "m = Suc m'" using less.prems by (cases n; cases m) auto
  obtain r w where rw: "storage_step \<E> stack v = (r, w)" by (cases "storage_step \<E> stack v")
  show ?case
  proof (cases r)
    case (Value u)
    show ?thesis
    proof (cases "storage_state w = StorageSettled")
      case True
      then show ?thesis using Value rw by (simp add: nm v_bind_def v_get_def v_ret_def)
    next
      case False
      have "storage_state v \<noteq> StorageSettled"
      proof
        assume s: "storage_state v = StorageSettled"
        then have "later v w" using settled_step [OF s, of \<E> stack] rw Value by (simp add: wpv_def)
        then show False using False s rows_same(3) [OF later_rows, of v w] by simp
      qed
      then have "step_done \<E> v w" using storage_step_cases(3) [OF assms less.prems(1) _ rw] Value by simp
      then have "work_left w < work_left v" "storage_ok w" using False by (auto simp: step_done_def stepped_def)
      then have "run_storage_operation \<E> stack n' w = run_storage_operation \<E> stack m' w"
        using less.prems(2,3) nm by (intro less.hyps) auto
      then show ?thesis using Value rw False by (simp add: nm v_bind_def v_get_def)
    qed
  qed (use rw in \<open>simp_all add: nm v_bind_def\<close>)
qed

text \<open>Settled, with an outcome for every item.\<close>

lemma run_ends:
  assumes "absence_is_real \<E>"
  shows "storage_ok v \<Longrightarrow> run_storage_operation \<E> stack n v = (r, w) \<Longrightarrow>
    storage_ok w \<and> rows_kept v w \<and> storage_kind w = storage_kind v \<and>
    (r = Value () \<longrightarrow> storage_state w = StorageSettled) \<and> (\<forall>e. r = Failed e \<longrightarrow> e = CatalogFailed)"
proof (induction n arbitrary: v r w)
  case 0
  then show ?case by (simp add: v_die_def rows_kept_def)
next
  case (Suc n)
  obtain q u where qu: "storage_step \<E> stack v = (q, u)" by (cases "storage_step \<E> stack v")
  have step: "storage_ok u \<and> rows_kept v u \<and> storage_kind u = storage_kind v \<and> (\<forall>e. q = Failed e \<longrightarrow> e = CatalogFailed)"
  proof (cases "storage_state v = StorageSettled")
    case True
    have l: "later v u" and "\<forall>e. q = Failed e \<longrightarrow> e = CatalogFailed"
      using settled_step [OF True, of \<E> stack] qu by (auto simp: wpv_def split: reply.splits)
    then show ?thesis
      using Suc.prems(1) ok_same [OF later_rows [OF l]] rows_same [OF later_rows [OF l]] rows_kept_same [OF later_rows [OF l]] by simp
  next
    case False
    then show ?thesis using storage_step_cases [OF assms Suc.prems(1) False qu] by (auto simp: stepped_def)
  qed
  show ?case
  proof (cases q)
    case (Value x)
    show ?thesis
    proof (cases "storage_state u = StorageSettled")
      case True
      then show ?thesis using Suc.prems(2) qu Value step by (auto simp: v_bind_def v_get_def v_ret_def)
    next
      case False
      then have "run_storage_operation \<E> stack n u = (r, w)" using Suc.prems(2) qu Value by (simp add: v_bind_def v_get_def)
      then show ?thesis using Suc.IH [of u r w] step rows_kept_trans by auto
    qed
  qed (use Suc.prems(2) qu step in \<open>auto simp: v_bind_def\<close>)
qed

lemma work_bound: "work_left v \<le> 5 * length (storage_items v)"
proof -
  have "sum_list (map (\<lambda>i. phase_rank (item_phase i)) is) \<le> 5 * length is" for "is" :: "storage_item list"
    by (induction "is") (auto simp: phase_rank_def split: item_phase.split)
  then show ?thesis by (simp add: work_left_def)
qed

text \<open>
  C8. A run of an operation ends: five steps an item are enough, whatever the calls of the operating
  system answer, and more rounds change nothing. A run that returns has settled the operation, with an
  outcome for every item; one that fails does so because the catalog failed.
\<close>

theorem operation_ends_in_five_steps_an_item:
  assumes "absence_is_real \<E>" and "storage_ok v" and "5 * length (storage_items v) < n"
    and "run_storage_operation \<E> stack n v = (r, w)"
  shows "run_storage_operation \<E> stack (n + m) v = (r, w) \<and>
    (r = Value () \<longrightarrow> storage_state w = StorageSettled \<and> (\<forall>i \<in> set (storage_items w). item_outcome i \<noteq> None)) \<and>
    (\<forall>e. r = Failed e \<longrightarrow> e = CatalogFailed)"
proof -
  have "work_left v < n" using work_bound [of v] assms(3) by simp
  then have "run_storage_operation \<E> stack (n + m) v = (r, w)"
    using run_fuel [OF assms(1,2), of "n + m" n stack] assms(4) by simp
  then show ?thesis
    using run_ends [OF assms(1,2,4)] by (auto simp: storage_ok_def)
qed

section \<open>Any number of sessions\<close>

text \<open>An operation is run, the process ends or the catalog fails, and it is run again, under another environment each time.\<close>

inductive storage_history :: "storage \<Rightarrow> storage \<Rightarrow> bool" for v where
  begun: "storage_history v v"
| session: "storage_history v u \<Longrightarrow> absence_is_real \<E> \<Longrightarrow> run_storage_operation \<E> stack n u = (r, w) \<Longrightarrow> storage_history v w"

definition sources_of :: "storage \<Rightarrow> vpath set" where
  "sources_of v = (\<lambda>i. evidence_path (item_source i)) ` set (storage_items v)"

definition only_sources_trashed :: "storage \<Rightarrow> storage \<Rightarrow> bool" where
  "only_sources_trashed v w \<longleftrightarrow>
     (\<exists>ts. trash_bin w = ts @ trash_bin v \<and> (\<forall>e \<in> set ts. storage_kind v \<noteq> CopyItems \<and> fst e \<in> sources_of v))"

lemma sources_kept: "rows_kept v w \<Longrightarrow> sources_of w = sources_of v"
proof -
  assume "rows_kept v w"
  then have "map (\<lambda>i. (item_seq i, item_source i)) (storage_items w) = map (\<lambda>i. (item_seq i, item_source i)) (storage_items v)"
    by (simp add: rows_kept_def)
  then have "map (evidence_path \<circ> snd) (map (\<lambda>i. (item_seq i, item_source i)) (storage_items w)) =
      map (evidence_path \<circ> snd) (map (\<lambda>i. (item_seq i, item_source i)) (storage_items v))" by simp
  then have "map (\<lambda>i. evidence_path (item_source i)) (storage_items w) = map (\<lambda>i. evidence_path (item_source i)) (storage_items v)"
    by (simp add: comp_def)
  then show ?thesis by (metis sources_of_def list.set_map)
qed

lemma trashed_trans:
  assumes "only_sources_trashed u v" and "only_sources_trashed v w" and "rows_kept u v" and "storage_kind v = storage_kind u"
  shows "only_sources_trashed u w"
  using assms sources_kept [OF assms(3)] by (fastforce simp: only_sources_trashed_def)

lemma step_trashes_sources:
  assumes "absence_is_real \<E>" and "storage_ok v" and "storage_step \<E> stack v = (r, w)"
  shows "only_sources_trashed v w \<and> storage_ok w \<and> rows_kept v w \<and> storage_kind w = storage_kind v"
proof (cases "storage_state v = StorageSettled")
  case True
  have l: "later v w" using settled_step [OF True, of \<E> stack] assms(3) by (auto simp: wpv_def split: reply.splits)
  then show ?thesis
    using assms(2) ok_same [OF later_rows [OF l]] rows_same [OF later_rows [OF l]] rows_kept_same [OF later_rows [OF l]]
    by (simp add: only_sources_trashed_def later_fields)
next
  case False
  then show ?thesis
    using storage_step_cases(1) [OF assms(1,2) False assms(3)]
    by (auto simp: stepped_def only_sources_trashed_def retired_proven_def went_to_trash_def sources_of_def)
qed

lemma run_trashes_sources:
  assumes "absence_is_real \<E>"
  shows "storage_ok v \<Longrightarrow> run_storage_operation \<E> stack n v = (r, w) \<Longrightarrow> only_sources_trashed v w"
proof (induction n arbitrary: v r w)
  case 0
  then show ?case by (simp add: v_die_def only_sources_trashed_def)
next
  case (Suc n)
  obtain q u where qu: "storage_step \<E> stack v = (q, u)" by (cases "storage_step \<E> stack v")
  note step = step_trashes_sources [OF assms Suc.prems(1) qu]
  show ?case
  proof (cases q)
    case (Value x)
    show ?thesis
    proof (cases "storage_state u = StorageSettled")
      case True
      then show ?thesis using Suc.prems(2) qu Value step by (auto simp: v_bind_def v_get_def v_ret_def)
    next
      case False
      then have "run_storage_operation \<E> stack n u = (r, w)" using Suc.prems(2) qu Value by (simp add: v_bind_def v_get_def)
      then show ?thesis using Suc.IH [of u r w] step trashed_trans [of v u w] by auto
    qed
  qed (use Suc.prems(2) qu step in \<open>auto simp: v_bind_def\<close>)
qed

text \<open>
  C7. Over any sequence of sessions of an operation, however each of them ends: all that ever goes to the
  Trash are sources of its own items, a Copy trashes nothing, the rows stay well formed and keep their
  sources, and an item that has an outcome keeps it.
\<close>

theorem sessions_trash_only_sources:
  assumes "storage_history v w" and "storage_ok v"
  shows "storage_ok w \<and> storage_kind w = storage_kind v \<and> rows_kept v w \<and> only_sources_trashed v w"
  using assms
proof (induction rule: storage_history.induct)
  case begun
  then show ?case by (simp add: rows_kept_def only_sources_trashed_def)
next
  case (session u \<E> stack n r w)
  note run = run_ends [OF session.hyps(2) _ session.hyps(3)] run_trashes_sources [OF session.hyps(2) _ session.hyps(3)]
  show ?case
    using session run trashed_trans [of v u w] rows_kept_trans [of v u w] by simp
qed

section \<open>An operation on concrete files\<close>

definition demo_source :: entry_evidence where
  "demo_source =
    \<lparr>evidence_path = (0, ''a.fits''), evidence_kind = EntryFile,
     evidence_print = \<lparr>identity = inode_identity bare_volume_env 1, size_bytes = 3, modified_ns = 7, content_sha256 = None\<rparr>,
     evidence_sha256 = Some (sha256_of bare_volume_env [1, 2, 3])\<rparr>"

definition demo_item :: "vpath option \<Rightarrow> storage_item" where
  "demo_item d =
    \<lparr>item_seq = 0, item_source = demo_source, relied_on = [], item_destination = d, item_written = None,
     item_phase = ItemPending, item_outcome = None, item_reason = None, item_revision = 1\<rparr>"

definition demo_operation :: "storage_kind \<Rightarrow> storage" where
  "demo_operation k =
    \<lparr>dirents = [((0, ''a.fits''), 1)], inodes = \<lambda>_. \<lparr>vkind = VFile, vdata = [1, 2, 3], vtime = 7, vattrs = []\<rparr>,
     next_inode = 2, trash_bin = [], calls = 0,
     storage_name = ''op'', storage_kind = k, storage_state = StorageReviewed,
     storage_items = [demo_item (if k = TrashItems then None else Some (0, ''b.fits''))]\<rparr>"

lemma demo_ok: "storage_ok (demo_operation k)"
  by (cases k) (simp_all add: storage_ok_def demo_operation_def demo_item_def item_ok_def phase_fits_def wrote_def explained_def)

lemma bare_is_real: "absence_is_real bare_volume_env"
  by (simp add: absence_is_real_def bare_volume_env_def)

lemma demo_open: "storage_state (demo_operation k) \<noteq> StorageSettled" "first_open (demo_operation k) = Some (demo_item (if k = TrashItems then None else Some (0, ''b.fits'')))"
  by (simp_all add: demo_operation_def first_open_def demo_item_def)

lemma demo_trash_step:
  "fst (storage_step bare_volume_env 2 (demo_operation TrashItems)) = Value ()"
  "trash_bin (snd (storage_step bare_volume_env 2 (demo_operation TrashItems))) = [((0, ''a.fits''), 1)]"
  "map_option item_outcome (find_item 0 (storage_items (snd (storage_step bare_volume_env 2 (demo_operation TrashItems))))) = Some (Some Trashed)"
  by code_simp+

lemma demo_trash_run:
  "fst (run_storage_operation bare_volume_env 2 6 (demo_operation TrashItems)) = Value ()"
  by code_simp

theorem only_proven_entries_are_trashed_witness:
  "is_reviewed bare_volume_env demo_source (demo_operation TrashItems) \<and>
   find_entry (snd (storage_step bare_volume_env 2 (demo_operation TrashItems))) (0, ''a.fits'') = None"
  using only_proven_entries_are_trashed [OF bare_is_real demo_ok demo_open(1) prod.collapse [symmetric], of 2 TrashItems]
    demo_trash_step(2)
  by (simp add: demo_operation_def demo_item_def demo_source_def)

theorem recorded_outcomes_are_true_witness:
  "retired_proven bare_volume_env TrashItems (demo_item None) (demo_operation TrashItems)
     (snd (storage_step bare_volume_env 2 (demo_operation TrashItems)))"
proof -
  have "storage_step bare_volume_env 2 (demo_operation TrashItems) = (Value (), snd (storage_step bare_volume_env 2 (demo_operation TrashItems)))"
    using demo_trash_step(1) by (metis prod.collapse)
  from recorded_outcomes_are_true [OF bare_is_real demo_ok demo_open(1) this demo_open(2)]
  show ?thesis using demo_trash_step(3) by (auto simp: demo_operation_def demo_item_def)
qed

theorem executor_and_journal_agree_witness:
  "storage_ok (snd (storage_step bare_volume_env 2 (demo_operation MoveItems)))"
  using executor_and_journal_agree [OF bare_is_real demo_ok demo_open(1) prod.collapse [symmetric]] by simp

theorem operation_ends_in_five_steps_an_item_witness:
  "storage_state (snd (run_storage_operation bare_volume_env 2 6 (demo_operation TrashItems))) = StorageSettled"
proof -
  have "5 * length (storage_items (demo_operation TrashItems)) < 6" by (simp add: demo_operation_def)
  from operation_ends_in_five_steps_an_item [OF bare_is_real demo_ok this prod.collapse [symmetric]]
  show ?thesis using demo_trash_run by simp
qed

theorem sessions_trash_only_sources_witness:
  "only_sources_trashed (demo_operation MoveItems) (snd (run_storage_operation bare_volume_env 2 6 (demo_operation MoveItems)))"
  using sessions_trash_only_sources [OF storage_history.session [OF storage_history.begun bare_is_real prod.collapse [symmetric]] demo_ok]
  by simp

end
