(* ===== verification/Recovery.thy ===== *)
theory Recovery
  imports CustodyProps
begin

text \<open>
  The leftovers of an interrupted move by copy: an unfinished copy, a source set aside and the aside of an
  installed copy are removed only when their bytes are kept under another name, and the hidden names of a
  move are told from every other name.
\<close>

section \<open>Removing what another file holds\<close>

text \<open>Every file's bytes are still the beginning of some file's, whatever its name.\<close>

definition nothing_lost :: "'s volume_scheme \<Rightarrow> 's volume_scheme \<Rightarrow> bool" where
  "nothing_lost v w \<longleftrightarrow> (\<forall>p bs. file_at v p = Some bs \<longrightarrow> (\<exists>q cs. file_at w q = Some (bs @ cs)))"

text \<open>A cleanup removes entries, touches no file and loses nothing.\<close>

definition cleaned :: "'s volume_scheme \<Rightarrow> 's volume_scheme \<Rightarrow> bool" where
  "cleaned v w \<longleftrightarrow> nothing_lost v w \<and> (\<forall>p. find_entry w p \<in> {None, find_entry v p}) \<and> inodes w = inodes v \<and>
     trash_bin w = trash_bin v \<and> next_inode w = next_inode v \<and> calls v \<le> calls w \<and> volume.more w = volume.more v"

lemma nothing_lost_refl [simp]: "nothing_lost v v"
  unfolding nothing_lost_def by (metis append_Nil2)

lemma nothing_lost_same: "file_at w = file_at v \<Longrightarrow> nothing_lost v w"
  unfolding nothing_lost_def by (metis append_Nil2)

lemma nothing_lost_trans: "nothing_lost u v \<Longrightarrow> nothing_lost v w \<Longrightarrow> nothing_lost u w"
  unfolding nothing_lost_def by (metis append.assoc)

lemma cleaned_later: "later v w \<Longrightarrow> cleaned v w"
  using nothing_lost_same [OF later_file] by (simp add: cleaned_def later_fields)

lemma cleaned_trans:
  assumes "cleaned u v" and "cleaned v w"
  shows "cleaned u w"
proof -
  have "find_entry w p \<in> {None, find_entry v p}" "find_entry v p \<in> {None, find_entry u p}" for p
    using assms unfolding cleaned_def by blast+
  then have "find_entry w p \<in> {None, find_entry u p}" for p
    by (metis empty_iff insert_iff)
  then show ?thesis
    using assms nothing_lost_trans [of u v w] unfolding cleaned_def by simp
qed

lemma cleaned_drop:
  assumes "later v w" and "find_entry v c = Some i" and "find_entry v o' = Some j" and "i \<noteq> j"
    and "vkind (inodes v j) = VFile" and "vdata (inodes v j) = vdata (inodes v i) @ cs"
  shows "cleaned v (drop_entry c w)"
proof -
  have "c \<noteq> o'" using assms by auto
  have "\<exists>q ds. file_at (drop_entry c w) q = Some (bs @ ds)" if "file_at v p = Some bs" for p bs
  proof (cases "p = c")
    case True
    then have "bs = vdata (inodes v i)" using that assms(2) by (auto dest: file_at_SomeD)
    then have "file_at (drop_entry c w) o' = Some (bs @ cs)"
      using assms \<open>c \<noteq> o'\<close> by (simp add: file_drop file_at_def)
    then show ?thesis by blast
  next
    case False
    then have "file_at (drop_entry c w) p = Some (bs @ [])" using that assms(1) by (simp add: file_drop)
    then show ?thesis by blast
  qed
  then show ?thesis using assms(1) by (auto simp: cleaned_def nothing_lost_def later_fields)
qed

lemma wpv_starts_with:
  assumes "later u v" and "\<And>w. later u w \<Longrightarrow> K w" and "\<And>w. later u w \<Longrightarrow> Q False w"
    and "\<And>w. later u w \<Longrightarrow> n \<le> length (vdata (inodes u h)) \<Longrightarrow> n \<le> length (vdata (inodes u k)) \<Longrightarrow>
      take n (vdata (inodes u h)) = take n (vdata (inodes u k)) \<Longrightarrow> Q True w"
  shows "wpv (starts_with \<E> h k n) Q F K v"
  unfolding starts_with_def wpv_ok wpv_bind wpv_ret
proof (rule wpv_read [OF assms(1,2,3)], assumption, assumption)
  fix w assume w: "later u w"
  let ?b = "n \<le> length (vdata (inodes u h)) \<and> n \<le> length (vdata (inodes u k)) \<and>
    take n (vdata (inodes u h)) = take n (vdata (inodes u k))"
  have "Q ?b x" if "later u x" for x
    using that assms(3,4) by (cases ?b) (simp_all only: simp_thms)
  then show "wpv (sys_read \<E> k) (\<lambda>b. Q (n \<le> length (vdata (inodes u h)) \<and> n \<le> length b \<and>
      take n (vdata (inodes u h)) = take n b)) (\<lambda>_. Q False) K w"
    by (intro wpv_read [OF w] assms(2,3))
qed

lemma wpv_remove_unfinished_copy:
  assumes "later u v" and K: "\<And>w. later u w \<Longrightarrow> K w" and no: "\<And>w. later u w \<Longrightarrow> Q False w"
    and yes: "\<And>w. cleaned u w \<Longrightarrow> find_entry w = (find_entry u)(c := None) \<Longrightarrow> Q True w"
  shows "wpv (remove_unfinished_copy \<E> c whole) Q F K v"
proof -
  have removal: "wpv (sys_remove_file \<E> c) (\<lambda>_. Q True) (\<lambda>_. Q False) K w"
    if "later u w" "find_entry u c = Some i" "find_entry u whole = Some j" "vkind (inodes u i) = VFile" "vkind (inodes u j) = VFile"
      "\<not> same_entry (i, inodes u i) (j, inodes u j)" "length (vdata (inodes u i)) \<le> length (vdata (inodes u j))"
      "take (length (vdata (inodes u i))) (vdata (inodes u j)) = take (length (vdata (inodes u i))) (vdata (inodes u i))" for w i j
  proof (rule wpv_remove_file [OF that(1) K no], assumption, assumption)
    fix x assume x: "later u x"
    have "i \<noteq> j" using that(4,5,6) by (auto simp: same_entry_def is_link_def)
    moreover have "vdata (inodes u j) = vdata (inodes u i) @ drop (length (vdata (inodes u i))) (vdata (inodes u j))"
      using that(8) by (metis append_take_drop_id take_all order_refl)
    ultimately have "cleaned u (drop_entry c x)" using cleaned_drop [OF x that(2,3) _ that(5)] by blast
    then show "Q True (drop_entry c x)" using x by (intro yes) (auto simp: fun_eq_iff)
  qed
  show ?thesis
    unfolding remove_unfinished_copy_def
    by (simp, rule wpv_open [OF assms(1) K])
      (use no K removal in \<open>auto simp: Let_def intro!: wpv_open [of u] wpv_fstat [of u] wpv_starts_with [of u] wpv_names [of u]\<close>)
qed

lemma wpv_copy_of:
  assumes "later u v" and K: "\<And>w. later u w \<Longrightarrow> K w" and no: "\<And>w. later u w \<Longrightarrow> Q None w"
    and yes: "\<And>w j. later u w \<Longrightarrow> find_entry u copy = Some j \<Longrightarrow> vkind (inodes u j) = VFile \<Longrightarrow> j \<noteq> held \<Longrightarrow>
      vdata (inodes u j) = vdata (inodes u held) \<Longrightarrow> Q (Some (j, inodes u j)) w"
  shows "wpv (copy_of \<E> copy held (held, inodes u held)) Q F K v"
  unfolding copy_of_def
  by (simp, rule wpv_open [OF assms(1) K])
    (use no K yes in \<open>auto simp: same_entry_def intro!: wpv_fstat [of u] wpv_starts_with [of u]\<close>)

lemma wpv_remove_if_named:
  assumes "later u v" and K: "\<And>w. later u w \<Longrightarrow> K w" and no: "\<And>w. later u w \<Longrightarrow> Q False w"
    and yes: "\<And>w. later u w \<Longrightarrow> find_entry u p = Some h \<Longrightarrow> Q True (drop_entry p w)"
  shows "wpv (remove_if_named \<E> p h) Q F K v"
  unfolding remove_if_named_def wpv_bind
  by (rule wpv_names [OF assms(1) K]) (use no K yes in \<open>auto intro!: wpv_remove_file [of u]\<close>)

lemma wpv_remove_copied:
  assumes "later u v" and K: "\<And>w. later u w \<Longrightarrow> K w" and no: "\<And>w. later u w \<Longrightarrow> Q False w"
    and yes: "\<And>w. cleaned u w \<Longrightarrow> find_entry w = (find_entry u)(aside := None) \<Longrightarrow> Q True w"
  shows "wpv (remove_copied \<E> aside copy also) Q F K v"
proof -
  have removed: "Q True (drop_entry aside x)"
    if "later u x" "find_entry u aside = Some h" "find_entry u copy = Some j" "vkind (inodes u j) = VFile" "j \<noteq> h"
      "vdata (inodes u j) = vdata (inodes u h)" for x h j
    using cleaned_drop [OF that(1,2,3) _ that(4), of "[]"] that by (intro yes) (auto simp: fun_eq_iff)
  show ?thesis
    unfolding remove_copied_def
    by (simp, rule wpv_open [OF assms(1) K])
      (use no K removed in \<open>auto intro!: wpv_fstat [of u] wpv_copy_of [of u] wpv_remove_if_named [of u]\<close>)
qed

lemma reads_proven_among: "reads (proven_among \<E> folder s ns)"
  by (induction \<E> folder s ns rule: proven_among.induct) (auto intro!: reads_rules split: option.split)

lemma reads_proven_asides [reads_rules]: "reads (proven_asides \<E> p s)"
  unfolding proven_asides_def by (intro reads_rules reads_proven_among)

lemma wpv_drop_claimed:
  assumes "later u v" and K: "\<And>w. cleaned u w \<Longrightarrow> K w"
    and done': "\<And>w. cleaned u w \<Longrightarrow> find_entry w copy = find_entry u copy \<Longrightarrow> Q () w"
  shows "wpv (drop_claimed \<E> src copy aside claimed) Q F K v"
proof (cases claimed)
  case None
  then show ?thesis using done' [OF cleaned_later [OF assms(1)]] assms(1) by (simp add: drop_claimed_def)
next
  case (Some n)
  have here: "K w" "Q () w" if "later u w" for w
    using K done' cleaned_later [OF that] that by simp_all
  show ?thesis
    unfolding drop_claimed_def Some
    using here assms(1) K done' by (auto simp: Let_def intro!: wpv_lstat [of u] wpv_remove_unfinished_copy [of u])
qed

definition tidy :: "('s, 'e, bool) vrun \<Rightarrow> bool" where
  "tidy m \<longleftrightarrow> (\<forall>v. wpv m (\<lambda>_. cleaned v) (\<lambda>_. cleaned v) (cleaned v) v)"

lemma wpv_tidy:
  assumes "tidy m" and "cleaned u v" and "\<And>w. cleaned u w \<Longrightarrow> K w" and "\<And>w e. cleaned u w \<Longrightarrow> F e w" and "\<And>w a. cleaned u w \<Longrightarrow> Q a w"
  shows "wpv m Q F K v"
  by (rule wpv_mono [of m "\<lambda>_. cleaned v" "\<lambda>_. cleaned v" "cleaned v"])
    (use assms cleaned_trans [of u v] in \<open>auto simp: tidy_def\<close>)

lemma tidy_first_aside: "tidy (remove_first_aside \<E> src copy asides :: ('s, 'e, bool) vrun)"
proof (induction \<E> src copy asides rule: remove_first_aside.induct)
  case (1 \<E> src copy)
  then show ?case by (simp add: tidy_def cleaned_later)
next
  case (2 \<E> src copy aside held claimed rest)
  show ?case
    unfolding tidy_def
  proof
    fix v :: "'s volume_scheme"
    let ?next = "remove_first_aside \<E> src copy rest :: ('s, 'e, bool) vrun"
    have skip: "wpv ?next (\<lambda>_. cleaned v) (\<lambda>_. cleaned v) (cleaned v) w" if "cleaned v w" for w
      by (rule wpv_tidy [OF _ that]) (use 2 in auto)
    have fin: "wpv (remove_if_named \<E> aside held :: ('s, 'e, bool) vrun) (\<lambda>a. wpv (if a then v_bind (v_ignore (sync_folder \<E>)) (\<lambda>_. v_ret True) else ?next)
        (\<lambda>_. cleaned v) (\<lambda>_. cleaned v) (cleaned v)) (\<lambda>_. cleaned v) (cleaned v) w"
      if w: "cleaned v w" and j: "find_entry w copy = Some j" "vkind (inodes w j) = VFile" "j \<noteq> held" "vdata (inodes w j) = vdata (inodes w held)" for w j
    proof (rule wpv_remove_if_named [OF later_refl])
      fix x assume x: "later w x"
      then have "cleaned v x" using cleaned_trans [OF w cleaned_later] by blast
      then show "cleaned v x"
        "wpv (if False then v_bind (v_ignore (sync_folder \<E>)) (\<lambda>_. v_ret True) else ?next) (\<lambda>_. cleaned v) (\<lambda>_. cleaned v) (cleaned v) x"
        using skip by simp_all
    next
      fix x assume x: "later w x" and named: "find_entry w aside = Some held"
      have "cleaned w (drop_entry aside x)"
        using cleaned_drop [OF x named j(1) _ j(2), of "[]"] j by simp
      then have "cleaned v y" if "later (drop_entry aside x) y" for y
        using cleaned_trans [OF w] cleaned_trans [OF _ cleaned_later [OF that]] by blast
      then show "wpv (if True then v_bind (v_ignore (sync_folder \<E>)) (\<lambda>_. v_ret True) else ?next) (\<lambda>_. cleaned v) (\<lambda>_. cleaned v) (cleaned v) (drop_entry aside x)"
        by (simp, intro wpv_skip [OF reads_sync_folder later_refl]) auto
    qed
    show "wpv (remove_first_aside \<E> src copy ((aside, held, claimed) # rest) :: ('s, 'e, bool) vrun) (\<lambda>_. cleaned v) (\<lambda>_. cleaned v) (cleaned v) v"
      unfolding remove_first_aside.simps
      apply (subst wpv_bind, subst wpv_try)
      apply (rule wpv_fstat [OF later_refl cleaned_later], assumption)
       apply (simp only: sum.case, erule skip [OF cleaned_later])
      apply (simp del: wpv_if)
      apply (rule wpv_copy_of [of v], assumption, erule cleaned_later)
       apply (simp only: simp_thms if_True, erule skip [OF cleaned_later])
      apply (simp del: wpv_if wpv_bind)
      apply (subst wpv_bind)
      apply (rule wpv_drop_claimed [of v], assumption, assumption)
      apply (subst wpv_bind)
      apply (rule fin, assumption, erule trans, assumption)
        apply (simp_all add: cleaned_def)
      done
  qed
qed

lemma tidy_reads:
  assumes "reads m" and "\<And>a. tidy (f a)"
  shows "tidy (v_bind m f)"
  unfolding tidy_def wpv_bind
proof
  fix v
  show "wpv m (\<lambda>a. wpv (f a) (\<lambda>_. cleaned v) (\<lambda>_. cleaned v) (cleaned v)) (\<lambda>_. cleaned v) (cleaned v) v"
    by (rule wpv_skip [OF assms(1) later_refl]) (auto intro: cleaned_later wpv_tidy [OF assms(2) cleaned_later])
qed

lemma tidy_left_aside: "tidy (remove_left_aside \<E> src s copy)"
  unfolding remove_left_aside_def by (intro tidy_reads reads_rules tidy_first_aside)

lemma tidy_unfinished: "tidy (remove_unfinished_copy \<E> c whole)"
  unfolding tidy_def by (auto intro!: wpv_remove_unfinished_copy [OF later_refl] intro: cleaned_later)

lemma tidy_copied: "tidy (remove_copied \<E> aside copy also)"
  unfolding tidy_def by (auto intro!: wpv_remove_copied [OF later_refl] intro: cleaned_later)

lemma tidy_aside_of_copy: "tidy (remove_aside_of_copy \<E> aside copy)"
proof (cases "is_aside_name (snd aside)")
  case True
  then show ?thesis by (simp add: remove_aside_of_copy_def tidy_copied)
qed (simp add: remove_aside_of_copy_def tidy_def cleaned_later)

lemma cleaned_tidy: "tidy m \<Longrightarrow> cleaned v (snd (m v))"
proof -
  assume "tidy m"
  then have m: "case m v of (Value _, w) \<Rightarrow> cleaned v w | (Failed _, w) \<Rightarrow> cleaned v w | (Killed, w) \<Rightarrow> cleaned v w"
    by (simp add: tidy_def wpv_def)
  obtain r w where "m v = (r, w)" by (cases "m v")
  then show ?thesis using m by (cases r) simp_all
qed

text \<open>
  C2. Cleaning up after a move loses nothing, on any volume and wherever it ends: when an unfinished copy,
  a source left aside or an aside of an installed copy is removed, each file's bytes are still the
  beginning of what some entry holds; no file is written, nothing appears, and the Trash stays as it was.
\<close>

theorem cleanup_loses_nothing:
  "cleaned v (snd ((remove_unfinished_copy \<E> copy whole :: ('s, 'e, bool) vrun) v)) \<and>
   cleaned v (snd ((remove_left_aside \<E> src s copy :: ('s, 'e, bool) vrun) v)) \<and>
   cleaned v (snd ((remove_aside_of_copy \<E> aside copy :: ('s, 'e, bool) vrun) v))"
  by (intro conjI cleaned_tidy tidy_unfinished tidy_left_aside tidy_aside_of_copy)

section \<open>The names that are recognised\<close>

definition decimal :: "string \<Rightarrow> nat" where
  "decimal s = foldl (\<lambda>n c. 10 * n + (of_char c - 48)) 0 s"

lemma decimal_snoc [simp]: "decimal (s @ [c]) = 10 * decimal s + (of_char c - 48)"
  by (simp add: decimal_def)

lemma digit_value: "d < 10 \<Longrightarrow> of_char (char_of (48 + d :: nat) :: char) = 48 + d"
  by (simp add: of_char_of)

lemma digit_zero: "d < 10 \<Longrightarrow> char_of (48 + d :: nat) = CHR ''0'' \<longleftrightarrow> d = 0"
proof
  assume "d < 10" and "char_of (48 + d) = CHR ''0''"
  then show "d = 0" using digit_value [of d] by simp
next
  assume "d = 0"
  have "char_of (48 :: nat) = CHR ''0''" by code_simp
  then show "char_of (48 + d) = CHR ''0''" using \<open>d = 0\<close> by simp
qed

lemma is_dec_char: "is_dec c \<longleftrightarrow> (\<exists>d < 10. c = char_of (48 + d :: nat))"
proof
  assume "is_dec c"
  then have "of_char c \<in> {48 ..< 58 :: nat}" unfolding is_dec_def by auto
  then obtain m where "of_char c = (m :: nat)" "48 \<le> m" "m < 58" by simp
  then have "of_char c - 48 < (10 :: nat)" "char_of (48 + (of_char c - 48) :: nat) = c" by auto
  then show "\<exists>d < 10. c = char_of (48 + d :: nat)" by metis
next
  assume "\<exists>d < 10. c = char_of (48 + d :: nat)"
  then obtain d where d: "d < (10 :: nat)" "c = char_of (48 + d)" by blast
  have "\<forall>d < 10. is_dec (char_of (48 + d :: nat))" by code_simp
  then show "is_dec c" using d by simp
qed

lemma decimal_show_nat: "decimal (show_nat n) = n \<and> list_all is_dec (show_nat n) \<and> show_nat n \<noteq> [] \<and>
    (0 < n \<longrightarrow> take 1 (show_nat n) \<noteq> ''0'')"
proof (induction n rule: show_nat.induct)
  case (1 n)
  have digit: "of_char (char_of (48 + d :: nat) :: char) = 48 + d" "is_dec (char_of (48 + d))" if "d < 10" for d :: nat
    using that is_dec_char by (auto simp: of_char_of)
  show ?case
  proof (cases "n < 10")
    case True
    have "(char_of (48 + n) :: char) \<noteq> CHR ''0''" if "0 < n"
      using digit_zero [OF True] that by simp
    then show ?thesis using True digit [OF True] by (simp add: show_nat.simps [of n] decimal_def)
  next
    case False
    then show ?thesis using 1 digit [of "n mod 10"] by (auto simp: show_nat.simps [of n] take_Cons')
  qed
qed

lemma show_nat_decimal:
  "list_all is_dec s \<Longrightarrow> s \<noteq> [] \<Longrightarrow> take 1 s \<noteq> ''0'' \<Longrightarrow> 0 < decimal s \<and> show_nat (decimal s) = s"
proof (induction s rule: rev_induct)
  case (snoc c s)
  obtain d where d: "d < (10 :: nat)" "c = char_of (48 + d)"
    using snoc.prems(1) is_dec_char by auto
  have v: "of_char c - 48 = d" using d by (simp add: of_char_of)
  show ?case
  proof (cases "s = []")
    case True
    then have "d \<noteq> 0" using snoc.prems(3) d digit_zero [of d] by auto
    then show ?thesis using True v d by (simp add: decimal_def show_nat.simps [of d])
  next
    case False
    then have "0 < decimal s" "show_nat (decimal s) = s"
      using snoc by (auto simp: Suc_le_eq)
    then show ?thesis using v d by (simp add: show_nat.simps [of "10 * decimal s + d"])
  qed
qed simp

lemma strip_prefix_iff: "strip_prefix p s = Some r \<longleftrightarrow> s = p @ r"
  by (auto simp: strip_prefix_def) (metis append_take_drop_id)

lemma aside_kind_removing: "aside_kind k = Some Removing \<longleftrightarrow> k = ASIDE_SUFFIX"
  by (auto simp: aside_kind_def split: option.splits if_splits)

lemma parse_u32_iff: "parse_u32 s = Some n \<longleftrightarrow> s \<noteq> [] \<and> list_all is_dec s \<and> decimal s = n \<and> n < 2 ^ 32"
  by (auto simp: parse_u32_def decimal_def Let_def)

lemma aside_kind_restoring:
  "aside_kind k = Some (Restoring n) \<longleftrightarrow> 0 < n \<and> n < 2 ^ 32 \<and> k = RESTORING_SUFFIX @ show_nat n"
proof -
  have "k \<noteq> ASIDE_SUFFIX" if "strip_prefix RESTORING_SUFFIX k = Some s" for s
    using that by (auto simp: strip_prefix_iff ASIDE_SUFFIX_def RESTORING_SUFFIX_def)
  then have "aside_kind k = Some (Restoring n) \<longleftrightarrow>
      (\<exists>s. k = RESTORING_SUFFIX @ s \<and> take 1 s \<noteq> ''0'' \<and> parse_u32 s = Some n)"
    by (auto simp: aside_kind_def strip_prefix_iff [symmetric] parse_u32_iff split: option.splits)
  also have "\<dots> \<longleftrightarrow> 0 < n \<and> n < 2 ^ 32 \<and> k = RESTORING_SUFFIX @ show_nat n"
    unfolding parse_u32_iff by (metis decimal_show_nat show_nat_decimal)
  finally show ?thesis .
qed

definition simple_uuid :: "string \<Rightarrow> bool" where
  "simple_uuid u \<longleftrightarrow> length u = 32 \<and> list_all is_hex u"

lemma aside_name_iff: "aside_name name = Some a \<longleftrightarrow> (\<exists>u k. simple_uuid u \<and> name = ASIDE_PREFIX @ u @ k \<and> aside_kind k = Some a)"
proof
  assume "aside_name name = Some a"
  then obtain rest where "name = ASIDE_PREFIX @ rest" "32 \<le> length rest" "list_all is_hex (take 32 rest)" "aside_kind (drop 32 rest) = Some a"
    by (auto simp: aside_name_def strip_prefix_iff split: option.splits if_splits)
  then show "\<exists>u k. simple_uuid u \<and> name = ASIDE_PREFIX @ u @ k \<and> aside_kind k = Some a"
    by (intro exI [of _ "take 32 rest"] exI [of _ "drop 32 rest"]) (simp add: simple_uuid_def)
next
  assume "\<exists>u k. simple_uuid u \<and> name = ASIDE_PREFIX @ u @ k \<and> aside_kind k = Some a"
  then obtain u k where u: "simple_uuid u" "name = ASIDE_PREFIX @ u @ k" "aside_kind k = Some a" by blast
  then have "strip_prefix ASIDE_PREFIX name = Some (u @ k)" by (simp add: strip_prefix_iff)
  then show "aside_name name = Some a" using u by (simp add: aside_name_def simple_uuid_def)
qed

text \<open>
  C20. After a restart exactly the names a move gives are taken for an entry set aside: a name reads as a
  source being removed just when it was made for that from a UUID, and as one being put back under a number
  just when it was made from a UUID and that positive 32-bit number.
\<close>

theorem aside_names_round_trip:
  "(aside_name name = Some Removing \<longleftrightarrow> (\<exists>u. simple_uuid u \<and> name = aside_name_of u)) \<and>
   (aside_name name = Some (Restoring n) \<longleftrightarrow> (\<exists>u. simple_uuid u \<and> 0 < n \<and> n < 2 ^ 32 \<and> name = restoring_name_of u n))"
  by (auto simp: aside_name_iff aside_kind_removing aside_kind_restoring aside_name_of_def restoring_name_of_def)

end
