(* ===== verification/Spec2Isabelle.thy ===== *)
theory Spec2Isabelle
  imports Lifecycle SourceView Failure RunProps Reconcile PatternProps Journal ApplyHistory StorageProps Recovery
begin

text \<open>
  PlateVault keeps a library of astronomical images: it catalogues files, prepares projects, and changes
  the disk through reviewed plans only. This development models the parts that decide what happens to a
  user's files.

  \<^bold>\<open>Parts and theories.\<close> All sources lie under \<open>src/crates\<close>.

  \<^item> \<open>Prelude\<close>: lemma collections and general facts on lists, options, results and strings.
  \<^item> \<open>Lifecycle\<close>: the state machines of \<open>domain/core/src/lifecycle\<close>. A state enumeration is a
    \<open>datatype\<close>, a transition table a list of pairs in the order of the source; a plan's life is a path
    along that table.
  \<^item> \<open>SourceView\<close>: the choice of a link kind, \<open>domain/core/src/source_view.rs\<close>.
  \<^item> \<open>Os\<close>, \<open>OsLaws\<close>: the operating system as the executor sees it. A tree maps absolute paths to
    nodes (directory, file, link), calls resolve links with a bound of 40 (\<open>MAX_LINKS\<close>, the bound of
    the Linux path walk), and may fail at every call as the parameter \<open>extern\<close> says. \<open>FileOps\<close> has the
    operations of \<open>fs/executor/src/ops\<close> over it, \<open>FileOpsLaws\<close> and \<open>FileOpsProps\<close> what they do to the
    files of the tree, \<open>Freshness\<close> the compare-and-set check and the volume checks, \<open>Failure\<close> the
    failure codes of \<open>fs/executor/src/failure.rs\<close>.
  \<^item> \<open>Contain\<close>: lexical containment, \<open>fs/pathsafe/src/contain.rs\<close>; \<open>PathGate\<close>: the gate of
    \<open>ops/path_gate.rs\<close>, which adds the walk along the tree.
  \<^item> \<open>RetryQueue\<close>, \<open>Run\<close>, \<open>RunLaws\<close>, \<open>RunProps\<close>: the run of a plan,
    \<open>fs/executor/src/run\<close>. The state of a run holds the tree, the counters, the queue and the log of
    what the callbacks saw. Other tasks (cancel, skip, retry requests) act between the steps of the run;
    what they do is a schedule, a finite list of batches of actions consumed one batch at a time, so a
    theorem for every schedule covers every interleaving at the points where the code takes its locks.
    The final loop of a run ends because every round consumes a batch or empties the queue; the measure
    is \<open>run_measure\<close>, and no fuel is needed.
  \<^item> \<open>Reconcile\<close>: the verdict on each item after a restart, \<open>fs/executor/src/reconcile.rs\<close>.
  \<^item> \<open>SafeFilename\<close>, \<open>Patterns\<close>, \<open>PatternProps\<close>: sanitizing of metadata values
    (\<open>safe-filename\<close>) and destination patterns (\<open>patterns\<close>). Text is a list of code points.

  \<^item> \<open>Pins\<close>, \<open>Evidence\<close>, \<open>View\<close>, \<open>Journal\<close>: the data of a prepared project and its rules -
    calibration pins and their drift (\<open>platevault-core/src/pins.rs\<close>), the evidence and inclusion of
    captures (\<open>platevault-model\<close>, \<open>project_inputs.rs\<close>, and what the library counts of a capture,
    \<open>capture_quality\<close> of \<open>persistence/library/src/lib.rs\<close>), the contract of a View with its validators
    (\<open>platevault-model/src/project_view.rs\<close>), and the journal of an Apply with a project's lifecycle.
  \<^item> \<open>Apply\<close>, \<open>ApplyLaws\<close>, \<open>ApplyProps\<close>, \<open>ApplyHistory\<close>: one Apply and the recovery of an interrupted
    one (\<open>platevault-core/src/apply.rs\<close>, \<open>apply/files.rs\<close>, \<open>persistence/library/src/project_view.rs\<close>).
    The state is a record of the three folders of a project and the rows of the database; every answer of
    the environment (database, renames, folder probes, cancel and interrupt requests) is a function of a
    tick, and a call that breaks off stands for a crash. A folder is named by the generation of the Apply
    that made it. A rename of a folder is \<open>rename_noreplace\<close> of \<open>custody/transfer.rs\<close> with both its branches:
    one step where the volume can rename without replacing, else \<open>mkdir\<close>, open and a rename over the
    placeholder, each of which may fail or be the last call of the process (\<open>falls_back\<close>). The poll for a tool that holds the View has a limit, which acts as one more point where
    the process may end. \<open>project_history\<close> is the relation of all Applies, crashes and restarts of a
    project.
  \<^item> \<open>Volume\<close>, \<open>Custody\<close>, \<open>CustodyTransfer\<close>, \<open>Storage\<close>: storage operations
    (\<open>platevault-core/src/custody.rs\<close> with \<open>transfer.rs\<close>, \<open>trash.rs\<close> and \<open>journal.rs\<close>, and the journal of
    \<open>persistence/library/src/storage.rs\<close>). A volume has entries by folder and name, inodes that entries
    and open handles share, and a Trash; every call of the operating system is numbered, may fail with any
    error, and the process may end before it. The rows of an operation extend that record, so one state
    holds the disk and the journal. \<open>VolumeLaws\<close> has weakest preconditions with a postcondition for a
    value, a failure and the end of the process, \<open>TransferLaws\<close> what a move does, \<open>StorageLaws\<close> and
    \<open>StorageSteps\<close> what a step of an operation does to the rows and the Trash, \<open>CustodyProps\<close> and
    \<open>StorageProps\<close> the guarantees; \<open>Recovery\<close> shows that what an interrupted move leaves is found by its
    name and cleaned up without losing a byte.

  \<^bold>\<open>Bounds and fuel.\<close> A move that cannot remove its source moves it back by another move, so the calls
  nest; the number given to \<open>move_noreplace\<close> is the depth of the stack, and running out of it ends the
  process, as it does in the code. The theorem on moves holds for every depth. The rounds given to
  \<open>run_storage_operation\<close> are enough when they exceed five for every item: then more of them change
  nothing. The rounds of \<open>restore_left_aside\<close> bound a search over the numbered names of a file, which the
  code bounds by the type of the number.

  \<^bold>\<open>Interfaces.\<close> The locale \<open>retry_contract\<close> states what the run relies on from the queue; its
  interpretation \<open>rq\<close> discharges it for the queue of the code. The locale \<open>run_invariant\<close> carries a
  relation on run states through every step of a run, and is interpreted for each relation the
  properties need (the tally of the counters, the files kept, the accounting of the retries). The locale
  \<open>call_invariant\<close> carries a property of a volume through everything a transfer may call; its
  interpretations are the content of the Trash and the rows of the journal, which no transfer touches.

  \<^bold>\<open>Parameters.\<close> \<open>extern\<close> is the outside of the executor: failures of system calls, the desktop trash,
  clocks and temporary names. \<open>clean\<close> is the path cleaning of a third-party crate; the properties that
  need it assume its documented behaviour and are witnessed by a computable instance. \<open>unicode\<close> holds the
  Unicode tables. \<open>shuffle\<close> is the unspecified iteration order of a hash set. \<open>apply_env\<close> and \<open>venv\<close> hold
  the answers of the database and of the operating system to an Apply and to a storage operation, among
  them SHA-256 and the uuids, of which the properties that need it assume that they do not collide.

  \<^bold>\<open>Hypotheses of the main theorems.\<close>

  \<^item> The theorems on the View in every history, on an Apply that is cut off, on a working restart, on the rows
    and on the wait for a tool hold on volumes that have a rename that never replaces (\<open>\<not> falls_back\<close>), and
    the first four where folders are told apart by their identity and the folder probes answer to recoveries;
    to an Apply the probes may fail. \<open>folder_rename_loses_no_folder\<close> holds on any volume.
    \<open>empty_placeholder_counts_as_not_installed\<close>, \<open>unstable_ids_hide_the_old_view\<close> and
    \<open>unreadable_view_counts_as_not_installed\<close> show what happens without each of the hypotheses.
  \<^item> \<open>exists()\<close> takes a failing \<open>stat\<close> for a free name. The theorems on a move assume that the probe of its
    destination answers (\<open>next_probe_answers\<close>); those on a run, the trash, the links, the marker, the gate and
    reconciliation that every \<open>stat\<close> and \<open>lstat\<close> does (\<open>probes_reliable\<close>). Every other call may fail. With a
    failing probe a move overwrites (\<open>failed_probe_lets_a_move_overwrite\<close>), and reconciliation takes what it
    cannot read for removed (\<open>reconcile_takes_unreadable_for_removed\<close>).
  \<^item> The theorem on the placement of a capture is about copies that are hashed and of one digest;
    \<open>conflicting_copies_are_placed\<close> is about the others.

  \<^bold>\<open>Idealised.\<close> No other program changes the three folders of a project, or an entry a storage operation
  works on, between two calls; the bytes a copy reads are those of the entry as it was inspected. Paths of
  the custody model are a name in a folder, so the folders entered between a root and an entry do not
  appear. What happens to the files inside the folders of an Apply is an answer of the environment. Of the
  rows of Applies only the latest is kept. Of the database an Apply writes, the model has the phase, outcome,
  stop, wait and report of \<open>apply_operations\<close> with the checks between them and its forward-only trigger, the
  states of \<open>view_manifests\<close> with their transitions and keys, and the running operation. Other columns, foreign
  keys, the locks of closed projects and the tables of entries, leftovers, foreign files and kept moves are
  not modelled; a transaction they refuse is one that failed. A refusal of the reservation for reasons of the lifecycle or of
  entry names counts as a transaction that failed.

  \<^bold>\<open>Not modelled.\<close> The SQL of the database layer, the wire contracts and the use cases that orchestrate
  them, the image and coordinate arithmetic in floating point, the desktop shell, the platform parts of
  the Trash and the platform handles. Windows and macOS variants of the file operations are not part of
  the model; it follows the Unix branches, except that a rename of a folder never falls back on Windows.
\<close>

end
